(* ===== verification/Prelude.thy ===== *)
theory Prelude
  imports Complex_Main "HOL-Library.Word" "HOL-Library.Char_ord" "HOL-Library.List_Lexorder"
begin

text \<open>
  The shared base of the development: the collections of rewrite rules, bytes and strings,
  the parts of the C++ standard library the program uses (decimal conversions, searching
  and cutting strings, \<open>std::map\<close> as a sorted association list, truncating division and
  the wrap-around of the fixed-width integers), and generic lemmas on lists.
\<close>

named_theorems model_simps \<open>unfolding equations of the small, non-recursive definitions\<close>
named_theorems bytes_simps \<open>conversions between characters, bytes and words\<close>

section \<open>Outcomes\<close>

text \<open>
  A call returns a value, throws an exception, or does not return: \<open>Hang\<close> is what a loop
  modelled with fuel yields when the fuel runs out.
\<close>

datatype ('e, 'a) outcome = Ok 'a | Throw 'e | Hang

primrec obind :: "('e, 'a) outcome \<Rightarrow> ('a \<Rightarrow> ('e, 'b) outcome) \<Rightarrow> ('e, 'b) outcome" where
  "obind (Ok a) f = f a"
| "obind (Throw e) f = Throw e"
| "obind Hang f = Hang"

lemma obind_eq_Ok [simp]: "obind m f = Ok b \<longleftrightarrow> (\<exists>a. m = Ok a \<and> f a = Ok b)"
  by (cases m) auto

lemma obind_eq_Hang [simp]: "obind m f = Hang \<longleftrightarrow> m = Hang \<or> (\<exists>a. m = Ok a \<and> f a = Hang)"
  by (cases m) auto

lemma obind_assoc: "obind (obind m f) g = obind m (\<lambda>x. obind (f x) g)"
  by (cases m) auto

section \<open>Bytes and strings\<close>

text \<open>
  \<open>std::string\<close> is \<open>string\<close> (HOL's characters are exactly the 256 byte values) and
  \<open>std::vector<uint8_t>\<close> is a list of 8-bit words. The code converts between the two
  by reinterpreting or copying bytes.
\<close>

type_synonym byte = "8 word"
type_synonym bytes = "8 word list"

definition byte_of_char :: "char \<Rightarrow> byte" where
  "byte_of_char c = of_nat (of_char c)"

definition char_of_byte :: "byte \<Rightarrow> char" where
  "char_of_byte b = char_of (unat b)"

definition bytes_of_str :: "string \<Rightarrow> bytes" where
  "bytes_of_str = map byte_of_char"

definition str_of_bytes :: "bytes \<Rightarrow> string" where
  "str_of_bytes = map char_of_byte"

abbreviation code :: "char \<Rightarrow> nat" where
  "code c \<equiv> of_char c"

lemma code_less_256 [simp]: "code c < 256"
proof -
  have "code c = code (char_of (code c :: nat))" by (simp only: char_of_char)
  also have "\<dots> = code c mod 256" by (simp only: of_char_of)
  finally show ?thesis by (metis mod_less_divisor zero_less_numeral)
qed

lemma unat_byte_of_char [simp, bytes_simps]: "unat (byte_of_char c) = code c"
  by (simp add: byte_of_char_def unat_of_nat)

lemma char_of_byte_of_char [simp, bytes_simps]: "char_of_byte (byte_of_char c) = c"
  by (simp add: char_of_byte_def)

lemma code_char_of_byte [simp, bytes_simps]: "code (char_of_byte b) = unat b"
proof -
  have "unat b < 256" using unsigned_less [of b] by simp
  then show ?thesis by (simp add: char_of_byte_def)
qed

lemma byte_of_char_of_byte [simp, bytes_simps]: "byte_of_char (char_of_byte b) = b"
  by (simp add: byte_of_char_def)

lemma str_of_bytes_of_str [simp, bytes_simps]: "str_of_bytes (bytes_of_str s) = s"
  by (simp add: str_of_bytes_def bytes_of_str_def o_def)

lemma bytes_of_str_of_bytes [simp, bytes_simps]: "bytes_of_str (str_of_bytes s) = s"
  by (simp add: str_of_bytes_def bytes_of_str_def o_def)

lemma length_bytes_of_str [simp, bytes_simps]: "length (bytes_of_str s) = length s"
  by (simp add: bytes_of_str_def)

lemma length_str_of_bytes [simp, bytes_simps]: "length (str_of_bytes s) = length s"
  by (simp add: str_of_bytes_def)

lemma bytes_of_str_append [simp]: "bytes_of_str (s @ t) = bytes_of_str s @ bytes_of_str t"
  by (simp add: bytes_of_str_def)

lemma str_of_bytes_append [simp]: "str_of_bytes (s @ t) = str_of_bytes s @ str_of_bytes t"
  by (simp add: str_of_bytes_def)

lemma take_str_of_bytes [simp]: "take n (str_of_bytes s) = str_of_bytes (take n s)"
  by (simp add: str_of_bytes_def take_map)

lemma drop_str_of_bytes [simp]: "drop n (str_of_bytes s) = str_of_bytes (drop n s)"
  by (simp add: str_of_bytes_def drop_map)

text \<open>\<open>vector::resize\<close> and \<open>ftruncate\<close>: cut, or filled up with zero bytes.\<close>

definition resize_bytes :: "nat \<Rightarrow> bytes \<Rightarrow> bytes" where
  "resize_bytes n b = take n b @ replicate (n - length b) 0"

lemma length_resize_bytes [simp]: "length (resize_bytes n b) = n"
  by (simp add: resize_bytes_def)

text \<open>The bytes \<open>d\<close> written over those of \<open>b\<close> from \<open>pos\<close> on.\<close>

definition splice :: "nat \<Rightarrow> 'a list \<Rightarrow> 'a list \<Rightarrow> 'a list" where
  "splice pos d b = take pos b @ d @ drop (pos + length d) b"

lemma length_splice [simp]: "pos + length d \<le> length b \<Longrightarrow> length (splice pos d b) = length b"
  by (simp add: splice_def)

lemma splice_Nil [simp]: "splice pos [] b = b"
  by (simp add: splice_def)

lemma nth_splice:
  "pos + length d \<le> length b \<Longrightarrow> i < length b \<Longrightarrow>
   splice pos d b ! i = (if pos \<le> i \<and> i < pos + length d then d ! (i - pos) else b ! i)"
  by (auto simp: splice_def nth_append not_less)

lemma take_drop_splice_same:
  "pos + length d \<le> length b \<Longrightarrow> take (length d) (drop pos (splice pos d b)) = d"
  by (simp add: splice_def)

lemma take_drop_splice_disjoint:
  assumes "pos + length d \<le> length b" "q + n \<le> length b" "q + n \<le> pos \<or> pos + length d \<le> q"
  shows "take n (drop q (splice pos d b)) = take n (drop q b)"
proof (rule nth_equalityI)
  show "length (take n (drop q (splice pos d b))) = length (take n (drop q b))"
    using assms by simp
next
  fix i assume "i < length (take n (drop q (splice pos d b)))"
  then have "i < n" "q + i < length b" using assms by auto
  then show "take n (drop q (splice pos d b)) ! i = take n (drop q b) ! i"
    using assms by (auto simp: nth_splice)
qed

lemma bytes_of_str_eq [simp]: "bytes_of_str s = bytes_of_str t \<longleftrightarrow> s = t"
  by (metis str_of_bytes_of_str)

lemma inj_str_of_bytes: "str_of_bytes s = str_of_bytes t \<longleftrightarrow> s = t"
  by (metis bytes_of_str_of_bytes)

section \<open>Searching and cutting strings\<close>

text \<open>\<open>s.find(c, pos)\<close>: the first index at or after \<open>pos\<close>; \<open>npos\<close> is \<open>None\<close>.\<close>

primrec index_of :: "'a \<Rightarrow> 'a list \<Rightarrow> nat option" where
  "index_of c [] = None"
| "index_of c (x # xs) = (if x = c then Some 0 else map_option Suc (index_of c xs))"

definition find_from :: "'a list \<Rightarrow> 'a \<Rightarrow> nat \<Rightarrow> nat option" where
  "find_from s c pos = map_option (\<lambda>i. pos + i) (index_of c (drop pos s))"

text \<open>\<open>s.substr(pos, n)\<close>, for \<open>pos \<le> s.size()\<close>, which every caller ensures.\<close>

definition substr :: "'a list \<Rightarrow> nat \<Rightarrow> nat \<Rightarrow> 'a list" where
  "substr s pos n = take n (drop pos s)"

lemma index_of_None_iff: "index_of c xs = None \<longleftrightarrow> c \<notin> set xs"
  by (induction xs) auto

lemma index_of_SomeD:
  "index_of c xs = Some i \<Longrightarrow> i < length xs \<and> xs ! i = c \<and> c \<notin> set (take i xs)"
  by (induction xs arbitrary: i) (auto split: if_splits)

lemma index_of_append_hit: "c \<notin> set xs \<Longrightarrow> index_of c (xs @ c # ys) = Some (length xs)"
  by (induction xs) auto

lemma find_from_SomeD:
  assumes "find_from s c pos = Some i"
  shows "pos \<le> i" "i < length s" "s ! i = c" "c \<notin> set (take (i - pos) (drop pos s))"
proof -
  from assms obtain j where j: "index_of c (drop pos s) = Some j" "i = pos + j"
    by (auto simp: find_from_def)
  from index_of_SomeD [OF j(1)] j(2)
  show "pos \<le> i" "i < length s" "s ! i = c" "c \<notin> set (take (i - pos) (drop pos s))"
    by auto
qed

lemma find_from_append_hit:
  "c \<notin> set ys \<Longrightarrow> find_from (xs @ ys @ c # zs) c (length xs) = Some (length xs + length ys)"
  by (simp add: find_from_def index_of_append_hit)

lemma substr_append_mid [simp]: "substr (xs @ ys @ zs) (length xs) (length ys) = ys"
  by (simp add: substr_def)

text \<open>Cutting a list at the first separator.\<close>

lemma takeWhile_no_sep [simp]: "c \<notin> set xs \<Longrightarrow> takeWhile (\<lambda>x. x \<noteq> c) xs = xs"
  by (induction xs) auto

lemma dropWhile_no_sep [simp]: "c \<notin> set xs \<Longrightarrow> dropWhile (\<lambda>x. x \<noteq> c) xs = []"
  by (induction xs) auto

lemma takeWhile_sep [simp]: "c \<notin> set xs \<Longrightarrow> takeWhile (\<lambda>x. x \<noteq> c) (xs @ c # ys) = xs"
  by (induction xs) auto

lemma dropWhile_sep [simp]: "c \<notin> set xs \<Longrightarrow> dropWhile (\<lambda>x. x \<noteq> c) (xs @ c # ys) = c # ys"
  by (induction xs) auto

section \<open>Decimal numbers\<close>

definition is_digit :: "char \<Rightarrow> bool" where
  "is_digit c \<longleftrightarrow> 48 \<le> code c \<and> code c \<le> 57"

definition digit_val :: "char \<Rightarrow> nat" where
  "digit_val c = code c - 48"

definition digit_char :: "nat \<Rightarrow> char" where
  "digit_char d = char_of (48 + d)"

lemma is_digit_digit_char [simp]: "d < 10 \<Longrightarrow> is_digit (digit_char d)"
  by (simp add: is_digit_def digit_char_def)

lemma digit_val_digit_char [simp]: "d < 10 \<Longrightarrow> digit_val (digit_char d) = d"
  by (simp add: digit_val_def digit_char_def)

text \<open>\<open>std::to_string\<close> and \<open>operator<<\<close> on integers.\<close>

fun dec_nat :: "nat \<Rightarrow> string" where
  "dec_nat n = (if n < 10 then [digit_char n] else dec_nat (n div 10) @ [digit_char (n mod 10)])"

declare dec_nat.simps [simp del]

definition dec_int :: "int \<Rightarrow> string" where
  "dec_int i = (if i < 0 then CHR ''-'' # dec_nat (nat (- i)) else dec_nat (nat i))"

text \<open>The value of a run of digits, and the longest run of digits a string starts with.\<close>

definition digits_val :: "string \<Rightarrow> nat" where
  "digits_val s = foldl (\<lambda>a c. 10 * a + digit_val c) 0 s"

definition digit_run :: "string \<Rightarrow> string" where
  "digit_run s = takeWhile is_digit s"

lemma digits_val_snoc: "digits_val (s @ [c]) = 10 * digits_val s + digit_val c"
  by (simp add: digits_val_def)

lemma dec_nat_nonempty [simp]: "dec_nat n \<noteq> []"
  by (subst dec_nat.simps) simp

lemma dec_nat_digits: "c \<in> set (dec_nat n) \<Longrightarrow> is_digit c"
proof (induction n arbitrary: c rule: dec_nat.induct)
  case (1 n)
  then show ?case
    by (cases "n < 10") (auto simp: dec_nat.simps [of n])
qed

lemma digits_val_dec_nat [simp]: "digits_val (dec_nat n) = n"
proof (induction n rule: dec_nat.induct)
  case (1 n)
  then show ?case
    by (cases "n < 10")
       (simp_all add: dec_nat.simps [of n] digits_val_snoc, simp add: digits_val_def)
qed

lemma digit_run_dec_nat [simp]: "digit_run (dec_nat n) = dec_nat n"
  by (simp add: digit_run_def takeWhile_eq_all_conv dec_nat_digits)

lemma hd_dec_nat_digit [simp]: "is_digit (hd (dec_nat n))"
  using dec_nat_digits [of "hd (dec_nat n)" n] by simp

lemma dec_nat_ConsE: obtains c cs where "dec_nat n = c # cs" "is_digit c"
  using hd_dec_nat_digit [of n] by (cases "dec_nat n") auto

text \<open>
  \<open>std::stoi\<close>, \<open>std::stoll\<close> and \<open>std::stoull\<close> in base 10: leading white space and one
  sign are skipped, the longest run of digits is converted and what follows is ignored;
  no digit is \<open>std::invalid_argument\<close>, a value outside the type is \<open>std::out_of_range\<close>,
  and a minus sign before an unsigned number negates it modulo the type's size.
\<close>

datatype std_error = InvalidArgument | OutOfRange

definition is_space :: "char \<Rightarrow> bool" where
  "is_space c \<longleftrightarrow> code c = 32 \<or> (9 \<le> code c \<and> code c \<le> 13)"

definition strip_sign :: "string \<Rightarrow> bool \<times> string" where
  "strip_sign s =
     (case s of
        [] \<Rightarrow> (False, [])
      | c # cs \<Rightarrow> if c = CHR ''-'' then (True, cs) else if c = CHR ''+'' then (False, cs)
                  else (False, s))"

definition sign_digits :: "string \<Rightarrow> bool \<times> string" where
  "sign_digits s = (case strip_sign (dropWhile is_space s) of (neg, t) \<Rightarrow> (neg, digit_run t))"

definition sto_signed :: "nat \<Rightarrow> string \<Rightarrow> std_error + int" where
  "sto_signed w s =
     (case sign_digits s of (neg, ds) \<Rightarrow>
        if ds = [] then Inl InvalidArgument
        else let v = (if neg then - int (digits_val ds) else int (digits_val ds))
             in if - (2 ^ (w - 1)) \<le> v \<and> v < 2 ^ (w - 1) then Inr v else Inl OutOfRange)"

definition stoi :: "string \<Rightarrow> std_error + int" where
  "stoi = sto_signed 32"

definition stoll :: "string \<Rightarrow> std_error + int" where
  "stoll = sto_signed 64"

definition stoull :: "string \<Rightarrow> std_error + nat" where
  "stoull s =
     (case sign_digits s of (neg, ds) \<Rightarrow>
        if ds = [] then Inl InvalidArgument
        else if 2 ^ 64 \<le> digits_val ds then Inl OutOfRange
        else Inr (if neg then (2 ^ 64 - digits_val ds) mod 2 ^ 64 else digits_val ds))"

lemma digit_not_space [simp]: "is_digit c \<Longrightarrow> \<not> is_space c"
  by (auto simp: is_digit_def is_space_def)

lemma digit_not_sign: "is_digit c \<Longrightarrow> c \<noteq> CHR ''-'' \<and> c \<noteq> CHR ''+''"
  by (auto simp: is_digit_def)

lemma sign_digits_dec_nat [simp]: "sign_digits (dec_nat n) = (False, dec_nat n)"
proof (rule dec_nat_ConsE [of n])
  fix c cs assume c: "dec_nat n = c # cs" "is_digit c"
  have "sign_digits (c # cs) = (False, digit_run (c # cs))"
    using c(2) digit_not_sign [OF c(2)] by (simp add: sign_digits_def strip_sign_def)
  then show ?thesis by (simp flip: c(1))
qed

lemma sign_digits_minus [simp]: "sign_digits (CHR ''-'' # dec_nat n) = (True, dec_nat n)"
  by (simp add: sign_digits_def strip_sign_def is_space_def)

lemma stoull_dec_nat [simp]: "n < 2 ^ 64 \<Longrightarrow> stoull (dec_nat n) = Inr n"
  by (simp add: stoull_def)

lemma sto_signed_dec_int [simp]:
  "- (2 ^ (w - 1)) \<le> i \<Longrightarrow> i < 2 ^ (w - 1) \<Longrightarrow> sto_signed w (dec_int i) = Inr i"
  by (auto simp: sto_signed_def dec_int_def)

lemma stoll_dec_int [simp]: "- (2 ^ 63) \<le> i \<Longrightarrow> i < 2 ^ 63 \<Longrightarrow> stoll (dec_int i) = Inr i"
  by (simp add: stoll_def)

lemma stoull_less: "stoull s = Inr n \<Longrightarrow> n < 2 ^ 64"
  by (auto simp: stoull_def Let_def split: prod.splits if_splits)

section \<open>Integers of fixed width\<close>

text \<open>C++ division and remainder truncate towards zero.\<close>

definition tdiv :: "int \<Rightarrow> int \<Rightarrow> int" where
  "tdiv a b = sgn a * sgn b * (\<bar>a\<bar> div \<bar>b\<bar>)"

definition tmod :: "int \<Rightarrow> int \<Rightarrow> int" where
  "tmod a b = a - b * tdiv a b"

lemma tdiv_nonneg [simp]: "0 \<le> a \<Longrightarrow> 0 < b \<Longrightarrow> tdiv a b = a div b"
  by (cases "a = 0") (simp_all add: tdiv_def)

lemma tmod_nonneg [simp]: "0 \<le> a \<Longrightarrow> 0 < b \<Longrightarrow> tmod a b = a mod b"
  by (simp add: tmod_def minus_mult_div_eq_mod)

text \<open>Conversion to a signed or unsigned type of \<open>w\<close> bits (\<open>static_cast\<close>).\<close>

definition to_signed :: "nat \<Rightarrow> int \<Rightarrow> int" where
  "to_signed w i = (i + 2 ^ (w - 1)) mod 2 ^ w - 2 ^ (w - 1)"

definition to_unsigned :: "nat \<Rightarrow> int \<Rightarrow> nat" where
  "to_unsigned w i = nat (i mod 2 ^ w)"

lemma to_signed_id:
  assumes "0 < w" "- (2 ^ (w - 1)) \<le> i" "i < 2 ^ (w - 1)"
  shows "to_signed w i = i"
proof -
  obtain v where w: "w = Suc v" using assms(1) by (cases w) auto
  have "(i + 2 ^ v) mod 2 ^ w = i + 2 ^ v"
    using assms w by (intro mod_pos_pos_trivial) auto
  then show ?thesis by (simp add: to_signed_def w)
qed

lemma to_unsigned_less: "to_unsigned w i < 2 ^ w"
proof -
  have "i mod 2 ^ w < (2 ^ w :: int)" by simp
  then have "nat (i mod 2 ^ w) < nat (2 ^ w)" by (subst nat_less_eq_zless) simp_all
  then show ?thesis by (simp add: to_unsigned_def nat_power_eq)
qed

lemma to_unsigned_id: "0 \<le> i \<Longrightarrow> i < 2 ^ w \<Longrightarrow> to_unsigned w i = nat i"
  by (simp add: to_unsigned_def)

section \<open>std::map as a sorted association list\<close>

text \<open>
  \<open>std::map<std::string, V>\<close> iterates in the order of its keys, which
  \<open>std::string::operator<\<close> compares byte by byte as unsigned values: the
  lexicographic order on lists over the order of the character codes.
\<close>

fun smap_insert :: "'k::linorder \<Rightarrow> 'v \<Rightarrow> ('k \<times> 'v) list \<Rightarrow> ('k \<times> 'v) list" where
  "smap_insert k v [] = [(k, v)]"
| "smap_insert k v ((k', v') # m) =
     (if k < k' then (k, v) # (k', v') # m
      else if k = k' then (k, v) # m
      else (k', v') # smap_insert k v m)"

abbreviation smap_sorted :: "('k::linorder \<times> 'v) list \<Rightarrow> bool" where
  "smap_sorted m \<equiv> sorted_wrt (<) (map fst m)"

lemma set_fst_smap_insert [simp]: "fst ` set (smap_insert k v m) = insert k (fst ` set m)"
  by (induction k v m rule: smap_insert.induct) auto

lemma smap_insert_keyD: "p \<in> set (smap_insert k v m) \<Longrightarrow> fst p = k \<or> fst p \<in> fst ` set m"
  using set_fst_smap_insert [of k v m] by blast

lemma smap_sorted_insert [simp]: "smap_sorted m \<Longrightarrow> smap_sorted (smap_insert k v m)"
  by (induction k v m rule: smap_insert.induct) (auto dest: smap_insert_keyD)

lemma map_of_smap_insert [simp]: "map_of (smap_insert k v m) = (map_of m)(k \<mapsto> v)"
  by (induction k v m rule: smap_insert.induct) (auto simp: fun_eq_iff)

lemma smap_insert_last:
  "\<forall>k' \<in> fst ` set m. k' < k \<Longrightarrow> smap_insert k v m = m @ [(k, v)]"
  by (induction k v m rule: smap_insert.induct) auto

section \<open>std::sort\<close>

text \<open>
  \<open>std::sort\<close> as insertion, the algorithm of the library for short ranges. Its contract
  wants a strict weak ordering; for the elements the program sorts it is enough that the
  comparison behaves as one between different elements.
\<close>

fun insert_by :: "('a \<Rightarrow> 'a \<Rightarrow> bool) \<Rightarrow> 'a \<Rightarrow> 'a list \<Rightarrow> 'a list" where
  "insert_by lt x [] = [x]"
| "insert_by lt x (y # ys) = (if lt x y then x # y # ys else y # insert_by lt x ys)"

definition std_sort :: "('a \<Rightarrow> 'a \<Rightarrow> bool) \<Rightarrow> 'a list \<Rightarrow> 'a list" where
  "std_sort lt xs = foldl (\<lambda>acc x. insert_by lt x acc) [] xs"

definition weak_order_on :: "'a set \<Rightarrow> ('a \<Rightarrow> 'a \<Rightarrow> bool) \<Rightarrow> bool" where
  "weak_order_on A lt \<longleftrightarrow>
     (\<forall>a \<in> A. \<forall>b \<in> A. a \<noteq> b \<longrightarrow> lt a b \<longrightarrow> \<not> lt b a) \<and>
     (\<forall>a \<in> A. \<forall>b \<in> A. \<forall>c \<in> A. a \<noteq> b \<longrightarrow> b \<noteq> c \<longrightarrow> a \<noteq> c \<longrightarrow>
        \<not> lt a b \<longrightarrow> \<not> lt b c \<longrightarrow> \<not> lt a c)"

text \<open>What a client of the sorting routine may use.\<close>

locale sorting =
  fixes srt :: "('a \<Rightarrow> 'a \<Rightarrow> bool) \<Rightarrow> 'a list \<Rightarrow> 'a list"
  assumes srt_set: "set (srt lt xs) = set xs"
    and srt_length: "length (srt lt xs) = length xs"
    and srt_distinct: "distinct (srt lt xs) = distinct xs"
    and srt_sorted: "distinct xs \<Longrightarrow> weak_order_on (set xs) lt \<Longrightarrow>
      sorted_wrt (\<lambda>a b. \<not> lt b a) (srt lt xs)"
begin

lemma srt_Nil [simp]: "srt lt [] = []"
  using srt_length [of lt "[]"] by simp

lemma srt_eq_Nil [simp]: "srt lt xs = [] \<longleftrightarrow> xs = []"
  using srt_length [of lt xs] by (metis length_0_conv)

lemma srt_first:
  assumes "distinct xs" "weak_order_on (set xs) lt" "x \<in> set xs"
    and "\<And>y. y \<in> set xs \<Longrightarrow> y \<noteq> x \<Longrightarrow> lt x y"
  shows "hd (srt lt xs) = x"
proof -
  obtain z zs where s: "srt lt xs = z # zs"
    using assms(3) srt_set [of lt xs] by (cases "srt lt xs") auto
  have "z = x"
  proof (rule ccontr)
    assume "z \<noteq> x"
    then have "x \<in> set zs" "z \<in> set xs"
      using assms(3) srt_set [of lt xs] s by auto
    then show False
      using srt_sorted [OF assms(1,2)] assms(4) [of z] s \<open>z \<noteq> x\<close> by auto
  qed
  with s show ?thesis by simp
qed

end

lemma set_insert_by [simp]: "set (insert_by lt x xs) = insert x (set xs)"
  by (induction xs) auto

lemma length_insert_by [simp]: "length (insert_by lt x xs) = Suc (length xs)"
  by (induction xs) auto

lemma distinct_insert_by [simp]: "distinct (insert_by lt x xs) \<longleftrightarrow> x \<notin> set xs \<and> distinct xs"
  by (induction xs) auto

lemma weak_order_on_subset:
  assumes "weak_order_on A lt" "B \<subseteq> A"
  shows "weak_order_on B lt"
proof -
  have sub: "x \<in> B \<Longrightarrow> x \<in> A" for x using assms(2) by (rule subsetD)
  show ?thesis
    unfolding weak_order_on_def
  proof (intro conjI ballI impI)
    fix a b assume "a \<in> B" "b \<in> B" "a \<noteq> b" "lt a b"
    with assms(1) sub show "\<not> lt b a" unfolding weak_order_on_def by metis
  next
    fix a b c
    assume "a \<in> B" "b \<in> B" "c \<in> B" "a \<noteq> b" "b \<noteq> c" "a \<noteq> c" "\<not> lt a b" "\<not> lt b c"
    with assms(1) sub show "\<not> lt a c" unfolding weak_order_on_def by metis
  qed
qed

lemma weak_order_on_asym: "weak_order_on A lt \<Longrightarrow> a \<in> A \<Longrightarrow> b \<in> A \<Longrightarrow> a \<noteq> b \<Longrightarrow> lt a b \<Longrightarrow> \<not> lt b a"
  by (simp add: weak_order_on_def)

lemma weak_order_on_negtrans:
  "weak_order_on A lt \<Longrightarrow> a \<in> A \<Longrightarrow> b \<in> A \<Longrightarrow> c \<in> A \<Longrightarrow> a \<noteq> b \<Longrightarrow> b \<noteq> c \<Longrightarrow> a \<noteq> c \<Longrightarrow>
   \<not> lt a b \<Longrightarrow> \<not> lt b c \<Longrightarrow> \<not> lt a c"
  unfolding weak_order_on_def by blast

lemma sorted_insert_by:
  assumes "weak_order_on (insert x (set ys)) lt" "distinct (x # ys)"
    and "sorted_wrt (\<lambda>a b. \<not> lt b a) ys"
  shows "sorted_wrt (\<lambda>a b. \<not> lt b a) (insert_by lt x ys)"
  using assms
proof (induction ys)
  case (Cons y ys)
  have sub: "weak_order_on (insert x (set ys)) lt"
    using Cons.prems(1) by (rule weak_order_on_subset) auto
  show ?case
  proof (cases "lt x y")
    case True
    have "\<not> lt z x" if "z \<in> set ys" for z
    proof
      assume "lt z x"
      moreover have "\<not> lt z y" using Cons.prems(3) that by simp
      moreover have "\<not> lt y x"
        using weak_order_on_asym [OF Cons.prems(1), of x y] True Cons.prems(2) by simp
      moreover have "z \<noteq> y" "y \<noteq> x" "z \<noteq> x" using Cons.prems(2) that by auto
      ultimately show False
        using weak_order_on_negtrans [OF Cons.prems(1), of z y x] that by simp
    qed
    moreover have "\<not> lt y x"
      using weak_order_on_asym [OF Cons.prems(1), of x y] True Cons.prems(2) by simp
    ultimately show ?thesis using True Cons.prems(3) by auto
  next
    case False
    then show ?thesis using Cons sub by auto
  qed
qed simp

lemma foldl_insert_by:
  "set (foldl (\<lambda>acc x. insert_by lt x acc) ys xs) = set ys \<union> set xs"
  "length (foldl (\<lambda>acc x. insert_by lt x acc) ys xs) = length ys + length xs"
  "distinct (foldl (\<lambda>acc x. insert_by lt x acc) ys xs) \<longleftrightarrow> distinct (ys @ xs)"
  by (induction xs arbitrary: ys) auto

lemma sorted_foldl_insert_by:
  "weak_order_on (set ys \<union> set xs) lt \<Longrightarrow> distinct (ys @ xs) \<Longrightarrow>
   sorted_wrt (\<lambda>a b. \<not> lt b a) ys \<Longrightarrow>
   sorted_wrt (\<lambda>a b. \<not> lt b a) (foldl (\<lambda>acc x. insert_by lt x acc) ys xs)"
proof (induction xs arbitrary: ys)
  case (Cons x xs)
  have "weak_order_on (insert x (set ys)) lt"
    using Cons.prems(1) by (rule weak_order_on_subset) auto
  then have "sorted_wrt (\<lambda>a b. \<not> lt b a) (insert_by lt x ys)"
    using Cons.prems by (intro sorted_insert_by) auto
  then show ?case using Cons.prems by (auto intro!: Cons.IH)
qed simp

interpretation ssort: sorting std_sort
proof unfold_locales
  fix lt and xs :: "'a list"
  show "set (std_sort lt xs) = set xs" "length (std_sort lt xs) = length xs"
    "distinct (std_sort lt xs) = distinct xs"
    by (simp_all add: std_sort_def foldl_insert_by)
  assume "distinct xs" "weak_order_on (set xs) lt"
  then show "sorted_wrt (\<lambda>a b. \<not> lt b a) (std_sort lt xs)"
    unfolding std_sort_def by (intro sorted_foldl_insert_by) auto
qed

end
