(* ===== verification/Posix_FS.thy ===== *)
theory Posix_FS
  imports Prelude
begin

text \<open>
  The operating system calls on files the program makes: \<open>stat\<close>, \<open>mkdir\<close>, \<open>fopen\<close>,
  \<open>ftruncate\<close>, and \<open>fread\<close> and \<open>fwrite\<close> at a position set by \<open>fseeko\<close>, on a file
  system of directories, regular files and other nodes. A path names the list of its
  components without the empty ones and \<open>.\<close>, with a first component \<open>/\<close> for an
  absolute path; symbolic links are not modelled and \<open>..\<close> stays a component of its own.
  \<open>denied\<close> paths cannot be created or opened (permissions).

  Writes can fail at any time: \<open>faults\<close> says for each file what happens to a write when \<open>writes\<close>
  writes have been made before. \<open>Short k\<close> stores \<open>k\<close> bytes and reports the failure; \<open>Lost k\<close> stores
  \<open>k\<close> bytes and reports success, which is what a stream does when its buffer cannot be written out later.

  A file is seen through one stream. POSIX has \<open>fseeko\<close> write out what the stream has buffered, and
  the program calls it before every \<open>fread\<close> and \<open>fwrite\<close>, so that a read sees the writes before it,
  and a buffer shows in \<open>Lost\<close> writes only. Two streams on one file, which need not see each other's
  bytes, are not modelled: the theorems on reading and writing assume different files. Reads do not fail.
\<close>

datatype node = Dir | File bytes | Special

datatype write_fault = Short nat | Lost nat

record fs =
  nodes :: "string list \<rightharpoonup> node"
  denied :: "string list \<Rightarrow> bool"
  faults :: "string list \<Rightarrow> nat \<Rightarrow> write_fault option"
  writes :: nat

text \<open>A file is faulty if some write to it fails at some time.\<close>

definition faulty :: "fs \<Rightarrow> string list \<Rightarrow> bool" where
  "faulty w k = (\<exists>n. faults w k n \<noteq> None)"

definition count_write :: "fs \<Rightarrow> fs" where
  "count_write w = w\<lparr>writes := writes w + 1\<rparr>"

section \<open>Paths\<close>

fun split_on :: "'a \<Rightarrow> 'a list \<Rightarrow> 'a list list" where
  "split_on c [] = [[]]"
| "split_on c (x # xs) =
     (if x = c then [] # split_on c xs
      else (case split_on c xs of [] \<Rightarrow> [[x]] | y # ys \<Rightarrow> (x # y) # ys))"

definition path_key :: "string \<Rightarrow> string list" where
  "path_key p =
     (if p \<noteq> [] \<and> hd p = CHR ''/'' then [''/''] else [])
      @ filter (\<lambda>c. c \<noteq> [] \<and> c \<noteq> ''.'') (split_on (CHR ''/'') p)"

lemma split_on_nonempty [simp]: "split_on c xs \<noteq> []"
  by (induction xs) (auto split: list.splits)

lemma split_on_no_sep: "c \<notin> set xs \<Longrightarrow> split_on c xs = [xs]"
  by (induction xs) auto

lemma split_on_append: "split_on c (xs @ c # ys) = split_on c xs @ split_on c ys"
  by (induction xs) (auto split: list.splits simp: Cons_eq_append_conv)

lemma split_on_append_no_sep: "c \<notin> set xs \<Longrightarrow> split_on c (xs @ c # ys) = xs # split_on c ys"
  by (simp add: split_on_append split_on_no_sep)

lemma split_on_parts: "p \<in> set (split_on c xs) \<Longrightarrow> c \<notin> set p \<and> set p \<subseteq> set xs"
proof (induction xs arbitrary: p)
  case (Cons x xs)
  obtain y ys where s: "split_on c xs = y # ys" by (cases "split_on c xs") auto
  with Cons.prems have "p = [] \<or> (x \<noteq> c \<and> p = x # y) \<or> p \<in> set (split_on c xs)"
    by (auto split: if_splits)
  moreover have "c \<notin> set y \<and> set y \<subseteq> set xs" using Cons.IH [of y] s by simp
  ultimately show ?case using Cons.IH by auto
qed simp

section \<open>Directories\<close>

definition stat :: "fs \<Rightarrow> string \<Rightarrow> node option" where
  "stat w p = (if path_key p \<in> {[], [''/'']} then Some Dir else nodes w (path_key p))"

datatype mkdir_result = MkOk | MkExists | MkFailed

definition parent_is_dir :: "fs \<Rightarrow> string list \<Rightarrow> bool" where
  "parent_is_dir w k =
     (butlast k = [] \<or> butlast k = [''/''] \<or> nodes w (butlast k) = Some Dir)"

definition mkdir :: "fs \<Rightarrow> string \<Rightarrow> mkdir_result \<times> fs" where
  "mkdir w p =
     (let k = path_key p in
      if stat w p \<noteq> None then (MkExists, w)
      else if denied w k \<or> \<not> parent_is_dir w k then (MkFailed, w)
      else (MkOk, w\<lparr>nodes := (nodes w)(k \<mapsto> Dir)\<rparr>))"

section \<open>Regular files\<close>

datatype fopen_mode = ModeW | ModeRPlus

datatype fopen_result = Opened | NoEntry | OpenFailed

text \<open>
  \<open>fopen\<close> with \<open>"w+b"\<close> creates or truncates; with \<open>"r+b"\<close> it opens an existing file,
  and \<open>errno\<close> is \<open>ENOENT\<close> for a missing one.
\<close>

definition fopen :: "fs \<Rightarrow> string \<Rightarrow> fopen_mode \<Rightarrow> fopen_result \<times> fs" where
  "fopen w p m =
     (let k = path_key p in
      if denied w k then (OpenFailed, w)
      else case (m, stat w p) of
        (_, Some Dir) \<Rightarrow> (OpenFailed, w)
      | (_, Some Special) \<Rightarrow> (OpenFailed, w)
      | (ModeRPlus, Some (File _)) \<Rightarrow> (Opened, w)
      | (ModeRPlus, None) \<Rightarrow> (NoEntry, w)
      | (ModeW, _) \<Rightarrow>
          (if parent_is_dir w k then (Opened, w\<lparr>nodes := (nodes w)(k \<mapsto> File [])\<rparr>)
           else (NoEntry, w)))"

definition file_bytes :: "fs \<Rightarrow> string \<Rightarrow> bytes" where
  "file_bytes w p = (case nodes w (path_key p) of Some (File b) \<Rightarrow> b | _ \<Rightarrow> [])"

definition set_file :: "fs \<Rightarrow> string \<Rightarrow> bytes \<Rightarrow> fs" where
  "set_file w p b = w\<lparr>nodes := (nodes w)(path_key p \<mapsto> File b)\<rparr>"

text \<open>\<open>ftruncate\<close>: a shorter file is cut, a longer one is filled with zero bytes.\<close>

definition ftruncate :: "fs \<Rightarrow> string \<Rightarrow> nat \<Rightarrow> bool \<times> fs" where
  "ftruncate w p n =
     (case faults w (path_key p) (writes w) of
        Some _ \<Rightarrow> (False, count_write w)
      | None \<Rightarrow> (True, count_write (set_file w p (resize_bytes n (file_bytes w p)))))"

text \<open>\<open>fwrite\<close> at a position; a gap past the end is filled with zero bytes.\<close>

definition store_at :: "fs \<Rightarrow> string \<Rightarrow> nat \<Rightarrow> bytes \<Rightarrow> fs" where
  "store_at w p pos d =
     (if d = [] then w
      else set_file w p (splice pos d (file_bytes w p @ replicate (pos - length (file_bytes w p)) 0)))"

definition fwrite_at :: "fs \<Rightarrow> string \<Rightarrow> nat \<Rightarrow> bytes \<Rightarrow> bool \<times> fs" where
  "fwrite_at w p pos d =
     (case faults w (path_key p) (writes w) of
        None \<Rightarrow> (True, count_write (store_at w p pos d))
      | Some (Short k) \<Rightarrow> (False, count_write (store_at w p pos (take k d)))
      | Some (Lost k) \<Rightarrow> (True, count_write (store_at w p pos (take k d))))"

text \<open>\<open>fread\<close> at a position: a short read is a failure for the callers.\<close>

definition fread_at :: "fs \<Rightarrow> string \<Rightarrow> nat \<Rightarrow> nat \<Rightarrow> bytes option" where
  "fread_at w p pos n =
     (let b = take n (drop pos (file_bytes w p)) in if length b = n then Some b else None)"

lemma nodes_set_file [simp]: "nodes (set_file w p b) = (nodes w)(path_key p \<mapsto> File b)"
  by (simp add: set_file_def)

lemma faults_set_file [simp]: "faults (set_file w p b) = faults w"
  by (simp add: set_file_def)

lemma count_write_fields [simp]:
  "nodes (count_write w) = nodes w" "denied (count_write w) = denied w" "faults (count_write w) = faults w"
  "file_bytes (count_write w) p = file_bytes w p"
  by (simp_all add: count_write_def file_bytes_def)

lemma faults_store_at [simp]: "faults (store_at w p pos d) = faults w"
  by (simp add: store_at_def)

lemma faulty_cong: "faults w' = faults w \<Longrightarrow> faulty w' = faulty w"
  by (simp add: faulty_def fun_eq_iff)

lemma fault_faulty: "faults w k n = Some x \<Longrightarrow> faulty w k"
  by (auto simp: faulty_def)

lemma denied_set_file [simp]: "denied (set_file w p b) = denied w"
  by (simp add: set_file_def)

lemma file_bytes_set_file:
  "file_bytes (set_file w p b) q = (if path_key q = path_key p then b else file_bytes w q)"
  by (simp add: file_bytes_def)

lemma mkdir_nodes_mono:
  "mkdir w p = (r, w') \<Longrightarrow> nodes w k = Some n \<Longrightarrow> path_key p \<noteq> [] \<Longrightarrow> nodes w' k = Some n"
  by (auto simp: mkdir_def stat_def Let_def split: if_splits)

end
