(* ===== verification/Utils.thy ===== *)
theory Utils
  imports Posix_FS
begin

unbundle bit_operations_syntax

text \<open>
  Models \<open>src/utils.cpp\<close>: hexadecimal and percent encodings, big-endian conversions,
  number formatting, file name and path sanitising, the log filter and directory creation.
  The SHA-1 routine is OpenSSL's and stays a parameter.
\<close>

section \<open>Hashing and logging\<close>

text \<open>\<open>utils::sha1\<close> returns the digest OpenSSL computes as a string of bytes.\<close>

definition sha1_str :: "(bytes \<Rightarrow> bytes) \<Rightarrow> bytes \<Rightarrow> string" where
  "sha1_str SHA1 d = str_of_bytes (SHA1 d)"

datatype log_level = LogError | LogWarn | LogInfo | LogDebug

fun level_num :: "log_level \<Rightarrow> nat" where
  "level_num LogError = 0"
| "level_num LogWarn = 1"
| "level_num LogInfo = 2"
| "level_num LogDebug = 3"

fun level_prefix :: "log_level \<Rightarrow> string" where
  "level_prefix LogError = ''[error] ''"
| "level_prefix LogWarn = ''[warn]  ''"
| "level_prefix LogInfo = ''''"
| "level_prefix LogDebug = ''[debug] ''"

text \<open>Levels are compared as numbers.\<close>

instantiation log_level :: linorder
begin

definition less_eq_log_level :: "log_level \<Rightarrow> log_level \<Rightarrow> bool" where
  "less_eq_log_level l m = (level_num l \<le> level_num m)"

definition less_log_level :: "log_level \<Rightarrow> log_level \<Rightarrow> bool" where
  "less_log_level l m = (level_num l < level_num m)"

instance
proof
  fix l m :: log_level
  show "l \<le> m \<Longrightarrow> m \<le> l \<Longrightarrow> l = m" by (cases l; cases m) (simp_all add: less_eq_log_level_def)
qed (auto simp: less_eq_log_level_def less_log_level_def)

end

lemma level_order [simp]: "LogError \<le> l" "l \<le> LogDebug" "\<not> l < LogError"
  by (cases l; simp add: less_eq_log_level_def less_log_level_def)+

record logger =
  g_logLevel :: log_level
  cout_lines :: "string list"
  cerr_lines :: "string list"

definition setLogLevel :: "log_level \<Rightarrow> logger \<Rightarrow> logger" where
  "setLogLevel l w = w\<lparr>g_logLevel := l\<rparr>"

definition log_message :: "log_level \<Rightarrow> string \<Rightarrow> logger \<Rightarrow> logger" where
  "log_message l m w =
     (if g_logLevel w < l then w
      else if l = LogError then w\<lparr>cerr_lines := cerr_lines w @ [level_prefix l @ m]\<rparr>
      else w\<lparr>cout_lines := cout_lines w @ [level_prefix l @ m]\<rparr>)"

section \<open>Hexadecimal\<close>

definition hex_digit :: "nat \<Rightarrow> char" where
  "hex_digit d = (if d < 10 then char_of (48 + d) else char_of (87 + d))"

definition HEX_digit :: "nat \<Rightarrow> char" where
  "HEX_digit d = (if d < 10 then char_of (48 + d) else char_of (55 + d))"

definition is_xdigit :: "char \<Rightarrow> bool" where
  "is_xdigit c \<longleftrightarrow> is_digit c \<or> (65 \<le> code c \<and> code c \<le> 70) \<or> (97 \<le> code c \<and> code c \<le> 102)"

definition hex_val :: "char \<Rightarrow> nat" where
  "hex_val c = (if is_digit c then code c - 48
                else if 97 \<le> code c then code c - 87 else code c - 55)"

definition toHex :: "string \<Rightarrow> string" where
  "toHex s = concat (map (\<lambda>c. [hex_digit (code c div 16), hex_digit (code c mod 16)]) s)"

text \<open>
  \<open>fromHex\<close> answers the empty string for input that is too short, of odd length, or not
  hexadecimal; the loop consumes two characters at a time.
\<close>

fun fromHex_loop :: "string \<Rightarrow> string \<Rightarrow> string" where
  "fromHex_loop acc (c1 # c2 # cs) =
     (if \<not> is_xdigit c1 \<or> \<not> is_xdigit c2 then []
      else fromHex_loop (acc @ [char_of (16 * hex_val c1 + hex_val c2)]) cs)"
| "fromHex_loop acc _ = acc"

definition fromHex :: "string \<Rightarrow> string" where
  "fromHex hex = (if length hex < 2 \<or> length hex mod 2 \<noteq> 0 then [] else fromHex_loop [] hex)"

lemma code_hex_digit: "d < 16 \<Longrightarrow> code (hex_digit d) = (if d < 10 then 48 + d else 87 + d)"
  by (simp add: hex_digit_def)

lemma code_HEX_digit: "d < 16 \<Longrightarrow> code (HEX_digit d) = (if d < 10 then 48 + d else 55 + d)"
  by (simp add: HEX_digit_def)

lemma hex_digit_xdigit [simp]: "d < 16 \<Longrightarrow> is_xdigit (hex_digit d)"
  by (auto simp: is_xdigit_def is_digit_def code_hex_digit)

lemma HEX_digit_xdigit [simp]: "d < 16 \<Longrightarrow> is_xdigit (HEX_digit d)"
  by (auto simp: is_xdigit_def is_digit_def code_HEX_digit)

lemma hex_val_hex_digit [simp]: "d < 16 \<Longrightarrow> hex_val (hex_digit d) = d"
  by (auto simp: hex_val_def is_digit_def code_hex_digit)

lemma hex_val_HEX_digit [simp]: "d < 16 \<Longrightarrow> hex_val (HEX_digit d) = d"
  by (auto simp: hex_val_def is_digit_def code_HEX_digit)

lemma code_div_16 [simp]: "code c div 16 < 16"
  using code_less_256 [of c] by linarith

lemma char_of_code_parts [simp]: "char_of (16 * (code c div 16) + code c mod 16) = c"
  by simp

lemma fromHex_loop_toHex: "fromHex_loop acc (toHex s) = acc @ s"
  by (induction s arbitrary: acc) (simp_all add: toHex_def)

lemma length_toHex [simp]: "length (toHex s) = 2 * length s"
  by (induction s) (simp_all add: toHex_def)

lemma set_toHex: "c \<in> set (toHex s) \<Longrightarrow> is_xdigit c"
  by (induction s) (auto simp: toHex_def)

lemma fromHex_toHex [simp]: "fromHex (toHex s) = s"
  by (cases s) (simp_all add: fromHex_def fromHex_loop_toHex)

lemma fromHex_loop_length:
  "\<forall>c \<in> set s. is_xdigit c \<Longrightarrow> length (fromHex_loop acc s) = length acc + length s div 2"
  by (induction acc s rule: fromHex_loop.induct) auto

lemma fromHex_bad: "length hex mod 2 = 0 \<Longrightarrow> c \<in> set hex \<Longrightarrow> \<not> is_xdigit c \<Longrightarrow> fromHex_loop acc hex = []"
  by (induction acc hex rule: fromHex_loop.induct) auto

section \<open>Percent encoding\<close>

definition is_alnum :: "char \<Rightarrow> bool" where
  "is_alnum c \<longleftrightarrow> is_digit c \<or> (65 \<le> code c \<and> code c \<le> 90) \<or> (97 \<le> code c \<and> code c \<le> 122)"

definition is_unreserved :: "char \<Rightarrow> bool" where
  "is_unreserved c \<longleftrightarrow> is_alnum c \<or> c = CHR ''-'' \<or> c = CHR ''_'' \<or> c = CHR ''.'' \<or> c = CHR ''~''"

definition urlEncode :: "string \<Rightarrow> string" where
  "urlEncode s =
     concat (map (\<lambda>c. if is_unreserved c then [c]
                      else [CHR ''%'', HEX_digit (code c div 16), HEX_digit (code c mod 16)]) s)"

lemma urlEncode_Nil [simp]: "urlEncode [] = []"
  by (simp add: urlEncode_def)

lemma urlEncode_Cons:
  "urlEncode (c # s) =
     (if is_unreserved c then c # urlEncode s
      else CHR ''%'' # HEX_digit (code c div 16) # HEX_digit (code c mod 16) # urlEncode s)"
  by (simp add: urlEncode_def)

lemma unreserved_plain:
  "is_unreserved c \<Longrightarrow> c \<noteq> CHR ''%'' \<and> c \<noteq> CHR ''+'' \<and> c \<noteq> CHR ''&'' \<and> c \<noteq> CHR ''=''"
  by (auto simp: is_unreserved_def is_alnum_def is_digit_def)

lemma xdigit_plain:
  "is_xdigit c \<Longrightarrow> c \<noteq> CHR ''%'' \<and> c \<noteq> CHR ''+'' \<and> c \<noteq> CHR ''&'' \<and> c \<noteq> CHR ''='' \<and> c \<noteq> CHR ''-'' \<and> \<not> is_space c"
  by (auto simp: is_xdigit_def is_digit_def is_space_def)

lemma urlEncode_chars:
  "c \<in> set (urlEncode s) \<Longrightarrow> c = CHR ''%'' \<or> is_unreserved c \<or> is_xdigit c"
  by (induction s) (auto simp: urlEncode_Cons split: if_splits)

lemma urlEncode_no_delims [simp]:
  "CHR ''&'' \<notin> set (urlEncode s)" "CHR ''='' \<notin> set (urlEncode s)" "CHR ''+'' \<notin> set (urlEncode s)"
  by (auto dest!: urlEncode_chars dest: unreserved_plain xdigit_plain)

section \<open>Big-endian integers\<close>

definition intToBytes :: "32 word \<Rightarrow> string" where
  "intToBytes v = map char_of_byte
     [ucast (drop_bit 24 v AND 0xFF), ucast (drop_bit 16 v AND 0xFF),
      ucast (drop_bit 8 v AND 0xFF), ucast (v AND 0xFF)]"

definition bytesToInt_raw :: "bytes \<Rightarrow> 32 word" where
  "bytesToInt_raw b =
     (push_bit 24 (ucast (b ! 0)) OR push_bit 16 (ucast (b ! 1))
      OR push_bit 8 (ucast (b ! 2)) OR ucast (b ! 3))"

definition bytesToInt :: "string \<Rightarrow> 32 word" where
  "bytesToInt s = (if length s < 4 then 0 else bytesToInt_raw (bytes_of_str (take 4 s)))"

fun int64ToBytes_loop :: "nat \<Rightarrow> 64 word \<Rightarrow> bytes \<Rightarrow> bytes" where
  "int64ToBytes_loop 0 v acc = acc"
| "int64ToBytes_loop (Suc i) v acc =
     int64ToBytes_loop i (signed_drop_bit 8 v) (ucast (v AND 0xFF) # acc)"

definition int64ToBytes :: "64 word \<Rightarrow> string" where
  "int64ToBytes v = str_of_bytes (int64ToBytes_loop 8 v [])"

lemma length_intToBytes [simp]: "length (intToBytes v) = 4"
  by (simp add: intToBytes_def)

lemma and_0xFF: "v AND 0xFF = take_bit 8 (v :: 'a::len word)"
  by (simp add: take_bit_eq_mask mask_eq_exp_minus_1)

lemma ucast_and_0xFF [simp]: "(ucast (v AND 0xFF :: 'a::len word) :: byte) = ucast v"
  by (rule bit_word_eqI) (auto simp: and_0xFF bit_simps)

lemma bytesToInt_raw_join:
  "bytesToInt_raw [ucast (drop_bit 24 v), ucast (drop_bit 16 v), ucast (drop_bit 8 v), ucast v]
     = (v :: 32 word)"
proof (rule bit_word_eqI)
  fix n :: nat assume "n < LENGTH(32)"
  then consider "n < 8" | "8 \<le> n" "n < 16" | "16 \<le> n" "n < 24" | "24 \<le> n" "n < 32"
    by fastforce
  then show "bit (bytesToInt_raw [ucast (drop_bit 24 v), ucast (drop_bit 16 v),
      ucast (drop_bit 8 v), ucast v]) n = bit v n"
    by cases (auto simp: bytesToInt_raw_def bit_simps)
qed

lemma bytesToInt_intToBytes_raw [simp]: "bytesToInt_raw (bytes_of_str (intToBytes v)) = v"
  by (simp add: intToBytes_def bytes_of_str_def bytesToInt_raw_join)

lemma bytesToInt_raw_take: "4 \<le> length b \<Longrightarrow> bytesToInt_raw (take 4 b) = bytesToInt_raw b"
  by (simp add: bytesToInt_raw_def)

lemma bytesToInt_raw_append: "4 \<le> length b \<Longrightarrow> bytesToInt_raw (b @ c) = bytesToInt_raw b"
  by (cases "b = []") (simp_all add: bytesToInt_raw_def nth_append)

lemma bytesToInt_intToBytes_eq [simp]: "bytesToInt (intToBytes v) = v"
  by (simp add: bytesToInt_def)

lemma intToBytes_raw_inv:
  assumes "length b = 4"
  shows "intToBytes (bytesToInt_raw b) = str_of_bytes b"
proof -
  obtain b0 b1 b2 b3 where b: "b = [b0, b1, b2, b3]"
    using assms by (auto simp: numeral_eq_Suc length_Suc_conv)
  have e: "ucast (drop_bit 24 (bytesToInt_raw b)) = b0"
    "ucast (drop_bit 16 (bytesToInt_raw b)) = b1"
    "ucast (drop_bit 8 (bytesToInt_raw b)) = b2"
    "ucast (bytesToInt_raw b) = b3"
    unfolding bytesToInt_raw_def b
    by (rule bit_word_eqI, auto simp: bit_simps dest: bit_imp_le_length)+
  show ?thesis by (simp add: intToBytes_def e [unfolded b] str_of_bytes_def b)
qed

section \<open>Number formatting\<close>

text \<open>
  \<open>formatBytes\<close> divides a \<open>double\<close> by 1024 while it is at least 1024 (at most four times)
  and prints two decimals. Below \<open>2 ^ 53\<close> in absolute value every step is exact, so the
  quotient is the rational \<open>bytes / 1024 ^ u\<close> and the printed value is rounded to the
  nearest hundredth, ties to even.
\<close>

function format_unit :: "nat \<Rightarrow> int \<Rightarrow> nat" where
  "format_unit u bytes =
     (if u < 4 \<and> 1024 ^ (u + 1) \<le> bytes then format_unit (u + 1) bytes else u)"
  by pat_completeness auto
termination
  by (relation "measure (\<lambda>(u, _). 4 - u)") auto

declare format_unit.simps [simp del]

definition round_half_even :: "int \<Rightarrow> int \<Rightarrow> int" where
  "round_half_even a d =
     (let q = a div d; r = a mod d in
      if 2 * r < d then q else if d < 2 * r then q + 1 else if even q then q else q + 1)"

definition formatBytes :: "int \<Rightarrow> string" where
  "formatBytes n =
     (let u = format_unit 0 n; h = round_half_even (100 * \<bar>n\<bar>) (1024 ^ u) in
      (if n < 0 then ''-'' else '''') @ dec_int (h div 100) @ ''.'' @
      [digit_char (nat (h mod 100 div 10)), digit_char (nat (h mod 10))] @ '' '' @
      [''B'', ''KB'', ''MB'', ''GB'', ''TB''] ! u)"

definition formatTime :: "int \<Rightarrow> string" where
  "formatTime seconds =
     (let hrs = tdiv seconds 3600; mins = tdiv (tmod seconds 3600) 60; secs = tmod seconds 60 in
      (if 0 < hrs then dec_int hrs @ ''h '' else '''') @
      (if 0 < mins \<or> 0 < hrs then dec_int mins @ ''m '' else '''') @
      dec_int secs @ ''s'')"

lemma format_unit_bounds:
  "u \<le> 4 \<Longrightarrow> u \<le> format_unit u n \<and> format_unit u n \<le> 4 \<and>
     (format_unit u n < 4 \<longrightarrow> n < 1024 ^ (format_unit u n + 1)) \<and>
     (u < format_unit u n \<longrightarrow> 1024 ^ format_unit u n \<le> n)"
proof (induction u n rule: format_unit.induct)
  case (1 u n)
  show ?case
  proof (cases "u < 4 \<and> 1024 ^ (u + 1) \<le> n")
    case True
    then have eq: "format_unit u n = format_unit (u + 1) n"
      by (subst format_unit.simps) simp
    note ih = "1.IH" [OF True]
    show ?thesis unfolding eq
      using ih True by (cases "u + 1 < format_unit (u + 1) n") auto
  next
    case False
    then have "format_unit u n = u" by (simp only: format_unit.simps [of u n] if_False)
    then show ?thesis using "1.prems" False by auto
  qed
qed

section \<open>Files and directories\<close>

definition getFileSize :: "fs \<Rightarrow> string \<Rightarrow> int" where
  "getFileSize w p =
     (case stat w p of None \<Rightarrow> - 1 | Some (File b) \<Rightarrow> int (length b) | Some _ \<Rightarrow> 0)"

definition fileExists :: "fs \<Rightarrow> string \<Rightarrow> bool" where
  "fileExists w p = (stat w p \<noteq> None)"

definition strip_trailing_slashes :: "string \<Rightarrow> string" where
  "strip_trailing_slashes p = rev (dropWhile (\<lambda>c. c = CHR ''/'') (rev p))"

text \<open>The loop over the positions of the separators: \<open>mkdir\<close> of each non-empty prefix.\<close>

fun mkdir_prefixes :: "string \<Rightarrow> nat list \<Rightarrow> fs \<Rightarrow> bool \<times> fs" where
  "mkdir_prefixes p [] w = (True, w)"
| "mkdir_prefixes p (pos # ps) w =
     (let part = take pos p in
      if part = [] then mkdir_prefixes p ps w
      else case mkdir w part of
        (MkFailed, w') \<Rightarrow> (False, w')
      | (_, w') \<Rightarrow> mkdir_prefixes p ps w')"

definition createDirectories :: "string \<Rightarrow> fs \<Rightarrow> bool \<times> fs" where
  "createDirectories path w =
     (if path = [] then (False, w)
      else let p = strip_trailing_slashes path in
        if p = [] then (False, w)
        else case stat w p of
          Some n \<Rightarrow> (n = Dir, w)
        | None \<Rightarrow>
            (case mkdir_prefixes p (filter (\<lambda>i. p ! i = CHR ''/'') [0..<length p]) w of
               (False, w1) \<Rightarrow> (False, w1)
             | (True, w1) \<Rightarrow>
                 (case mkdir w1 p of
                    (MkFailed, w2) \<Rightarrow> (False, w2)
                  | (_, w2) \<Rightarrow> (stat w2 p = Some Dir, w2))))"

definition createDirectory :: "string \<Rightarrow> fs \<Rightarrow> bool \<times> fs" where
  "createDirectory path w = createDirectories path w"

text \<open>Directories are only added: nothing that exists is removed or changed.\<close>

definition fs_extends :: "fs \<Rightarrow> fs \<Rightarrow> bool" where
  "fs_extends w w' \<longleftrightarrow>
     (\<forall>k. nodes w' k = nodes w k \<or> (nodes w k = None \<and> nodes w' k = Some Dir)) \<and>
     denied w' = denied w \<and> faults w' = faults w"

lemma fs_extends_refl [simp]: "fs_extends w w"
  by (simp add: fs_extends_def)

lemma fs_extends_trans: "fs_extends w w' \<Longrightarrow> fs_extends w' w'' \<Longrightarrow> fs_extends w w''"
  unfolding fs_extends_def by metis

lemma mkdir_extends: "mkdir w p = (r, w') \<Longrightarrow> fs_extends w w'"
  by (auto simp: mkdir_def fs_extends_def stat_def Let_def split: if_splits)

lemma mkdir_prefixes_extends: "mkdir_prefixes p ps w = (b, w') \<Longrightarrow> fs_extends w w'"
proof (induction ps arbitrary: w)
  case (Cons pos ps)
  obtain r w1 where m: "mkdir w (take pos p) = (r, w1)" by fastforce
  from mkdir_extends [OF m] Cons show ?case
    by (cases r) (auto simp: Let_def m split: if_splits intro: fs_extends_trans)
qed simp

lemma createDirectories_extends:
  assumes "createDirectories p w = (b, w')"
  shows "fs_extends w w'"
  using assms
  by (auto simp: createDirectories_def Let_def dest!: mkdir_prefixes_extends mkdir_extends
           intro: fs_extends_trans split: if_splits option.splits prod.splits bool.splits
             mkdir_result.splits)

lemma createDirectories_is_dir:
  "createDirectories p w = (True, w') \<Longrightarrow> stat w' (strip_trailing_slashes p) = Some Dir"
  by (auto simp: createDirectories_def Let_def split: if_splits option.splits prod.splits
        bool.splits mkdir_result.splits)

section \<open>Sanitising names\<close>

definition sanitize_char :: "char \<Rightarrow> char" where
  "sanitize_char c =
     (if c = CHR ''/'' \<or> code c = 92 \<or> code c = 0 \<or> code c < 32 then CHR ''_'' else c)"

definition sanitizeFileName :: "string \<Rightarrow> string" where
  "sanitizeFileName name = map sanitize_char name"

text \<open>
  \<open>sanitizePath\<close> walks over the components between separators; \<open>out\<close> is what the string
  stream holds and \<open>first\<close> says that nothing was written yet.
\<close>

function sanitizePath_loop :: "string \<Rightarrow> string \<Rightarrow> bool \<Rightarrow> string" where
  "sanitizePath_loop path out first =
     (let comp = takeWhile (\<lambda>c. c \<noteq> CHR ''/'') path;
          safe = sanitizeFileName comp;
          keep = (safe \<noteq> [] \<and> safe \<noteq> ''.'' \<and> safe \<noteq> ''..'');
          out' = (if keep then out @ (if first then [] else ''/'') @ safe else out);
          first' = (if keep then False else first)
      in case dropWhile (\<lambda>c. c \<noteq> CHR ''/'') path of
           [] \<Rightarrow> out'
         | _ # rest \<Rightarrow> sanitizePath_loop rest out' first')"
  by pat_completeness auto
termination
proof (relation "measure (\<lambda>(path, _, _). length path)", simp, clarsimp)
  fix path :: string and x rest
  assume d: "dropWhile (\<lambda>c. c \<noteq> CHR ''/'') path = x # rest"
  show "length rest < length path"
    using length_dropWhile_le [of "\<lambda>c. c \<noteq> CHR ''/''" path] unfolding d by simp
qed

declare sanitizePath_loop.simps [simp del]

definition sanitizePath :: "string \<Rightarrow> string" where
  "sanitizePath path = (let r = sanitizePath_loop path [] True in if r = [] then ''_'' else r)"

text \<open>What the loop computes: the safe components, joined by the separator.\<close>

definition safe_component :: "string \<Rightarrow> bool" where
  "safe_component c \<longleftrightarrow>
     c \<noteq> [] \<and> c \<noteq> ''.'' \<and> c \<noteq> ''..'' \<and> (\<forall>x \<in> set c. x \<noteq> CHR ''/'' \<and> code x \<noteq> 92 \<and> 32 \<le> code x)"

definition safe_components :: "string \<Rightarrow> string list" where
  "safe_components path =
     filter (\<lambda>c. c \<noteq> [] \<and> c \<noteq> ''.'' \<and> c \<noteq> ''..'') (map sanitizeFileName (split_on (CHR ''/'') path))"

fun join_path :: "string list \<Rightarrow> string" where
  "join_path [] = []"
| "join_path [c] = c"
| "join_path (c # cs) = c @ ''/'' @ join_path cs"

lemma join_path_append1: "cs \<noteq> [] \<Longrightarrow> join_path (cs @ [c]) = join_path cs @ ''/'' @ c"
  by (induction cs rule: join_path.induct) auto

lemma join_path_empty_iff: "\<forall>c \<in> set cs. c \<noteq> [] \<Longrightarrow> join_path cs = [] \<longleftrightarrow> cs = []"
  by (induction cs rule: join_path.induct) auto

lemma split_on_join_path:
  "cs \<noteq> [] \<Longrightarrow> \<forall>c \<in> set cs. CHR ''/'' \<notin> set c \<Longrightarrow> split_on (CHR ''/'') (join_path cs) = cs"
  by (induction cs rule: join_path.induct) (auto simp: split_on_no_sep split_on_append_no_sep)

lemma split_on_takeWhile_dropWhile:
  "split_on c xs = takeWhile (\<lambda>x. x \<noteq> c) xs #
     (case dropWhile (\<lambda>x. x \<noteq> c) xs of [] \<Rightarrow> [] | _ # r \<Rightarrow> split_on c r)"
  by (induction xs) (auto split: list.splits)

lemma sanitizePath_loop_eq:
  "\<forall>c \<in> set cs. c \<noteq> [] \<Longrightarrow>
   sanitizePath_loop path (join_path cs) (cs = []) = join_path (cs @ safe_components path)"
proof (induction "length path" arbitrary: path cs rule: less_induct)
  case less
  define comp where "comp = takeWhile (\<lambda>c. c \<noteq> CHR ''/'') path"
  define safe where "safe = sanitizeFileName comp"
  define cs' where
    "cs' = (if safe \<noteq> [] \<and> safe \<noteq> ''.'' \<and> safe \<noteq> ''..'' then cs @ [safe] else cs)"
  have ne: "\<forall>c \<in> set cs'. c \<noteq> []" using less.prems by (auto simp: cs'_def)
  have out': "(if safe \<noteq> [] \<and> safe \<noteq> ''.'' \<and> safe \<noteq> ''..''
      then join_path cs @ (if cs = [] then [] else ''/'') @ safe else join_path cs) = join_path cs'"
    by (auto simp: cs'_def join_path_append1)
  have first': "(if safe \<noteq> [] \<and> safe \<noteq> ''.'' \<and> safe \<noteq> ''..'' then False else cs = []) = (cs' = [])"
    by (auto simp: cs'_def)
  note folds = out' [unfolded safe_def comp_def] first' [unfolded safe_def comp_def]
  have sc: "cs @ safe_components path = cs' @
     (case dropWhile (\<lambda>c. c \<noteq> CHR ''/'') path of [] \<Rightarrow> [] | _ # r \<Rightarrow> safe_components r)"
    by (cases "dropWhile (\<lambda>c. c \<noteq> CHR ''/'') path")
       (simp_all add: safe_components_def split_on_takeWhile_dropWhile [of _ path] cs'_def
          safe_def comp_def del: dropWhile_eq_Nil_conv)
  show ?case
  proof (cases "dropWhile (\<lambda>c. c \<noteq> CHR ''/'') path")
    case Nil
    then show ?thesis
      by (subst sanitizePath_loop.simps) (simp only: Let_def Nil list.case folds sc append_Nil2)
  next
    case (Cons x r)
    then have "length r < length path"
      using length_dropWhile_le [of "\<lambda>c. c \<noteq> CHR ''/''" path] by simp
    then have "sanitizePath_loop r (join_path cs') (cs' = []) = join_path (cs' @ safe_components r)"
      using ne by (rule less.hyps)
    then show ?thesis
      by (subst sanitizePath_loop.simps) (simp only: Let_def Cons list.case folds sc)
  qed
qed

lemma safe_component_sanitized:
  "c \<in> set (safe_components path) \<Longrightarrow> safe_component c"
  by (auto simp: safe_components_def safe_component_def sanitizeFileName_def sanitize_char_def
        split: if_splits)

lemma sanitizePath_eq:
  "sanitizePath path =
     (if safe_components path = [] then ''_'' else join_path (safe_components path))"
proof -
  have "sanitizePath_loop path [] True = join_path (safe_components path)"
    using sanitizePath_loop_eq [of "[]" path] by simp
  moreover have "\<forall>c \<in> set (safe_components path). c \<noteq> []"
    by (auto dest: safe_component_sanitized simp: safe_component_def)
  ultimately show ?thesis by (simp add: sanitizePath_def join_path_empty_iff)
qed

lemma sanitizePath_components:
  "split_on (CHR ''/'') (sanitizePath path) =
     (if safe_components path = [] then [''_''] else safe_components path)"
proof -
  have "\<forall>c \<in> set (safe_components path). CHR ''/'' \<notin> set c"
    using safe_component_sanitized [of _ path] by (fastforce simp: safe_component_def)
  then show ?thesis by (simp add: sanitizePath_eq split_on_join_path)
qed

lemma sanitizePath_safe: "c \<in> set (split_on (CHR ''/'') (sanitizePath path)) \<Longrightarrow> safe_component c"
proof (cases "safe_components path = []")
  case True
  moreover have "safe_component ''_''" by (simp add: safe_component_def)
  moreover assume "c \<in> set (split_on (CHR ''/'') (sanitizePath path))"
  ultimately show ?thesis by (simp add: sanitizePath_components)
next
  case False
  moreover assume "c \<in> set (split_on (CHR ''/'') (sanitizePath path))"
  ultimately show ?thesis by (simp add: sanitizePath_components safe_component_sanitized)
qed

lemma sanitize_char_id: "x \<noteq> CHR ''/'' \<Longrightarrow> code x \<noteq> 92 \<Longrightarrow> 32 \<le> code x \<Longrightarrow> sanitize_char x = x"
  by (simp add: sanitize_char_def)

lemma sanitizeFileName_safe_component: "safe_component c \<Longrightarrow> sanitizeFileName c = c"
  unfolding sanitizeFileName_def safe_component_def
  by (rule map_idI) (blast intro: sanitize_char_id)

lemma sanitizePath_idem: "sanitizePath (sanitizePath path) = sanitizePath path"
proof -
  define cs where "cs = split_on (CHR ''/'') (sanitizePath path)"
  have s: "\<And>c. c \<in> set cs \<Longrightarrow> safe_component c" by (simp add: cs_def sanitizePath_safe)
  then have m: "map sanitizeFileName cs = cs"
    by (intro map_idI) (simp add: sanitizeFileName_safe_component)
  have "safe_components (sanitizePath path) = cs"
    using s by (simp add: safe_components_def cs_def [symmetric] m filter_id_conv safe_component_def)
  moreover have "cs \<noteq> []" by (simp add: cs_def)
  moreover have "join_path cs = sanitizePath path"
    by (simp add: cs_def sanitizePath_components) (simp add: sanitizePath_eq)
  ultimately show ?thesis by (simp add: sanitizePath_eq [of "sanitizePath path"])
qed

text \<open>
  Lexical resolution of a path, as the kernel walks it: \<open>..\<close> leaves the directory
  entered last. A path stays under a directory when its resolution keeps its prefix.
\<close>

fun walk :: "string list \<Rightarrow> string list \<Rightarrow> string list" where
  "walk here [] = here"
| "walk here (c # cs) =
     walk (if c = [] \<or> c = ''.'' then here else if c = ''..'' then butlast here else here @ [c]) cs"

lemma walk_append: "walk here (xs @ ys) = walk (walk here xs) ys"
  by (induction xs arbitrary: here) auto

lemma walk_safe: "\<forall>c \<in> set cs. safe_component c \<Longrightarrow> walk here cs = here @ cs"
  by (induction cs arbitrary: here) (auto simp: safe_component_def)

end
