(* ===== verification/Bencode.thy ===== *)
theory Bencode
  imports Prelude
begin

text \<open>
  Models \<open>src/bencode.cpp\<close> and \<open>include/bencode.h\<close>: the value type, the recursive parser
  with its position (a \<open>size_t\<close>, so its arithmetic wraps at \<open>2 ^ 64\<close>), the encoder and the
  dictionary accessors. The parser is modelled with fuel: one unit per call and per loop
  iteration along a path of nested calls. The lemmas give the fuel that is enough, the
  well-formedness of what is parsed, and the round trip with the encoder.
\<close>

section \<open>Values\<close>

datatype bval = BInt int | BStr string | BList "bval list" | BDict "(string \<times> bval) list"

type_synonym bdict = "(string \<times> bval) list"

definition isInt :: "bval \<Rightarrow> bool" where "isInt v = (case v of BInt _ \<Rightarrow> True | _ \<Rightarrow> False)"
definition isString :: "bval \<Rightarrow> bool" where "isString v = (case v of BStr _ \<Rightarrow> True | _ \<Rightarrow> False)"
definition isList :: "bval \<Rightarrow> bool" where "isList v = (case v of BList _ \<Rightarrow> True | _ \<Rightarrow> False)"
definition isDict :: "bval \<Rightarrow> bool" where "isDict v = (case v of BDict _ \<Rightarrow> True | _ \<Rightarrow> False)"

definition asIntDef :: "bval \<Rightarrow> int \<Rightarrow> int" where
  "asIntDef v d = (case v of BInt i \<Rightarrow> i | _ \<Rightarrow> d)"

definition asStringDef :: "bval \<Rightarrow> string \<Rightarrow> string" where
  "asStringDef v d = (case v of BStr s \<Rightarrow> s | _ \<Rightarrow> d)"

definition dictGet :: "bdict \<Rightarrow> string \<Rightarrow> bval option" where
  "dictGet d k = map_of d k"

definition dictGetInt :: "bdict \<Rightarrow> string \<Rightarrow> int option" where
  "dictGetInt d k = (case dictGet d k of Some (BInt i) \<Rightarrow> Some i | _ \<Rightarrow> None)"

definition dictGetString :: "bdict \<Rightarrow> string \<Rightarrow> string option" where
  "dictGetString d k = (case dictGet d k of Some (BStr s) \<Rightarrow> Some s | _ \<Rightarrow> None)"

lemmas accessor_simps [model_simps] = isInt_def isString_def isList_def isDict_def
  dictGet_def dictGetInt_def dictGetString_def

section \<open>Parsing\<close>

text \<open>The exceptions the parser throws; \<open>BadNumber\<close> is what \<open>std::stoll\<close> or \<open>std::stoull\<close> throws.\<close>

datatype berror =
    UnexpectedEnd | UnterminatedInteger | MissingColon | LengthExceedsData
  | UnterminatedList | KeyNotString | UnterminatedDictionary | InvalidCharacter char
  | BadNumber std_error string

fun what :: "berror \<Rightarrow> string" where
  "what UnexpectedEnd = ''Unexpected end of bencode data''"
| "what UnterminatedInteger = ''Unterminated integer''"
| "what MissingColon = ''Missing colon in string''"
| "what LengthExceedsData = ''String length exceeds data''"
| "what UnterminatedList = ''Unterminated list''"
| "what KeyNotString = ''Dictionary key must be a string''"
| "what UnterminatedDictionary = ''Unterminated dictionary''"
| "what (InvalidCharacter c) = ''Invalid bencode character: '' @ [c]"
| "what (BadNumber _ f) = f"

type_synonym parse_result = "(berror, bval \<times> nat) outcome"

definition parse_integer :: "string \<Rightarrow> nat \<Rightarrow> parse_result" where
  "parse_integer data pos =
     (case find_from data CHR ''e'' (pos + 1) of
        None \<Rightarrow> Throw UnterminatedInteger
      | Some e \<Rightarrow>
          (case stoll (substr data (pos + 1) (e - (pos + 1))) of
             Inl x \<Rightarrow> Throw (BadNumber x ''stoll'')
           | Inr v \<Rightarrow> Ok (BInt v, e + 1)))"

definition parse_string :: "string \<Rightarrow> nat \<Rightarrow> parse_result" where
  "parse_string data pos =
     (case find_from data CHR '':'' pos of
        None \<Rightarrow> Throw MissingColon
      | Some colon \<Rightarrow>
          (case stoull (substr data pos (colon - pos)) of
             Inl x \<Rightarrow> Throw (BadNumber x ''stoull'')
           | Inr len \<Rightarrow>
               (let p = colon + 1; q = (p + len) mod 2 ^ 64 in
                if length data < q then Throw LengthExceedsData
                else Ok (BStr (substr data p len), q))))"

fun parseImpl :: "nat \<Rightarrow> string \<Rightarrow> nat \<Rightarrow> parse_result"
  and parseList :: "nat \<Rightarrow> string \<Rightarrow> nat \<Rightarrow> bval list \<Rightarrow> parse_result"
  and parseDict :: "nat \<Rightarrow> string \<Rightarrow> nat \<Rightarrow> bdict \<Rightarrow> parse_result"
where
  "parseImpl 0 data pos = Hang"
| "parseImpl (Suc f) data pos =
     (if length data \<le> pos then Throw UnexpectedEnd
      else let c = data ! pos in
        if c = CHR ''i'' then parse_integer data pos
        else if is_digit c then parse_string data pos
        else if c = CHR ''l'' then parseList f data (pos + 1) []
        else if c = CHR ''d'' then parseDict f data (pos + 1) []
        else Throw (InvalidCharacter c))"
| "parseList 0 data pos acc = Hang"
| "parseList (Suc f) data pos acc =
     (if pos < length data \<and> data ! pos \<noteq> CHR ''e''
      then obind (parseImpl f data pos) (\<lambda>(v, pos'). parseList f data pos' (acc @ [v]))
      else if length data \<le> pos then Throw UnterminatedList
      else Ok (BList acc, pos + 1))"
| "parseDict 0 data pos acc = Hang"
| "parseDict (Suc f) data pos acc =
     (if pos < length data \<and> data ! pos \<noteq> CHR ''e''
      then obind (parseImpl f data pos) (\<lambda>(k, pos').
             case k of
               BStr key \<Rightarrow> obind (parseImpl f data pos') (\<lambda>(v, pos'').
                 parseDict f data pos'' (smap_insert key v acc))
             | _ \<Rightarrow> Throw KeyNotString)
      else if length data \<le> pos then Throw UnterminatedDictionary
      else Ok (BDict acc, pos + 1))"

text \<open>
  \<open>bencode::parse(data, pos)\<close> and \<open>bencode::parse(data)\<close>, with the fuel that is enough for
  every input whose length fields do not wrap (\<open>lengths_fit\<close> below). On other inputs
  \<open>Hang\<close> says that this fuel did not end the parse; \<open>wrapping_list_hangs\<close> shows one for
  which none does.
\<close>

definition parse_fuel :: "string \<Rightarrow> nat" where
  "parse_fuel data = 2 * length data + 2"

definition parseAt :: "string \<Rightarrow> nat \<Rightarrow> parse_result" where
  "parseAt data pos = parseImpl (parse_fuel data) data pos"

definition parse :: "string \<Rightarrow> (berror, bval) outcome" where
  "parse data = obind (parseAt data 0) (\<lambda>(v, _). Ok v)"

section \<open>Encoding\<close>

definition encode_string :: "string \<Rightarrow> string" where
  "encode_string s = dec_nat (length s) @ '':'' @ s"

fun encode :: "bval \<Rightarrow> string"
  and encode_list :: "bval list \<Rightarrow> string"
  and encode_dict :: "bdict \<Rightarrow> string"
where
  "encode (BInt i) = ''i'' @ dec_int i @ ''e''"
| "encode (BStr s) = encode_string s"
| "encode (BList xs) = ''l'' @ encode_list xs @ ''e''"
| "encode (BDict m) = ''d'' @ encode_dict m @ ''e''"
| "encode_list [] = []"
| "encode_list (x # xs) = encode x @ encode_list xs"
| "encode_dict [] = []"
| "encode_dict ((k, v) # m) = encode_string k @ encode v @ encode_dict m"

text \<open>Values a C++ program can hold: integers of 64 bits, dictionaries in key order.\<close>

fun wf_bval :: "bval \<Rightarrow> bool"
  and wf_list :: "bval list \<Rightarrow> bool"
  and wf_dict :: "bdict \<Rightarrow> bool"
where
  "wf_bval (BInt i) = (- (2 ^ 63) \<le> i \<and> i < 2 ^ 63)"
| "wf_bval (BStr s) = True"
| "wf_bval (BList xs) = wf_list xs"
| "wf_bval (BDict m) = (smap_sorted m \<and> wf_dict m)"
| "wf_list [] = True"
| "wf_list (x # xs) = (wf_bval x \<and> wf_list xs)"
| "wf_dict [] = True"
| "wf_dict ((k, v) # m) = (wf_bval v \<and> wf_dict m)"

section \<open>What is parsed is well formed\<close>

lemma wf_list_append [simp]: "wf_list (xs @ ys) \<longleftrightarrow> wf_list xs \<and> wf_list ys"
  by (induction xs) auto

lemma wf_dict_insert [simp]: "wf_dict m \<Longrightarrow> wf_bval v \<Longrightarrow> wf_dict (smap_insert k v m)"
  by (induction k v m rule: smap_insert.induct) auto

lemma sto_signed_range: "sto_signed w s = Inr v \<Longrightarrow> - (2 ^ (w - 1)) \<le> v \<and> v < 2 ^ (w - 1)"
  by (auto simp: sto_signed_def Let_def split: prod.splits if_splits)

lemma parse_integer_wf: "parse_integer data pos = Ok (v, q) \<Longrightarrow> wf_bval v"
  using sto_signed_range [of 64]
  by (auto simp: parse_integer_def stoll_def split: option.splits sum.splits)

lemma parse_string_wf: "parse_string data pos = Ok (v, q) \<Longrightarrow> wf_bval v"
  by (auto simp: parse_string_def Let_def split: option.splits sum.splits if_splits)

lemma case_BStr_eq_Ok [simp]:
  "(case k of BStr s \<Rightarrow> g s | _ \<Rightarrow> Throw e) = Ok r \<longleftrightarrow> (\<exists>s. k = BStr s \<and> g s = Ok r)"
  by (cases k) auto

lemma parse_wf_all:
  "(\<forall>pos v q. parseImpl f data pos = Ok (v, q) \<longrightarrow> wf_bval v) \<and>
   (\<forall>pos acc v q. wf_list acc \<longrightarrow> parseList f data pos acc = Ok (v, q) \<longrightarrow> wf_bval v) \<and>
   (\<forall>pos acc v q. smap_sorted acc \<and> wf_dict acc \<longrightarrow> parseDict f data pos acc = Ok (v, q) \<longrightarrow>
      wf_bval v)"
proof (induction f)
  case (Suc f)
  then have i: "\<And>pos v q. parseImpl f data pos = Ok (v, q) \<Longrightarrow> wf_bval v"
    and l: "\<And>pos acc v q. wf_list acc \<Longrightarrow> parseList f data pos acc = Ok (v, q) \<Longrightarrow> wf_bval v"
    and d: "\<And>pos acc v q. smap_sorted acc \<Longrightarrow> wf_dict acc \<Longrightarrow> parseDict f data pos acc = Ok (v, q)
      \<Longrightarrow> wf_bval v"
    by blast+
  show ?case
  proof (intro conjI allI impI)
    fix pos v q assume "parseImpl (Suc f) data pos = Ok (v, q)"
    then show "wf_bval v"
      using l [of "[]" "pos + 1" v q] d [of "[]" "pos + 1" v q]
      by (simp add: Let_def parse_integer_wf parse_string_wf split: if_splits)
  next
    fix pos acc v q assume "wf_list acc" "parseList (Suc f) data pos acc = Ok (v, q)"
    then show "wf_bval v" by (auto split: if_splits dest!: i dest: l [rotated])
  next
    fix pos acc v q
    assume "smap_sorted acc \<and> wf_dict acc" "parseDict (Suc f) data pos acc = Ok (v, q)"
    then show "wf_bval v"
      by (auto split: if_splits dest!: i intro: d [OF smap_sorted_insert wf_dict_insert])
  qed
qed simp

lemma parseImpl_wf: "parseImpl f data pos = Ok (v, q) \<Longrightarrow> wf_bval v"
  using parse_wf_all by blast

section \<open>The parser returns\<close>

text \<open>
  No length field makes the position wrap: then each call consumes input and the fuel of
  \<open>parseAt\<close> is enough.
\<close>

definition lengths_fit :: "string \<Rightarrow> bool" where
  "lengths_fit data \<longleftrightarrow>
     (\<forall>p < length data. \<forall>colon len.
        find_from data CHR '':'' p = Some colon \<longrightarrow>
        stoull (substr data p (colon - p)) = Inr len \<longrightarrow> colon + 1 + len < 2 ^ 64)"

lemma parse_string_progress:
  assumes "lengths_fit data" "pos < length data" "parse_string data pos = Ok (v, q)"
  shows "pos < q \<and> q \<le> length data"
proof -
  from assms(3) obtain colon len where c:
    "find_from data CHR '':'' pos = Some colon"
    "stoull (substr data pos (colon - pos)) = Inr len"
    "q = (colon + 1 + len) mod 2 ^ 64" "q \<le> length data"
    by (auto simp: parse_string_def Let_def split: option.splits sum.splits if_splits)
  from assms(1,2) c(1,2) have "colon + 1 + len < 2 ^ 64" by (auto simp: lengths_fit_def)
  with c(3) have "q = colon + 1 + len" by simp
  with find_from_SomeD(1) [OF c(1)] c(4) show ?thesis by simp
qed

lemma parse_integer_progress:
  assumes "parse_integer data pos = Ok (v, q)"
  shows "pos < q \<and> q \<le> length data"
proof -
  from assms obtain e where e: "find_from data CHR ''e'' (pos + 1) = Some e" "q = e + 1"
    by (auto simp: parse_integer_def split: option.splits sum.splits)
  from find_from_SomeD(1,2) [OF e(1)] e(2) show ?thesis by simp
qed

lemma parse_progress_all:
  assumes "lengths_fit data"
  shows "(\<forall>pos v q. parseImpl f data pos = Ok (v, q) \<longrightarrow> pos < q \<and> q \<le> length data) \<and>
    (\<forall>pos acc v q. parseList f data pos acc = Ok (v, q) \<longrightarrow> pos < q \<and> q \<le> length data) \<and>
    (\<forall>pos acc v q. parseDict f data pos acc = Ok (v, q) \<longrightarrow> pos < q \<and> q \<le> length data)"
proof (induction f)
  case (Suc f)
  then have i: "\<And>pos v q. parseImpl f data pos = Ok (v, q) \<Longrightarrow> pos < q \<and> q \<le> length data"
    and l: "\<And>pos acc v q. parseList f data pos acc = Ok (v, q) \<Longrightarrow> pos < q \<and> q \<le> length data"
    and d: "\<And>pos acc v q. parseDict f data pos acc = Ok (v, q) \<Longrightarrow> pos < q \<and> q \<le> length data"
    by blast+
  show ?case
  proof (intro conjI [OF _ conjI] allI impI)
    fix pos v q assume p: "parseImpl (Suc f) data pos = Ok (v, q)"
    then have "pos < length data" by (simp split: if_splits)
    with p show "pos < q \<and> q \<le> length data"
      using l [of "pos + 1" "[]" v q] d [of "pos + 1" "[]" v q]
        parse_string_progress [OF assms] parse_integer_progress
      by (simp add: Let_def split: if_splits)
  next
    fix pos acc v q assume "parseList (Suc f) data pos acc = Ok (v, q)"
    then show "pos < q \<and> q \<le> length data" by (auto split: if_splits dest!: i l)
  next
    fix pos acc v q assume "parseDict (Suc f) data pos acc = Ok (v, q)"
    then show "pos < q \<and> q \<le> length data" by (auto split: if_splits dest!: i d)
  qed
qed simp

lemma parse_progress:
  "lengths_fit data \<Longrightarrow> parseImpl f data pos = Ok (v, q) \<Longrightarrow> pos < q \<and> q \<le> length data"
  using parse_progress_all by blast

lemma parse_scalar_not_Hang [simp]: "parse_integer data pos \<noteq> Hang" "parse_string data pos \<noteq> Hang"
  by (auto simp: parse_integer_def parse_string_def Let_def split: option.splits sum.splits)

lemma parse_no_Hang_all:
  assumes "lengths_fit data"
  shows "(\<forall>pos. pos \<le> length data \<longrightarrow> 2 * (length data - pos) + 2 \<le> f \<longrightarrow>
      parseImpl f data pos \<noteq> Hang) \<and>
    (\<forall>pos acc. pos \<le> length data \<longrightarrow> 2 * (length data - pos) + 3 \<le> f \<longrightarrow>
      parseList f data pos acc \<noteq> Hang) \<and>
    (\<forall>pos acc. pos \<le> length data \<longrightarrow> 2 * (length data - pos) + 3 \<le> f \<longrightarrow>
      parseDict f data pos acc \<noteq> Hang)"
proof (induction f)
  case (Suc f)
  then have i: "\<And>pos. pos \<le> length data \<Longrightarrow> 2 * (length data - pos) + 2 \<le> f \<Longrightarrow>
      parseImpl f data pos \<noteq> Hang"
    and l: "\<And>pos acc. pos \<le> length data \<Longrightarrow> 2 * (length data - pos) + 3 \<le> f \<Longrightarrow>
      parseList f data pos acc \<noteq> Hang"
    and d: "\<And>pos acc. pos \<le> length data \<Longrightarrow> 2 * (length data - pos) + 3 \<le> f \<Longrightarrow>
      parseDict f data pos acc \<noteq> Hang"
    by blast+
  note prog = parse_progress [OF assms]
  show ?case
  proof (intro conjI [OF _ conjI] allI impI)
    fix pos assume "pos \<le> length data" "2 * (length data - pos) + 2 \<le> Suc f"
    then show "parseImpl (Suc f) data pos \<noteq> Hang"
      using l [of "pos + 1" "[]"] d [of "pos + 1" "[]"] by (simp add: Let_def)
  next
    fix pos acc assume b: "pos \<le> length data" "2 * (length data - pos) + 3 \<le> Suc f"
    have "parseList f data q (acc @ [v]) \<noteq> Hang" if "parseImpl f data pos = Ok (v, q)" for v q
      using prog [OF that] b by (intro l) auto
    then show "parseList (Suc f) data pos acc \<noteq> Hang" using b i [of pos] by auto
  next
    fix pos acc assume b: "pos \<le> length data" "2 * (length data - pos) + 3 \<le> Suc f"
    have v: "parseImpl f data q \<noteq> Hang" if "parseImpl f data pos = Ok (k, q)" for k q
      using prog [OF that] b by (intro i) auto
    have r: "parseDict f data q' m \<noteq> Hang"
      if "parseImpl f data pos = Ok (k, q)" "parseImpl f data q = Ok (w, q')" for k q w q' m
      using prog [OF that(1)] prog [OF that(2)] b by (intro d) auto
    show "parseDict (Suc f) data pos acc \<noteq> Hang"
      using b i [of pos] v r by (auto split: bval.splits)
  qed
qed simp

lemma parseAt_returns: "lengths_fit data \<Longrightarrow> pos \<le> length data \<Longrightarrow> parseAt data pos \<noteq> Hang"
  using parse_no_Hang_all [of data "parse_fuel data"] by (simp add: parseAt_def parse_fuel_def)

section \<open>Round trip\<close>

lemma encode_nonempty: "2 \<le> length (encode v)"
  by (cases v) (auto simp: encode_string_def Suc_le_eq)

lemma encode_first:
  obtains c r where "encode v = c # r" "c \<noteq> CHR ''e''"
proof (cases v)
  case (BStr s)
  obtain c cs where "dec_nat (length s) = c # cs" "is_digit c" by (rule dec_nat_ConsE)
  moreover from this(2) have "c \<noteq> CHR ''e''" by (auto simp: is_digit_def)
  ultimately show ?thesis using BStr that by (simp add: encode_string_def)
qed (use that in auto)

lemma parse_integer_encode:
  assumes "- (2 ^ 63) \<le> i" "i < 2 ^ 63"
  shows "parse_integer (pre @ encode (BInt i) @ post) (length pre)
    = Ok (BInt i, length pre + length (encode (BInt i)))"
proof -
  have "CHR ''e'' \<notin> set (dec_nat n)" for n
    using dec_nat_digits [of "CHR ''e''" n] by (auto simp: is_digit_def)
  then have "CHR ''e'' \<notin> set (dec_int i)" by (simp add: dec_int_def)
  from find_from_append_hit [OF this, of "pre @ ''i''" post]
  have "find_from (pre @ encode (BInt i) @ post) CHR ''e'' (length pre + 1)
      = Some (length pre + 1 + length (dec_int i))"
    by simp
  moreover have "substr (pre @ encode (BInt i) @ post) (length pre + 1) (length (dec_int i)) = dec_int i"
    by (simp add: substr_def)
  ultimately show ?thesis using assms by (simp add: parse_integer_def)
qed

lemma parse_string_encode:
  assumes "length (pre @ encode_string s) < 2 ^ 64"
  shows "parse_string (pre @ encode_string s @ post) (length pre)
    = Ok (BStr s, length pre + length (encode_string s))"
proof -
  define n where "n = dec_nat (length s)"
  have "CHR '':'' \<notin> set n"
    using dec_nat_digits [of "CHR '':''" "length s"] by (auto simp: is_digit_def n_def)
  from find_from_append_hit [OF this, of pre "s @ post"]
  have "find_from (pre @ encode_string s @ post) CHR '':'' (length pre) = Some (length pre + length n)"
    by (simp add: encode_string_def n_def)
  moreover have "substr (pre @ encode_string s @ post) (length pre) (length n) = n"
    by (simp add: encode_string_def n_def substr_def)
  moreover have "substr (pre @ encode_string s @ post) (length pre + length n + 1) (length s) = s"
    by (simp add: encode_string_def n_def substr_def)
  moreover have "(length pre + length n + 1 + length s) mod 2 ^ 64 = length pre + length n + 1 + length s"
    using assms by (simp add: encode_string_def n_def)
  ultimately show ?thesis
    using assms by (simp add: parse_string_def n_def encode_string_def Let_def)
qed

lemma nth_append_first: "(pre @ (c # r) @ post) ! length pre = c"
  by simp

lemma parseImpl_encode_string:
  assumes "length (pre @ encode_string s) < 2 ^ 64"
  shows "parseImpl (Suc f) (pre @ encode_string s @ post) (length pre)
    = Ok (BStr s, length pre + length (encode_string s))"
proof -
  obtain c cs where c: "dec_nat (length s) = c # cs" "is_digit c" by (rule dec_nat_ConsE)
  then have "(pre @ encode_string s @ post) ! length pre = c" "c \<noteq> CHR ''i''"
    by (auto simp: encode_string_def is_digit_def)
  with c(2) parse_string_encode [OF assms, of post] show ?thesis
    by (simp add: Let_def) (simp add: encode_string_def)
qed

lemma parse_encode_all:
  shows "wf_bval v \<Longrightarrow> length (pre @ encode v) < 2 ^ 64 \<Longrightarrow> 2 * length (encode v) \<le> f \<Longrightarrow>
      parseImpl f (pre @ encode v @ post) (length pre) = Ok (v, length pre + length (encode v))"
    and "wf_list xs \<Longrightarrow> length (pre @ encode_list xs) < 2 ^ 64 \<Longrightarrow> 2 * length (encode_list xs) < f \<Longrightarrow>
      parseList f (pre @ encode_list xs @ CHR ''e'' # post) (length pre) acc
        = Ok (BList (acc @ xs), length pre + length (encode_list xs) + 1)"
    and "wf_dict m \<Longrightarrow> smap_sorted (dacc @ m) \<Longrightarrow> length (pre @ encode_dict m) < 2 ^ 64 \<Longrightarrow>
      2 * length (encode_dict m) < f \<Longrightarrow>
      parseDict f (pre @ encode_dict m @ CHR ''e'' # post) (length pre) dacc
        = Ok (BDict (dacc @ m), length pre + length (encode_dict m) + 1)"
proof (induction v and xs and m arbitrary: pre post f and pre post f acc and pre post f dacc
    rule: encode_encode_list_encode_dict.induct)
  case (1 i)
  then obtain g where f: "f = Suc g" by (cases f) auto
  from 1 show ?case using parse_integer_encode [of i pre post] by (simp add: f)
next
  case (2 s)
  then obtain g where f: "f = Suc g" using encode_nonempty [of "BStr s"] by (cases f) auto
  from 2 show ?case by (simp add: f parseImpl_encode_string del: parseImpl.simps)
next
  case (3 xs)
  then obtain g where f: "f = Suc g" by (cases f) auto
  have "parseList g ((pre @ ''l'') @ encode_list xs @ CHR ''e'' # post) (length (pre @ ''l'')) []
      = Ok (BList ([] @ xs), length (pre @ ''l'') + length (encode_list xs) + 1)"
    using 3(2-4) f by (intro 3(1)) auto
  then show ?case by (simp add: f is_digit_def)
next
  case (4 m)
  then obtain g where f: "f = Suc g" by (cases f) auto
  have "parseDict g ((pre @ ''d'') @ encode_dict m @ CHR ''e'' # post) (length (pre @ ''d'')) []
      = Ok (BDict ([] @ m), length (pre @ ''d'') + length (encode_dict m) + 1)"
    using 4(2-4) f by (intro 4(1)) auto
  then show ?case by (simp add: f is_digit_def)
next
  case 5
  then show ?case by (cases f) auto
next
  case (6 x xs)
  then obtain g where f: "f = Suc g" by (cases f) auto
  obtain c r where c: "encode x = c # r" "c \<noteq> CHR ''e''" by (rule encode_first)
  have "parseImpl g (pre @ encode x @ (encode_list xs @ CHR ''e'' # post)) (length pre)
      = Ok (x, length pre + length (encode x))"
    using 6(3-5) f by (intro 6(1)) auto
  moreover have "parseList g ((pre @ encode x) @ encode_list xs @ CHR ''e'' # post)
      (length (pre @ encode x)) (acc @ [x])
      = Ok (BList ((acc @ [x]) @ xs), length (pre @ encode x) + length (encode_list xs) + 1)"
    using 6(3-5) f encode_nonempty [of x] by (intro 6(2)) auto
  ultimately show ?case using c by (simp add: f)
next
  case 7
  then show ?case by (cases f) auto
next
  case (8 k v m)
  then obtain g where f: "f = Suc g" by (cases f) auto
  then obtain h where g: "g = Suc h" using 8 encode_nonempty [of v] by (cases g) auto
  obtain c r where c: "encode (BStr k) = c # r" "c \<noteq> CHR ''e''" by (rule encode_first)
  have k: "parseImpl g (pre @ encode_string k @ (encode v @ encode_dict m @ CHR ''e'' # post)) (length pre)
      = Ok (BStr k, length pre + length (encode_string k))"
    unfolding g using 8(5) by (intro parseImpl_encode_string) auto
  have v: "parseImpl g ((pre @ encode_string k) @ encode v @ (encode_dict m @ CHR ''e'' # post))
      (length (pre @ encode_string k)) = Ok (v, length (pre @ encode_string k) + length (encode v))"
    using 8(3-6) f by (intro 8(1)) auto
  have ins: "smap_insert k v dacc = dacc @ [(k, v)]"
    using 8(4) by (intro smap_insert_last) (auto simp: sorted_wrt_append)
  have d: "parseDict g ((pre @ encode_string k @ encode v) @ encode_dict m @ CHR ''e'' # post)
      (length (pre @ encode_string k @ encode v)) (dacc @ [(k, v)])
      = Ok (BDict ((dacc @ [(k, v)]) @ m),
            length (pre @ encode_string k @ encode v) + length (encode_dict m) + 1)"
    using 8(3-6) f encode_nonempty [of v] by (intro 8(2)) auto
  show ?case using c k v d ins by (simp add: f add_ac)
qed

lemma parseAt_encode:
  assumes "wf_bval v" "length (pre @ encode v @ post) < 2 ^ 64"
  shows "parseAt (pre @ encode v @ post) (length pre) = Ok (v, length pre + length (encode v))"
  unfolding parseAt_def parse_fuel_def using assms by (intro parse_encode_all(1)) auto

lemma parse_encode:
  "wf_bval v \<Longrightarrow> length (encode v) < 2 ^ 64 \<Longrightarrow> parse (encode v) = Ok v"
  using parseAt_encode [of v "[]" "[]"] by (simp add: parse_def)


section \<open>A length that wraps\<close>

text \<open>
  Here the length moves the position back to itself: \<open>22 + 18446744073709551595 = 2 ^ 64 + 1\<close>.
  No fuel is enough, that is, the loop of the list never ends.
\<close>

definition wrapping_list :: string where
  "wrapping_list = ''l18446744073709551595:''"

lemma wrapping_element:
  "parse_string wrapping_list 1 = Ok (BStr [], 1)"
proof -
  have "dec_nat 18446744073709551595 = ''18446744073709551595''"
    by (simp add: digit_char_def dec_nat.simps char_of_def bit_0)
  moreover have "substr wrapping_list 1 20 = ''18446744073709551595''"
    unfolding wrapping_list_def by code_simp
  ultimately have digits: "substr wrapping_list 1 20 = dec_nat 18446744073709551595" by simp
  have colon: "find_from wrapping_list CHR '':'' 1 = Some 21"
    unfolding wrapping_list_def by code_simp
  have empty: "substr wrapping_list 22 n = []" for n
    by (simp add: wrapping_list_def substr_def)
  show ?thesis
    unfolding parse_string_def colon option.case using empty digits
    by (simp del: One_nat_def) (simp add: Let_def wrapping_list_def del: One_nat_def)
qed

lemma wrapping_list_loop: "parseList f wrapping_list 1 acc = Hang"
proof (induction f arbitrary: acc)
  case (Suc f)
  have "parseImpl f wrapping_list 1 = Hang \<or> parseImpl f wrapping_list 1 = Ok (BStr [], 1)"
    using wrapping_element by (cases f) (auto simp: wrapping_list_def is_digit_def)
  with Suc show ?case by (auto simp: wrapping_list_def)
qed simp

lemma wrapping_list_hangs: "parseImpl f wrapping_list 0 = Hang"
  using wrapping_list_loop [of _ "[]"] by (cases f) (simp_all add: wrapping_list_def is_digit_def)

lemma parse_wrapping_list: "parse wrapping_list = Hang"
  by (simp add: parse_def parseAt_def wrapping_list_hangs)

end
