(* ===== verification/Torrent.thy ===== *)
theory Torrent
  imports Utils Bencode
begin

text \<open>
  Models \<open>src/torrent.cpp\<close> and \<open>include/torrent.h\<close>: the torrent description, its
  validation, loading it from the bytes of a \<open>.torrent\<close> file, the search for the exact bytes
  of the info dictionary, and the peer id. 64-bit signed lengths are \<open>int\<close>; validation is
  what keeps their sum below \<open>2 ^ 63\<close>.
\<close>

section \<open>The torrent description\<close>

record file_entry =
  fe_path :: string
  fe_length :: int

record torrent_info =
  tName :: string
  tComment :: string
  tCreatedBy :: string
  tPieceLength :: int
  tPieces :: string
  tAnnounceList :: "string list"
  tInfoHash :: string
  tPeerId :: string
  tFileName :: string
  tFileLength :: int
  tFiles :: "file_entry list"

definition empty_torrent :: torrent_info where
  "empty_torrent = \<lparr>tName = [], tComment = [], tCreatedBy = [], tPieceLength = 0, tPieces = [],
     tAnnounceList = [], tInfoHash = [], tPeerId = [], tFileName = [], tFileLength = 0, tFiles = []\<rparr>"

definition isMultiFile :: "torrent_info \<Rightarrow> bool" where
  "isMultiFile t = (tFiles t \<noteq> [])"

definition totalLength :: "torrent_info \<Rightarrow> int" where
  "totalLength t = (if isMultiFile t then sum_list (map fe_length (tFiles t)) else tFileLength t)"

definition numPieces :: "torrent_info \<Rightarrow> nat" where
  "numPieces t = length (tPieces t) div 20"

section \<open>Validation\<close>

fun validate_files :: "file_entry list \<Rightarrow> int \<Rightarrow> string + int" where
  "validate_files [] tot = Inr tot"
| "validate_files (e # es) tot =
     (if fe_path e = [] then Inl ''Invalid torrent: empty file path''
      else if fe_length e < 0 then Inl ''Invalid torrent: negative file length''
      else if 2 ^ 63 - 1 - tot < fe_length e then Inl ''Invalid torrent: total length overflow''
      else validate_files es (tot + fe_length e))"

definition expectedPieces :: "int \<Rightarrow> int \<Rightarrow> nat" where
  "expectedPieces tot pieceLength =
     (if tot = 0 then 0 else 1 + (nat tot - 1) div nat pieceLength)"

definition checked_total :: "torrent_info \<Rightarrow> string + int" where
  "checked_total t =
     (if isMultiFile t then validate_files (tFiles t) 0
      else if tFileLength t < 0 then Inl ''Invalid torrent: negative file length''
      else Inr (tFileLength t))"

definition validateTorrentInfo :: "torrent_info \<Rightarrow> string + unit" where
  "validateTorrentInfo t =
     (if tName t = [] then Inl ''Invalid torrent: empty name''
      else if tPieceLength t \<le> 0 then Inl ''Invalid torrent: piece length must be positive''
      else if length (tPieces t) mod 20 \<noteq> 0
        then Inl ''Invalid torrent: pieces length is not a multiple of 20''
      else case checked_total t of
          Inl e \<Rightarrow> Inl e
        | Inr tot \<Rightarrow>
            if numPieces t \<noteq> expectedPieces tot (tPieceLength t)
            then Inl ''Invalid torrent: piece hash count does not match total length''
            else Inr ())"

text \<open>What validation guarantees.\<close>

definition valid_torrent :: "torrent_info \<Rightarrow> bool" where
  "valid_torrent t \<longleftrightarrow>
     tName t \<noteq> [] \<and> 0 < tPieceLength t \<and> 20 dvd length (tPieces t) \<and>
     (\<forall>e \<in> set (tFiles t). fe_path e \<noteq> [] \<and> 0 \<le> fe_length e) \<and>
     0 \<le> totalLength t \<and> (isMultiFile t \<longrightarrow> totalLength t < 2 ^ 63) \<and>
     numPieces t = expectedPieces (totalLength t) (tPieceLength t)"

lemma validate_files_eq:
  "0 \<le> tot \<Longrightarrow> tot < 2 ^ 63 \<Longrightarrow>
   validate_files es tot = Inr n \<longleftrightarrow>
     (\<forall>e \<in> set es. fe_path e \<noteq> [] \<and> 0 \<le> fe_length e) \<and>
     n = tot + sum_list (map fe_length es) \<and> n < 2 ^ 63"
proof (induction es arbitrary: tot)
  case (Cons e es)
  have nn: "\<forall>e \<in> set es. 0 \<le> fe_length e \<Longrightarrow> 0 \<le> sum_list (map fe_length es)"
    by (rule sum_list_nonneg) auto
  show ?case
  proof (cases "fe_path e \<noteq> [] \<and> 0 \<le> fe_length e \<and> fe_length e \<le> 2 ^ 63 - 1 - tot")
    case True
    then show ?thesis using Cons.IH [of "tot + fe_length e"] Cons.prems by auto
  next
    case False
    then show ?thesis using nn by auto
  qed
qed auto

lemma checked_total_eq:
  "checked_total t = Inr n \<longleftrightarrow>
     (\<forall>e \<in> set (tFiles t). fe_path e \<noteq> [] \<and> 0 \<le> fe_length e) \<and> n = totalLength t \<and>
     0 \<le> totalLength t \<and> (isMultiFile t \<longrightarrow> totalLength t < 2 ^ 63)"
proof (cases "tFiles t = []")
  case True
  then show ?thesis by (auto simp: checked_total_def totalLength_def isMultiFile_def)
next
  case False
  have "\<forall>e \<in> set (tFiles t). 0 \<le> fe_length e \<Longrightarrow> 0 \<le> sum_list (map fe_length (tFiles t))"
    by (rule sum_list_nonneg) auto
  with False validate_files_eq [of 0 "tFiles t" n] show ?thesis
    by (simp add: checked_total_def totalLength_def isMultiFile_def) blast
qed

lemma validateTorrentInfo_iff: "validateTorrentInfo t = Inr () \<longleftrightarrow> valid_torrent t"
proof (cases "checked_total t")
  case (Inl e)
  then have "\<not> (\<exists>n. checked_total t = Inr n)" by simp
  then have "\<not> valid_torrent t" by (auto simp: checked_total_eq valid_torrent_def)
  with Inl show ?thesis by (simp add: validateTorrentInfo_def)
next
  case (Inr n)
  with checked_total_eq [of t n] show ?thesis
    by (simp add: validateTorrentInfo_def valid_torrent_def dvd_eq_mod_eq_0)
qed

text \<open>The expected number of pieces covers the total length, and no piece is empty.\<close>

lemma expectedPieces_cover:
  assumes "0 \<le> tot" "0 < pl"
  shows "tot \<le> int (expectedPieces tot pl) * pl"
    and "0 < expectedPieces tot pl \<Longrightarrow> (int (expectedPieces tot pl) - 1) * pl < tot"
proof -
  obtain n p where n: "tot = int n" and p: "pl = int p" "0 < p"
    using assms by (metis nonneg_int_cases pos_int_cases)
  have ep: "expectedPieces tot pl = 1 + m div p" if "n = Suc m" for m
    unfolding expectedPieces_def n p using that by (simp del: of_nat_Suc)
  have "n \<le> expectedPieces tot pl * p"
  proof (cases "n = 0")
    case False
    then obtain m where m: "n = Suc m" by (cases n) auto
    have d: "m div p * p + m mod p = m" by (rule div_mult_mod_eq)
    have "m mod p < p" using p by simp
    with d have "Suc m \<le> p + m div p * p" by linarith
    then show ?thesis by (simp add: ep [OF m] m)
  qed (simp add: expectedPieces_def n)
  then show "tot \<le> int (expectedPieces tot pl) * pl"
    unfolding n p by (simp flip: of_nat_mult)
  assume pos: "0 < expectedPieces tot pl"
  then obtain m where m: "n = Suc m" by (cases n) (auto simp: expectedPieces_def n)
  have "m div p * p < n" unfolding m less_Suc_eq_le by (rule div_times_less_eq_dividend)
  then have "int (m div p) * pl < tot" unfolding n p by (metis of_nat_less_iff of_nat_mult)
  then show "(int (expectedPieces tot pl) - 1) * pl < tot"
    by (simp add: ep [OF m])
qed

section \<open>Peer ids\<close>

text \<open>
  \<open>generatePeerId\<close> turns twelve random bytes into \<open>char\<close>s (signed on the supported
  platforms) and maps each to \<open>'A' + c % 26\<close>, with the truncating remainder of C++.
\<close>

definition peer_id_char :: "nat \<Rightarrow> char" where
  "peer_id_char r = char_of (nat (65 + tmod (to_signed 8 (int r)) 26))"

definition generatePeerId :: "(nat \<Rightarrow> nat) \<Rightarrow> string" where
  "generatePeerId rnd = ''-GT0001-'' @ map (\<lambda>i. peer_id_char (rnd i)) [0..<12]"

lemma tmod_26_bounds: "- 25 \<le> tmod i 26 \<and> tmod i 26 \<le> 25"
proof (cases "0 \<le> i")
  case True
  have "0 \<le> i mod 26" "i mod 26 < 26" by simp_all
  with True show ?thesis by (simp del: pos_mod_sign pos_mod_bound)
next
  case False
  then have "tmod i 26 = - ((- i) mod 26)"
    using minus_mult_div_eq_mod [of "- i" 26] by (simp add: tmod_def tdiv_def)
  moreover have "0 \<le> (- i) mod 26" "(- i) mod 26 < 26" by simp_all
  ultimately show ?thesis by linarith
qed

lemma peer_id_char_range: "40 \<le> code (peer_id_char r) \<and> code (peer_id_char r) \<le> 90"
proof -
  define n where "n = nat (65 + tmod (to_signed 8 (int r)) 26)"
  have n: "40 \<le> n" "n \<le> 90" using tmod_26_bounds [of "to_signed 8 (int r)"] by (auto simp: n_def)
  then have "code (peer_id_char r) = n" by (simp add: peer_id_char_def flip: n_def)
  with n show ?thesis by simp
qed

lemma length_generatePeerId [simp]: "length (generatePeerId rnd) = 20"
  by (simp add: generatePeerId_def)

section \<open>The bytes of the info dictionary\<close>

fun sub_index :: "string \<Rightarrow> string \<Rightarrow> nat option" where
  "sub_index pat [] = (if pat = [] then Some 0 else None)"
| "sub_index pat (x # xs) =
     (if take (length pat) (x # xs) = pat then Some 0 else map_option Suc (sub_index pat xs))"

definition find_sub :: "string \<Rightarrow> string \<Rightarrow> nat \<Rightarrow> nat option" where
  "find_sub s pat pos = map_option (\<lambda>i. pos + i) (sub_index pat (drop pos s))"

definition has_info_keys :: "bval \<Rightarrow> bool" where
  "has_info_keys v =
     (case v of
        BDict d \<Rightarrow> dictGet d ''pieces'' \<noteq> None \<and> dictGet d ''piece length'' \<noteq> None
      | _ \<Rightarrow> False)"

lemma sub_index_SomeD:
  "sub_index pat s = Some i \<Longrightarrow> i \<le> length s \<and> take (length pat) (drop i s) = pat"
  by (induction pat s arbitrary: i rule: sub_index.induct) (auto split: if_splits)

lemma find_sub_SomeD:
  assumes "find_sub s pat pos = Some i"
  shows "pos \<le> i" "take (length pat) (drop i s) = pat" "pat \<noteq> [] \<Longrightarrow> i < length s"
proof -
  from assms obtain j where j: "sub_index pat (drop pos s) = Some j" "i = pos + j"
    by (auto simp: find_sub_def)
  from sub_index_SomeD [OF j(1)] j(2)
  show "pos \<le> i" "take (length pat) (drop i s) = pat" by (auto simp: add.commute)
  then show "pat \<noteq> [] \<Longrightarrow> i < length s" by (cases "i < length s") auto
qed

text \<open>\<open>size_t\<close> subtraction wraps, which matters only when the parser moved backwards.\<close>

definition size_diff :: "nat \<Rightarrow> nat \<Rightarrow> nat" where
  "size_diff a b = (if b \<le> a then a - b else (2 ^ 64 + a - b) mod 2 ^ 64)"

function extract_loop :: "string \<Rightarrow> bval \<Rightarrow> nat \<Rightarrow> (berror, string) outcome" where
  "extract_loop content parsedInfo start =
     (case find_sub content ''4:info'' start of
        None \<Rightarrow> Ok (encode parsedInfo)
      | Some pos \<Rightarrow>
          if pos = 0 \<or> content ! (pos - 1) = CHR ''d'' \<or> content ! (pos - 1) = CHR ''e''
          then (case parseAt content (pos + 6) of
                  Ok (v, endPos) \<Rightarrow>
                    if has_info_keys v then Ok (substr content (pos + 6) (size_diff endPos (pos + 6)))
                    else extract_loop content parsedInfo (pos + 6)
                | Throw _ \<Rightarrow> extract_loop content parsedInfo (pos + 6)
                | Hang \<Rightarrow> Hang)
          else extract_loop content parsedInfo (pos + 6))"
  by pat_completeness auto
termination
proof (relation "measure (\<lambda>(content, _, start). length content - start)", simp)
  have less: "length content - (pos + 6) < length content - start"
    if "find_sub content ''4:info'' start = Some pos" for content start pos
    using find_sub_SomeD(1,3) [OF that] by simp
  fix content start pos and parsedInfo :: bval
  assume "find_sub content ''4:info'' start = Some pos"
  from less [OF this]
  show "((content, parsedInfo, pos + 6), content, parsedInfo, start)
      \<in> measure (\<lambda>(content, _, start). length content - start)"
    "((content, parsedInfo, pos + 6), content, parsedInfo, start)
      \<in> measure (\<lambda>(content, _, start). length content - start)"
    "((content, parsedInfo, pos + 6), content, parsedInfo, start)
      \<in> measure (\<lambda>(content, _, start). length content - start)"
    by simp_all
qed

declare extract_loop.simps [simp del]

definition extractInfoDictBytes :: "string \<Rightarrow> bval \<Rightarrow> (berror, string) outcome" where
  "extractInfoDictBytes content parsedInfo = extract_loop content parsedInfo 0"

lemma extract_first_hit:
  assumes "find_sub content ''4:info'' 0 = Some pos"
    and "pos = 0 \<or> content ! (pos - 1) = CHR ''d'' \<or> content ! (pos - 1) = CHR ''e''"
    and "parseAt content (pos + 6) = Ok (v, endPos)" "has_info_keys v" "pos + 6 \<le> endPos"
  shows "extractInfoDictBytes content parsedInfo
    = Ok (substr content (pos + 6) (endPos - (pos + 6)))"
  unfolding extractInfoDictBytes_def
  by (subst extract_loop.simps) (use assms in \<open>simp add: size_diff_def\<close>)

section \<open>Loading a torrent\<close>

datatype load_error = RuntimeError string | BencodeError berror

text \<open>\<open>announce\<close> first, then every string of every tier of \<open>announce-list\<close>.\<close>

definition tier_trackers :: "bval \<Rightarrow> string list" where
  "tier_trackers tier =
     (case tier of
        BList ts \<Rightarrow> concat (map (\<lambda>t. case t of BStr s \<Rightarrow> [s] | _ \<Rightarrow> []) ts)
      | _ \<Rightarrow> [])"

definition read_announce :: "bdict \<Rightarrow> string list" where
  "read_announce d =
     (case dictGet d ''announce'' of Some (BStr s) \<Rightarrow> [s] | _ \<Rightarrow> []) @
     (case dictGet d ''announce-list'' of
        Some (BList tiers) \<Rightarrow> concat (map tier_trackers tiers) | _ \<Rightarrow> [])"

text \<open>
  The info dictionary is read by the same code in \<open>loadTorrent\<close> and, for metadata from
  peers, in \<open>createTorrentFromMetadata\<close>; only the prefix of the messages differs.
\<close>

fun read_path :: "string \<Rightarrow> bval list \<Rightarrow> nat \<Rightarrow> string \<Rightarrow> string + string" where
  "read_path pfx [] i out = Inr out"
| "read_path pfx (c # cs) i out =
     (case c of
        BStr s \<Rightarrow>
          if s = [] then Inl (pfx @ ''invalid file path component'')
          else read_path pfx cs (i + 1) (out @ (if 0 < i then ''/'' else []) @ s)
      | _ \<Rightarrow> Inl (pfx @ ''invalid file path component''))"

definition read_file_entry :: "string \<Rightarrow> bval \<Rightarrow> string + file_entry" where
  "read_file_entry pfx e =
     (case e of
        BDict d \<Rightarrow>
          (case dictGet d ''length'' of
             Some (BInt n) \<Rightarrow>
               (case dictGet d ''path'' of
                  Some (BList (c # cs)) \<Rightarrow>
                    (case read_path pfx (c # cs) 0 [] of
                       Inl x \<Rightarrow> Inl x
                     | Inr p \<Rightarrow> Inr \<lparr>fe_path = p, fe_length = n\<rparr>)
                | _ \<Rightarrow> Inl (pfx @ ''missing file path''))
           | _ \<Rightarrow> Inl (pfx @ ''missing file length''))
      | _ \<Rightarrow> Inl (pfx @ ''file entry is not a dictionary''))"

fun read_files :: "string \<Rightarrow> bval list \<Rightarrow> file_entry list \<Rightarrow> string + file_entry list" where
  "read_files pfx [] acc = Inr acc"
| "read_files pfx (e # es) acc =
     (case read_file_entry pfx e of Inl x \<Rightarrow> Inl x | Inr f \<Rightarrow> read_files pfx es (acc @ [f]))"

definition read_info_dict :: "string \<Rightarrow> bdict \<Rightarrow> torrent_info \<Rightarrow> string + torrent_info" where
  "read_info_dict pfx d t =
     (case dictGetInt d ''piece length'' of
        None \<Rightarrow> Inl (pfx @ ''missing piece length'')
      | Some pl \<Rightarrow>
     (case dictGetString d ''pieces'' of
        None \<Rightarrow> Inl (pfx @ ''missing pieces'')
      | Some ps \<Rightarrow>
     (case dictGetString d ''name'' of
        None \<Rightarrow> Inl (pfx @ ''missing name'')
      | Some nm \<Rightarrow>
          let t1 = t\<lparr>tPieceLength := pl, tPieces := ps, tName := nm\<rparr> in
          (case dictGet d ''files'' of
             Some (BList fs) \<Rightarrow>
               (if fs = [] then Inl (pfx @ ''empty files list'')
                else case read_files pfx fs [] of
                       Inl x \<Rightarrow> Inl x
                     | Inr es \<Rightarrow> Inr (t1\<lparr>tFiles := es\<rparr>))
           | _ \<Rightarrow>
               (case dictGetInt d ''length'' of
                  None \<Rightarrow> Inl (pfx @ ''missing length'')
                | Some n \<Rightarrow> Inr (t1\<lparr>tFileLength := n, tFileName := nm\<rparr>))))))"

text \<open>
  \<open>loadTorrent\<close>: \<open>content\<close> is what reading the file gave (\<open>None\<close> if it cannot be opened),
  \<open>rnd\<close> the random bytes of the peer id, \<open>SHA1\<close> the hash of the OpenSSL library.
\<close>

definition load_root :: "(bytes \<Rightarrow> bytes) \<Rightarrow> (nat \<Rightarrow> nat) \<Rightarrow> string \<Rightarrow> bval \<Rightarrow>
    (load_error, torrent_info) outcome" where
  "load_root SHA1 rnd content rv =
     (case rv of
        BDict d \<Rightarrow>
          let t0 = empty_torrent\<lparr>tPeerId := generatePeerId rnd, tAnnounceList := read_announce d,
                tComment := (case dictGetString d ''comment'' of Some s \<Rightarrow> s | None \<Rightarrow> []),
                tCreatedBy := (case dictGetString d ''created by'' of Some s \<Rightarrow> s | None \<Rightarrow> [])\<rparr>
          in (case dictGet d ''info'' of
                Some (BDict i) \<Rightarrow>
                  (case read_info_dict ''Invalid torrent file: '' i t0 of
                     Inl e \<Rightarrow> Throw (RuntimeError e)
                   | Inr t \<Rightarrow>
                       (case validateTorrentInfo t of
                          Inl e \<Rightarrow> Throw (RuntimeError e)
                        | Inr _ \<Rightarrow>
                            (case extractInfoDictBytes content (BDict i) of
                               Ok b \<Rightarrow> Ok (t\<lparr>tInfoHash := sha1_str SHA1 (bytes_of_str b)\<rparr>)
                             | Throw e \<Rightarrow> Throw (BencodeError e)
                             | Hang \<Rightarrow> Hang)))
              | _ \<Rightarrow> Throw (RuntimeError ''Invalid torrent file: missing info dictionary''))
      | _ \<Rightarrow> Throw (RuntimeError ''Invalid torrent file: root is not a dictionary''))"

definition loadTorrent :: "(bytes \<Rightarrow> bytes) \<Rightarrow> (nat \<Rightarrow> nat) \<Rightarrow> string \<Rightarrow> string option \<Rightarrow>
    (load_error, torrent_info) outcome" where
  "loadTorrent SHA1 rnd filename file =
     (case file of
        None \<Rightarrow> Throw (RuntimeError (''Cannot open torrent file: '' @ filename))
      | Some content \<Rightarrow>
          (case parse content of
             Ok rv \<Rightarrow> load_root SHA1 rnd content rv
           | Throw e \<Rightarrow> Throw (BencodeError e)
           | Hang \<Rightarrow> Hang))"

lemma valid_torrent_hash [simp]: "valid_torrent (t\<lparr>tInfoHash := h\<rparr>) = valid_torrent t"
  by (simp add: valid_torrent_def totalLength_def isMultiFile_def numPieces_def)

lemma load_root_valid:
  assumes "load_root SHA1 rnd content rv = Ok t"
  shows "valid_torrent t"
proof -
  from assms obtain u b where "validateTorrentInfo u = Inr ()" "t = u\<lparr>tInfoHash := b\<rparr>"
    by (auto simp: load_root_def Let_def split: bval.splits option.splits sum.splits outcome.splits)
  then show ?thesis by (simp add: validateTorrentInfo_iff)
qed

lemma loadTorrent_valid: "loadTorrent SHA1 rnd fn file = Ok t \<Longrightarrow> valid_torrent t"
  by (auto simp: loadTorrent_def split: option.splits outcome.splits intro: load_root_valid)

end
