(* ===== verification/Output_Files.thy ===== *)
theory Output_Files
  imports Torrent Utils Posix_FS
begin

text \<open>
  The output side of \<open>src/downloader.cpp\<close>: opening and resizing the files of a single- or
  multi-file torrent, and reading and writing byte ranges of the torrent that may straddle
  files. The files are shown to refine one flat byte array: a write is a splice into it and
  a read a slice of it. The locale \<open>byte_store\<close> states the laws the downloader relies on.
\<close>

section \<open>Opening\<close>

record output_file =
  out_path :: string
  out_start :: int
  out_length :: int
  out_open :: bool

definition safeResumeTarget :: "fs \<Rightarrow> string \<Rightarrow> int \<Rightarrow> bool" where
  "safeResumeTarget w path expectedSize =
     (case stat w path of
        None \<Rightarrow> True
      | Some (File b) \<Rightarrow> int (length b) \<le> expectedSize
      | Some _ \<Rightarrow> False)"

definition openOutputHandle :: "string \<Rightarrow> bool \<Rightarrow> fs \<Rightarrow> bool \<times> fs" where
  "openOutputHandle path overwrite w =
     (if overwrite then (case fopen w path ModeW of (r, w') \<Rightarrow> (r = Opened, w'))
      else case fopen w path ModeRPlus of
        (Opened, w') \<Rightarrow> (True, w')
      | (OpenFailed, w') \<Rightarrow> (False, w')
      | (NoEntry, w') \<Rightarrow> (case fopen w' path ModeW of (r, w'') \<Rightarrow> (r = Opened, w'')))"

definition resizeFile :: "string \<Rightarrow> int \<Rightarrow> fs \<Rightarrow> bool \<times> fs" where
  "resizeFile path n w = (if n < 0 then (False, w) else ftruncate w path (nat n))"

definition closeOutputFiles :: "output_file list \<Rightarrow> output_file list" where
  "closeOutputFiles ofs = []"

text \<open>The three loops of the multi-file mode.\<close>

fun plan_files :: "string \<Rightarrow> bool \<Rightarrow> file_entry list \<Rightarrow> int \<Rightarrow> output_file list \<Rightarrow> fs \<Rightarrow>
    bool \<times> output_file list \<times> fs" where
  "plan_files savePath overwrite [] runningOffset ofs w = (True, ofs, w)"
| "plan_files savePath overwrite (e # es) runningOffset ofs w =
     (let outputPath = savePath @ ''/'' @ sanitizePath (fe_path e);
          parent = rev (tl (dropWhile (\<lambda>c. c \<noteq> CHR ''/'') (rev outputPath))) in
      case createDirectories parent w of
        (False, w1) \<Rightarrow> (False, ofs, w1)
      | (True, w1) \<Rightarrow>
          if \<not> overwrite \<and> \<not> safeResumeTarget w1 outputPath (fe_length e) then (False, ofs, w1)
          else plan_files savePath overwrite es (runningOffset + fe_length e)
                 (ofs @ [\<lparr>out_path = outputPath, out_start = runningOffset, out_length = fe_length e,
                          out_open = False\<rparr>]) w1)"

fun open_handles :: "bool \<Rightarrow> output_file list \<Rightarrow> fs \<Rightarrow> bool \<times> output_file list \<times> fs" where
  "open_handles overwrite [] w = (True, [], w)"
| "open_handles overwrite (f # ofs) w =
     (case openOutputHandle (out_path f) overwrite w of
        (False, w1) \<Rightarrow> (False, [], w1)
      | (True, w1) \<Rightarrow>
          (case open_handles overwrite ofs w1 of
             (ok, ofs', w2) \<Rightarrow> (ok, f\<lparr>out_open := True\<rparr> # ofs', w2)))"

fun resize_files :: "output_file list \<Rightarrow> fs \<Rightarrow> bool \<times> fs" where
  "resize_files [] w = (True, w)"
| "resize_files (f # ofs) w =
     (case resizeFile (out_path f) (out_length f) w of
        (False, w1) \<Rightarrow> (False, w1)
      | (True, w1) \<Rightarrow> resize_files ofs w1)"

definition openOutputFiles :: "torrent_info \<Rightarrow> string \<Rightarrow> bool \<Rightarrow> fs \<Rightarrow> bool \<times> output_file list \<times> fs" where
  "openOutputFiles t savePath overwrite w =
     (if totalLength t < 0 then (False, [], w)
      else if \<not> isMultiFile t then
        (let path = savePath @ ''/'' @ sanitizeFileName (if tName t = [] then tFileName t else tName t);
             f = \<lparr>out_path = path, out_start = 0, out_length = totalLength t, out_open = True\<rparr> in
         if \<not> overwrite \<and> \<not> safeResumeTarget w path (totalLength t) then (False, [], w)
         else case openOutputHandle path overwrite w of
           (False, w1) \<Rightarrow> (False, [], w1)
         | (True, w1) \<Rightarrow>
             (case resizeFile path (totalLength t) w1 of
                (False, w2) \<Rightarrow> (False, [], w2)
              | (True, w2) \<Rightarrow> (True, [f], w2)))
      else case plan_files savePath overwrite (tFiles t) 0 [] w of
        (False, ofs, w1) \<Rightarrow> (False, ofs, w1)
      | (True, ofs, w1) \<Rightarrow>
          (case open_handles overwrite ofs w1 of
             (False, _, w2) \<Rightarrow> (False, closeOutputFiles ofs, w2)
           | (True, ofs', w2) \<Rightarrow>
               (case resize_files ofs' w2 of
                  (False, w3) \<Rightarrow> (False, closeOutputFiles ofs', w3)
                | (True, w3) \<Rightarrow> (True, ofs', w3))))"

section \<open>Reading and writing ranges\<close>

text \<open>
  The loops of \<open>writePiece\<close> and \<open>readPieceFromDisk\<close> over the files from \<open>fi\<close> on: \<open>d\<close> is what
  is left to write, \<open>n\<close> the number of bytes left to read.
\<close>

function write_range :: "output_file list \<Rightarrow> int \<Rightarrow> bytes \<Rightarrow> fs \<Rightarrow> fs" where
  "write_range [] absOffset d w = w"
| "write_range (f # ofs) absOffset d w =
     (if d = [] then w
      else if out_start f + out_length f \<le> absOffset then write_range ofs absOffset d w
      else if absOffset < out_start f then w
      else let inside = absOffset - out_start f; avail = out_length f - inside in
        if avail \<le> 0 then write_range ofs absOffset d w
        else let chunk = nat (min (int (length d)) avail) in
          (case fwrite_at w (out_path f) (nat inside) (take chunk d) of
             (False, w') \<Rightarrow> w'
           | (True, w') \<Rightarrow> write_range (f # ofs) (absOffset + int chunk) (drop chunk d) w'))"
  by pat_completeness auto
termination
  by (relation "measure (\<lambda>(ofs, _, d, _). length ofs + length d)") (auto simp: min_def)

declare write_range.simps(2) [simp del]

function read_range :: "output_file list \<Rightarrow> int \<Rightarrow> nat \<Rightarrow> fs \<Rightarrow> bytes option" where
  "read_range [] absOffset n w = (if n = 0 then Some [] else None)"
| "read_range (f # ofs) absOffset n w =
     (if n = 0 then Some []
      else if out_start f + out_length f \<le> absOffset then read_range ofs absOffset n w
      else if absOffset < out_start f then None
      else let inside = absOffset - out_start f; avail = out_length f - inside in
        if avail \<le> 0 then read_range ofs absOffset n w
        else let chunk = nat (min (int n) avail) in
          (case fread_at w (out_path f) (nat inside) chunk of
             None \<Rightarrow> None
           | Some b \<Rightarrow> map_option ((@) b) (read_range (f # ofs) (absOffset + int chunk) (n - chunk) w)))"
  by pat_completeness auto
termination
  by (relation "measure (\<lambda>(ofs, _, n, _). length ofs + n)") (auto simp: min_def)

declare read_range.simps(2) [simp del]

section \<open>The flat byte array\<close>

fun layout :: "int \<Rightarrow> output_file list \<Rightarrow> bool" where
  "layout s [] = True"
| "layout s (f # ofs) = (out_start f = s \<and> 0 \<le> out_length f \<and> layout (s + out_length f) ofs)"

abbreviation out_key :: "output_file \<Rightarrow> string list" where
  "out_key f \<equiv> path_key (out_path f)"

definition sized :: "output_file list \<Rightarrow> fs \<Rightarrow> bool" where
  "sized ofs w \<longleftrightarrow> distinct (map out_key ofs) \<and>
     (\<forall>f \<in> set ofs. length (file_bytes w (out_path f)) = nat (out_length f))"

definition flat :: "output_file list \<Rightarrow> fs \<Rightarrow> bytes" where
  "flat ofs w = concat (map (\<lambda>f. file_bytes w (out_path f)) ofs)"

definition store_ok :: "output_file list \<Rightarrow> fs \<Rightarrow> bool" where
  "store_ok ofs w \<longleftrightarrow> layout 0 ofs \<and> sized ofs w"

lemma flat_simps [simp]: "flat [] w = []" "flat (f # ofs) w = file_bytes w (out_path f) @ flat ofs w"
  by (simp_all add: flat_def)

text \<open>
  What a write stores inside a file has the length of the data; it is the data unless the write
  fails, whether that is reported or not.
\<close>

lemma splice_part:
  "pos + length d \<le> length b \<Longrightarrow>
   splice pos (take k d @ take (length d - k) (drop (pos + k) b)) b = splice pos (take k d) b"
proof (cases "k \<le> length d")
  case True
  assume le: "pos + length d \<le> length b"
  have "drop (length d - k) (drop (pos + k) b) = drop (pos + length d) b" using True by (simp add: add.commute)
  then have "drop (pos + k) b = take (length d - k) (drop (pos + k) b) @ drop (pos + length d) b"
    by (metis append_take_drop_id)
  with True le show ?thesis by (simp add: splice_def)
qed simp

lemma fwrite_at_stored:
  assumes "pos + length d \<le> length (file_bytes w p)" "fwrite_at w p pos d = (ok, w')"
  obtains c where "length c = length d" "\<not> faulty w (path_key p) \<Longrightarrow> c = d \<and> ok" "faulty w' = faulty w"
    "\<And>q. file_bytes w' q = (if path_key q = path_key p then splice pos c (file_bytes w p) else file_bytes w q)"
proof -
  let ?b = "file_bytes w p"
  have st: "file_bytes (store_at w p pos x) q =
      (if path_key q = path_key p then splice pos x ?b else file_bytes w q)" if "length x \<le> length d" for x q
    using assms(1) that
    by (cases "x = []") (auto simp: store_at_def file_bytes_set_file splice_Nil file_bytes_def)
  define part where "part k = take k d @ take (length d - k) (drop (pos + k) ?b)" for k
  have part: "length (part k) = length d" "splice pos (part k) ?b = splice pos (take k d) ?b" for k
    using assms(1) splice_part [OF assms(1), of k] by (auto simp: part_def min_def)
  show thesis
  proof (cases "faults w (path_key p) (writes w)")
    case None
    with assms(2) show thesis by (intro that [of d]) (auto simp: fwrite_at_def st intro!: faulty_cong)
  next
    case (Some x)
    then have f: "faulty w (path_key p)" by (rule fault_faulty)
    from Some assms(2) obtain k where "w' = count_write (store_at w p pos (take k d))"
      by (cases x) (auto simp: fwrite_at_def)
    then show thesis using f part by (intro that [of "part k"]) (auto simp: st intro!: faulty_cong)
  qed
qed

lemma write_range_other:
  "k \<notin> out_key ` set ofs \<Longrightarrow> path_key p = k \<Longrightarrow>
   file_bytes (write_range ofs a d w) p = file_bytes w p"
proof (induction ofs a d w rule: write_range.induct)
  case (2 f ofs a d w)
  have fw: "file_bytes w' p = file_bytes w p" if "fwrite_at w (out_path f) n b = (r, w')" for r n b w'
    using that "2.prems"
    by (auto simp: fwrite_at_def store_at_def file_bytes_set_file split: option.splits write_fault.splits if_splits)
  show ?case
    using 2 fw by (subst write_range.simps) (auto simp: Let_def split: prod.splits bool.splits)
qed simp

lemma flat_cong:
  "(\<And>f. f \<in> set ofs \<Longrightarrow> file_bytes w' (out_path f) = file_bytes w (out_path f)) \<Longrightarrow> flat ofs w' = flat ofs w"
  by (simp add: flat_def cong: map_cong)

lemma splice_append_left:
  "pos + length d \<le> length a \<Longrightarrow> splice pos d (a @ b) = splice pos d a @ b"
  by (simp add: splice_def)

lemma splice_append_right:
  "length a \<le> pos \<Longrightarrow> splice pos d (a @ b) = a @ splice (pos - length a) d b"
  by (simp add: splice_def)

lemma splice_twice:
  "pos + length d + length e \<le> length b \<Longrightarrow>
   splice (pos + length d) e (splice pos d b) = splice pos (d @ e) b"
  by (simp add: splice_def add_ac)

lemma splice_self:
  "pos + n \<le> length b \<Longrightarrow> splice pos (take n (drop pos b)) b = b"
  by (simp add: splice_def) (metis add.commute append_take_drop_id drop_drop)

text \<open>One turn of the two loops: the position is past the file, or a chunk lies in it.\<close>

lemma range_past:
  assumes "out_start f + out_length f \<le> a"
  shows "d \<noteq> [] \<Longrightarrow> write_range (f # ofs) a d w = write_range ofs a d w"
    and "n \<noteq> 0 \<Longrightarrow> read_range (f # ofs) a n w = read_range ofs a n w"
  using assms by (simp_all add: write_range.simps(2) read_range.simps(2))

definition chunk_of :: "output_file \<Rightarrow> int \<Rightarrow> nat \<Rightarrow> nat" where
  "chunk_of f a n = nat (min (int n) (out_length f - (a - out_start f)))"

lemma range_inside:
  assumes "out_start f \<le> a" "\<not> out_start f + out_length f \<le> a"
  shows "d \<noteq> [] \<Longrightarrow> write_range (f # ofs) a d w =
      (let k = chunk_of f a (length d) in
       case fwrite_at w (out_path f) (nat (a - out_start f)) (take k d) of
         (False, w') \<Rightarrow> w' | (True, w') \<Rightarrow> write_range (f # ofs) (a + int k) (drop k d) w')"
    and "n \<noteq> 0 \<Longrightarrow> read_range (f # ofs) a n w =
      (let k = chunk_of f a n in
       case fread_at w (out_path f) (nat (a - out_start f)) k of
         None \<Rightarrow> None | Some b \<Rightarrow> map_option ((@) b) (read_range (f # ofs) (a + int k) (n - k) w))"
proof -
  assume "d \<noteq> []"
  with assms show "write_range (f # ofs) a d w =
      (let k = chunk_of f a (length d) in
       case fwrite_at w (out_path f) (nat (a - out_start f)) (take k d) of
         (False, w') \<Rightarrow> w' | (True, w') \<Rightarrow> write_range (f # ofs) (a + int k) (drop k d) w')"
    by (subst write_range.simps) (simp add: Let_def chunk_of_def)
next
  assume "n \<noteq> 0"
  with assms show "read_range (f # ofs) a n w =
      (let k = chunk_of f a n in
       case fread_at w (out_path f) (nat (a - out_start f)) k of
         None \<Rightarrow> None | Some b \<Rightarrow> map_option ((@) b) (read_range (f # ofs) (a + int k) (n - k) w))"
    by (subst read_range.simps) (simp add: Let_def chunk_of_def)
qed

lemma chunk_bounds:
  assumes "out_start f \<le> a" "\<not> out_start f + out_length f \<le> a" "0 < n"
    "length (file_bytes w (out_path f)) = nat (out_length f)"
  shows "0 < chunk_of f a n" "chunk_of f a n \<le> n"
    "nat (a - out_start f) + chunk_of f a n \<le> length (file_bytes w (out_path f))"
    "nat (a + int (chunk_of f a n) - out_start f) = nat (a - out_start f) + chunk_of f a n"
  using assms by (auto simp: chunk_of_def min_def nat_add_distrib)

text \<open>What both proofs use of the first file of a layout.\<close>

lemma first_file:
  assumes "layout s (f # ofs)" "sized (f # ofs) w"
  shows "out_start f = s" "0 \<le> out_length f" "layout (s + out_length f) ofs" "sized ofs w"
    "length (file_bytes w (out_path f)) = nat (out_length f)" "out_key f \<notin> out_key ` set ofs"
    "s + out_length f \<le> a \<Longrightarrow> nat (a - s) = length (file_bytes w (out_path f)) + nat (a - (s + out_length f))"
  using assms by (auto simp: sized_def)

text \<open>Writing one chunk into the first file.\<close>

lemma write_chunk:
  assumes "sized (f # ofs) w" "pos + length d \<le> length (file_bytes w (out_path f))"
    "\<And>q. file_bytes w' q =
       (if path_key q = out_key f then splice pos d (file_bytes w (out_path f)) else file_bytes w q)"
  shows "flat (f # ofs) w' = splice pos d (flat (f # ofs) w)" "sized (f # ofs) w'"
proof -
  have same: "file_bytes w' (out_path g) = file_bytes w (out_path g)" if "g \<in> set ofs" for g
    using assms(1,3) that by (simp add: sized_def) (metis image_eqI)
  show "flat (f # ofs) w' = splice pos d (flat (f # ofs) w)"
    using flat_cong [of ofs w' w] same assms(2) by (simp add: assms(3) splice_append_left)
  show "sized (f # ofs) w'"
    using assms(1,2) same by (simp add: sized_def) (simp add: assms(3))
qed

text \<open>
  A write changes the flat array on its range only, whatever fails on the way; without
  failing files it is the splice.
\<close>

definition written :: "output_file list \<Rightarrow> nat \<Rightarrow> bytes \<Rightarrow> fs \<Rightarrow> fs \<Rightarrow> bool" where
  "written ofs pos d w w' \<longleftrightarrow>
     (\<exists>d'. length d' = length d \<and> ((\<forall>f \<in> set ofs. \<not> faulty w (out_key f)) \<longrightarrow> d' = d) \<and>
        flat ofs w' = splice pos d' (flat ofs w)) \<and> sized ofs w' \<and> faulty w' = faulty w"

lemma written_same:
  assumes "sized ofs w" "pos + length d \<le> length (flat ofs w)" "\<exists>f \<in> set ofs. faulty w (out_key f)"
  shows "written ofs pos d w w"
  using assms splice_self [OF assms(2)]
  by (auto simp: written_def intro!: exI [of _ "take (length d) (drop pos (flat ofs w))"])

lemma written_past:
  assumes "layout s (f # ofs)" "sized (f # ofs) w" "s + out_length f \<le> a" "w' = write_range ofs a d w"
    "written ofs (nat (a - (s + out_length f))) d w w'"
  shows "written (f # ofs) (nat (a - s)) d w w'"
proof -
  let ?F = "file_bytes w (out_path f)"
  note ff = first_file [OF assms(1,2)]
  have F: "file_bytes w' (out_path f) = ?F" using write_range_other [OF ff(6) refl] by (simp add: assms(4))
  obtain d' where d': "length d' = length d" "(\<forall>f \<in> set ofs. \<not> faulty w (out_key f)) \<longrightarrow> d' = d"
    "flat ofs w' = splice (nat (a - (s + out_length f))) d' (flat ofs w)" "sized ofs w'" "faulty w' = faulty w"
    using assms(5) by (auto simp: written_def)
  have "flat (f # ofs) w' = splice (nat (a - s)) d' (flat (f # ofs) w)"
    using d'(3) F ff(7) [OF assms(3)] by (simp add: splice_append_right)
  moreover have "sized (f # ofs) w'" using d'(4) F assms(2) by (auto simp: sized_def)
  ultimately show ?thesis using d' by (auto simp: written_def intro!: exI [of _ d'])
qed

lemma written_chunk:
  assumes "written ofs (pos + k) (drop k d) w1 w'" "flat ofs w1 = splice pos c (flat ofs w)"
    "faulty w1 = faulty w" "k \<le> length d" "pos + length d \<le> length (flat ofs w)"
    "length c = k" "(\<forall>f \<in> set ofs. \<not> faulty w (out_key f)) \<longrightarrow> c = take k d"
  shows "written ofs pos d w w'"
proof -
  obtain e where e: "length e = length (drop k d)" "(\<forall>g \<in> set ofs. \<not> faulty w1 (out_key g)) \<longrightarrow> e = drop k d"
    "flat ofs w' = splice (pos + k) e (flat ofs w1)" "sized ofs w'" "faulty w' = faulty w1"
    using assms(1) by (auto simp: written_def)
  have "flat ofs w' = splice pos (c @ e) (flat ofs w)"
    using splice_twice [of pos c e "flat ofs w"] e(1,3) assms(2,4,5,6) by simp
  moreover have "c @ e = d" if "\<forall>f \<in> set ofs. \<not> faulty w (out_key f)"
    using that e(2) assms(3,7) by simp
  ultimately show ?thesis using e assms(3,4,6) by (auto simp: written_def intro!: exI [of _ "c @ e"])
qed

lemma write_range_written:
  "layout s ofs \<Longrightarrow> sized ofs w \<Longrightarrow> s \<le> a \<Longrightarrow> nat (a - s) + length d \<le> length (flat ofs w) \<Longrightarrow>
   written ofs (nat (a - s)) d w (write_range ofs a d w)"
proof (induction "length ofs + length d" arbitrary: ofs s a d w rule: less_induct)
  case less
  show ?case
  proof (cases "ofs = [] \<or> d = []")
    case True
    with less.prems show ?thesis by (cases ofs) (auto simp: written_def write_range.simps(2))
  next
    case False
    then obtain f fs where ofs: "ofs = f # fs" and d: "d \<noteq> []" by (cases ofs) auto
    note p = less.prems [unfolded ofs]
    note ff = first_file [OF p(1,2)]
    show ?thesis
    proof (cases "out_start f + out_length f \<le> a")
      case True
      then have past: "s + out_length f \<le> a" using ff(1) by simp
      have "written fs (nat (a - (s + out_length f))) d w (write_range fs a d w)"
        using less.hyps [of fs d, OF _ ff(3,4) past] p(4) ff(7) [OF past] by (simp add: ofs)
      then show ?thesis unfolding ofs range_past(1) [OF True d]
        by (rule written_past [OF p(1,2) past refl])
    next
      case inside: False
      have st: "out_start f \<le> a" using p(3) ff(1) by simp
      define k where "k = chunk_of f a (length d)"
      have k: "0 < k" "k \<le> length d" "nat (a - s) + k \<le> length (file_bytes w (out_path f))"
        "nat (a + int k - s) = nat (a - s) + k"
        using chunk_bounds [OF st inside _ ff(5), of "length d"] d ff(1) by (simp_all add: k_def)
      obtain ok w1 where fw: "fwrite_at w (out_path f) (nat (a - s)) (take k d) = (ok, w1)" by fastforce
      have w: "write_range ofs a d w = (if ok then write_range ofs (a + int k) (drop k d) w1 else w1)"
        using range_inside(1) [OF st inside d] fw ff(1) by (simp add: ofs Let_def k_def split: bool.splits)
      have fits: "nat (a - s) + length (take k d) \<le> length (file_bytes w (out_path f))" using k by simp
      obtain c where c: "length c = k" "\<not> faulty w (out_key f) \<Longrightarrow> c = take k d \<and> ok" "faulty w1 = faulty w"
        "\<And>q. file_bytes w1 q = (if path_key q = out_key f then splice (nat (a - s)) c (file_bytes w (out_path f))
           else file_bytes w q)"
        using fwrite_at_stored [OF fits fw] k(2) by (metis length_take min.absorb2)
      have "nat (a - s) + length c \<le> length (file_bytes w (out_path f))" using k(3) c(1) by simp
      note wc = write_chunk [OF p(2) this c(4), folded ofs]
      have "written ofs (nat (a - s) + k) (drop k d) w1 (write_range ofs a d w)"
      proof (cases ok)
        case True
        have "written ofs (nat (a + int k - s)) (drop k d) w1 (write_range ofs (a + int k) (drop k d) w1)"
          using less.hyps [of ofs "drop k d", OF _ less.prems(1) wc(2), of "a + int k"] less.prems(3,4) k c(1)
          by (simp add: wc(1))
        then show ?thesis using True by (simp add: w k(4))
      next
        case False
        then have "\<exists>f \<in> set ofs. faulty w1 (out_key f)" using c(2,3) by (auto simp: ofs)
        with wc(2) show ?thesis
          using False less.prems(4) k(2) c(1) by (simp add: w) (intro written_same, simp_all add: wc(1))
      qed
      then show ?thesis
        by (rule written_chunk [OF _ wc(1) c(3) k(2) less.prems(4) c(1)]) (use c(2) in \<open>auto simp: ofs\<close>)
    qed
  qed
qed

text \<open>
  A write changes the flat array on its range only, whatever fails on the way; without
  failing files it is the splice.
\<close>

lemma write_range_flat:
  assumes "layout s ofs" "sized ofs w" "s \<le> a" "nat (a - s) + length d \<le> length (flat ofs w)"
  shows "\<exists>d'. length d' = length d \<and> ((\<forall>f \<in> set ofs. \<not> faulty w (out_key f)) \<longrightarrow> d' = d) \<and>
    flat ofs (write_range ofs a d w) = splice (nat (a - s)) d' (flat ofs w) \<and>
    sized ofs (write_range ofs a d w) \<and> faulty (write_range ofs a d w) = faulty w"
  using write_range_written [OF assms] by (auto simp: written_def)

lemma read_range_flat:
  assumes "layout s ofs" "sized ofs w" "s \<le> a" "nat (a - s) + n \<le> length (flat ofs w)"
  shows "read_range ofs a n w = Some (take n (drop (nat (a - s)) (flat ofs w)))"
  using assms
proof (induction "length ofs + n" arbitrary: ofs s a n rule: less_induct)
  case less
  show ?case
  proof (cases "ofs = [] \<or> n = 0")
    case True
    with less.prems show ?thesis by (cases ofs) (auto simp: read_range.simps(2))
  next
    case False
    then obtain f fs where ofs: "ofs = f # fs" and n: "n \<noteq> 0" by (cases ofs) auto
    note p = less.prems [unfolded ofs]
    note ff = first_file [OF p(1,2)]
    show ?thesis
    proof (cases "out_start f + out_length f \<le> a")
      case True
      then have past: "s + out_length f \<le> a" using ff(1) by simp
      show ?thesis
        using less.hyps [of fs n, OF _ ff(3,4) past] p(4) ff(7) [OF past] range_past(2) [OF True n] by (simp add: ofs)
    next
      case inside: False
      have st: "out_start f \<le> a" using p(3) ff(1) by simp
      define k where "k = chunk_of f a n"
      have k: "0 < k" "k \<le> n" "nat (a - s) + k \<le> length (file_bytes w (out_path f))"
        "nat (a + int k - s) = nat (a - s) + k"
        using chunk_bounds [OF st inside _ ff(5), of n] n ff(1) by (simp_all add: k_def)
      have "fread_at w (out_path f) (nat (a - s)) k = Some (take k (drop (nat (a - s)) (flat ofs w)))"
        using k by (simp add: fread_at_def Let_def ofs)
      moreover have "read_range ofs (a + int k) (n - k) w
          = Some (take (n - k) (drop (nat (a - s) + k) (flat ofs w)))"
        using less.hyps [of ofs "n - k", OF _ less.prems(1,2), of "a + int k"] less.prems(3,4) k by simp
      moreover have "take k x @ take (n - k) (drop k x) = take n x" for x :: bytes
        using k(2) by (metis le_add_diff_inverse take_add)
      ultimately show ?thesis
        using range_inside(2) [OF st inside n] ff(1)
        by (simp add: ofs Let_def k_def [symmetric] add.commute del: flat_simps flip: drop_drop)
    qed
  qed
qed

lemma layout_nonneg: "layout s ofs \<Longrightarrow> f \<in> set ofs \<Longrightarrow> 0 \<le> out_length f"
  by (induction ofs arbitrary: s) auto

lemma length_flat:
  "layout s ofs \<Longrightarrow> sized ofs w \<Longrightarrow> int (length (flat ofs w)) = sum_list (map out_length ofs)"
proof (induction ofs arbitrary: s)
  case (Cons f ofs)
  then have "sized ofs w" "int (length (file_bytes w (out_path f))) = out_length f"
    by (auto simp: sized_def)
  with Cons.IH [of "s + out_length f"] Cons.prems show ?case by simp
qed simp

section \<open>The interface of the downloader to its files\<close>

text \<open>
  A store of bytes with ranged reads and writes. \<open>vol s\<close> says how many bytes it holds;
  a write within it touches its range only (and all of it, when nothing fails), and a read
  returns what is there.
\<close>

locale byte_store =
  fixes ok :: "'s \<Rightarrow> bool" and healthy :: "'s \<Rightarrow> bool" and vol :: "'s \<Rightarrow> nat"
    and wr :: "nat \<Rightarrow> bytes \<Rightarrow> 's \<Rightarrow> 's" and rd :: "nat \<Rightarrow> nat \<Rightarrow> 's \<Rightarrow> bytes option"
  assumes ok_write: "ok s \<Longrightarrow> a + length d \<le> vol s \<Longrightarrow> ok (wr a d s)"
    and vol_write: "ok s \<Longrightarrow> a + length d \<le> vol s \<Longrightarrow> vol (wr a d s) = vol s"
    and healthy_write: "ok s \<Longrightarrow> a + length d \<le> vol s \<Longrightarrow> healthy (wr a d s) = healthy s"
    and read_some: "ok s \<Longrightarrow> a + n \<le> vol s \<Longrightarrow> \<exists>b. rd a n s = Some b \<and> length b = n"
    and read_other: "ok s \<Longrightarrow> a + length d \<le> vol s \<Longrightarrow> b + n \<le> vol s \<Longrightarrow>
      b + n \<le> a \<or> a + length d \<le> b \<Longrightarrow> rd b n (wr a d s) = rd b n s"
    and read_same: "ok s \<Longrightarrow> healthy s \<Longrightarrow> a + length d \<le> vol s \<Longrightarrow>
      rd a (length d) (wr a d s) = Some d"
    and read_split: "ok s \<Longrightarrow> a + (m + n) \<le> vol s \<Longrightarrow> rd a m s = Some x \<Longrightarrow>
      rd (a + m) n s = Some y \<Longrightarrow> rd a (m + n) s = Some (x @ y)"
begin

text \<open>Writing a list of consecutive blocks: afterwards the whole range reads back.\<close>

fun write_blocks :: "nat \<Rightarrow> bytes list \<Rightarrow> 's \<Rightarrow> 's" where
  "write_blocks a [] s = s"
| "write_blocks a (d # ds) s = write_blocks (a + length d) ds (wr a d s)"

lemma write_blocks_frame:
  "ok s \<Longrightarrow> a + length (concat ds) \<le> vol s \<Longrightarrow>
   ok (write_blocks a ds s) \<and> vol (write_blocks a ds s) = vol s \<and>
   healthy (write_blocks a ds s) = healthy s \<and>
   (\<forall>b n. b + n \<le> vol s \<longrightarrow> b + n \<le> a \<or> a + length (concat ds) \<le> b \<longrightarrow>
      rd b n (write_blocks a ds s) = rd b n s)"
proof (induction a ds s rule: write_blocks.induct)
  case (2 a d ds s)
  have l: "a + length d \<le> vol s" using "2.prems"(2) by simp
  let ?s = "wr a d s"
  have s: "ok ?s" "vol ?s = vol s" "healthy ?s = healthy s"
    using ok_write vol_write healthy_write "2.prems"(1) l by auto
  have "a + length d + length (concat ds) \<le> vol ?s" using "2.prems"(2) s(2) by simp
  note ih = "2.IH" [OF s(1) this]
  have "rd b n (write_blocks a (d # ds) s) = rd b n s"
    if "b + n \<le> vol s" "b + n \<le> a \<or> a + length (concat (d # ds)) \<le> b" for b n
  proof -
    have "rd b n (write_blocks a (d # ds) s) = rd b n ?s"
      using ih that s(2) by auto
    also have "\<dots> = rd b n s"
      using that "2.prems"(1) l by (intro read_other) auto
    finally show ?thesis .
  qed
  with ih s show ?case by auto
qed auto

lemma write_blocks_read:
  "ok s \<Longrightarrow> healthy s \<Longrightarrow> a + length (concat ds) \<le> vol s \<Longrightarrow>
   rd a (length (concat ds)) (write_blocks a ds s) = Some (concat ds)"
proof (induction a ds s rule: write_blocks.induct)
  case (1 a s)
  then show ?case using read_some [of s a 0] by auto
next
  case (2 a d ds s)
  have l: "a + length d \<le> vol s" using "2.prems"(3) by simp
  let ?s = "wr a d s" and ?r = "write_blocks a (d # ds) s"
  have s: "ok ?s" "vol ?s = vol s" "healthy ?s"
    using ok_write vol_write healthy_write "2.prems"(1,2) l by auto
  have l2: "a + length d + length (concat ds) \<le> vol ?s" using "2.prems"(3) s(2) by simp
  note fr = write_blocks_frame [OF s(1) l2]
  have "rd (a + length d) (length (concat ds)) ?r = Some (concat ds)"
    using "2.IH" [OF s(1,3) l2] by simp
  moreover have "rd a (length d) ?r = Some d"
    using fr read_same [OF "2.prems"(1,2) l] l s(2) by simp
  ultimately show ?case
    using read_split [of ?r a "length d" "length (concat ds)"] fr s(2) "2.prems"(3) by (simp add: add.assoc)
qed

end

text \<open>The model's files as such a store.\<close>

definition disk_write :: "nat \<Rightarrow> bytes \<Rightarrow> output_file list \<times> fs \<Rightarrow> output_file list \<times> fs" where
  "disk_write a d s = (fst s, write_range (fst s) (int a) d (snd s))"

definition disk_read :: "nat \<Rightarrow> nat \<Rightarrow> output_file list \<times> fs \<Rightarrow> bytes option" where
  "disk_read a n s = read_range (fst s) (int a) n (snd s)"

definition disk_healthy :: "output_file list \<times> fs \<Rightarrow> bool" where
  "disk_healthy s \<longleftrightarrow> (\<forall>f \<in> set (fst s). \<not> faulty (snd s) (out_key f))"

definition disk_ok :: "output_file list \<times> fs \<Rightarrow> bool" where
  "disk_ok s \<longleftrightarrow> store_ok (fst s) (snd s)"

definition disk_size :: "output_file list \<times> fs \<Rightarrow> nat" where
  "disk_size s = length (flat (fst s) (snd s))"

lemma disk_write_flat:
  assumes "disk_ok s" "a + length d \<le> disk_size s"
  obtains d' where "length d' = length d" "disk_healthy s \<Longrightarrow> d' = d"
    "flat (fst s) (snd (disk_write a d s)) = splice a d' (flat (fst s) (snd s))"
    "disk_ok (disk_write a d s)" "disk_healthy (disk_write a d s) = disk_healthy s"
proof -
  obtain d' where "length d' = length d" "(\<forall>f \<in> set (fst s). \<not> faulty (snd s) (out_key f)) \<longrightarrow> d' = d"
    "flat (fst s) (write_range (fst s) (int a) d (snd s)) = splice a d' (flat (fst s) (snd s))"
    "sized (fst s) (write_range (fst s) (int a) d (snd s))"
    "faulty (write_range (fst s) (int a) d (snd s)) = faulty (snd s)"
    using write_range_flat [of 0 "fst s" "snd s" "int a" d] assms
    by (auto simp: disk_ok_def store_ok_def disk_size_def)
  with assms(1) that [of d'] show thesis
    by (simp add: disk_ok_def store_ok_def disk_write_def disk_healthy_def)
qed

lemma disk_read_flat:
  "disk_ok s \<Longrightarrow> a + n \<le> disk_size s \<Longrightarrow> disk_read a n s = Some (take n (drop a (flat (fst s) (snd s))))"
  using read_range_flat [of 0 "fst s" "snd s" "int a" n]
  by (simp add: disk_ok_def store_ok_def disk_size_def disk_read_def)

lemma fst_disk_write [simp]: "fst (disk_write a d s) = fst s"
  by (simp add: disk_write_def)

interpretation disk: byte_store disk_ok disk_healthy disk_size disk_write disk_read
proof
  fix s :: "output_file list \<times> fs" and a b n :: nat and d :: bytes
  assume ok: "disk_ok s"
  show "\<exists>b. disk_read a n s = Some b \<and> length b = n" if "a + n \<le> disk_size s"
    using disk_read_flat [OF ok that] that by (simp add: disk_size_def)
  fix m :: nat and x y :: bytes
  show "disk_read a (m + n) s = Some (x @ y)"
    if "a + (m + n) \<le> disk_size s" "disk_read a m s = Some x" "disk_read (a + m) n s = Some y"
    using that disk_read_flat [OF ok, of a m] disk_read_flat [OF ok, of "a + m" n] disk_read_flat [OF ok that(1)]
    by (simp add: take_add add.commute)
  assume l: "a + length d \<le> disk_size s"
  obtain d' where d': "length d' = length d" "disk_healthy s \<Longrightarrow> d' = d"
    "flat (fst s) (snd (disk_write a d s)) = splice a d' (flat (fst s) (snd s))"
    "disk_ok (disk_write a d s)" "disk_healthy (disk_write a d s) = disk_healthy s"
    using disk_write_flat [OF ok l] by blast
  have sz: "disk_size (disk_write a d s) = disk_size s"
    using d'(1,3) l by (simp add: disk_size_def)
  show "disk_ok (disk_write a d s)" "disk_size (disk_write a d s) = disk_size s"
    "disk_healthy (disk_write a d s) = disk_healthy s" using d' sz by auto
  show "disk_read b n (disk_write a d s) = disk_read b n s"
    if "b + n \<le> disk_size s" "b + n \<le> a \<or> a + length d \<le> b"
    using that l d'(1,3) disk_read_flat [OF ok, of b n] disk_read_flat [OF d'(4), of b n] sz
      take_drop_splice_disjoint [of a d' "flat (fst s) (snd s)" b n]
    by (simp add: disk_size_def)
  show "disk_read a (length d) (disk_write a d s) = Some d" if "disk_healthy s"
    using that l d' disk_read_flat [OF d'(4), of a "length d"] sz
      take_drop_splice_same [of a d "flat (fst s) (snd s)"]
    by (simp add: disk_size_def)
qed


section \<open>What opening establishes\<close>

lemma layout_append: "layout s (a @ b) \<longleftrightarrow> layout s a \<and> layout (s + sum_list (map out_length a)) b"
  by (induction a arbitrary: s) (auto simp: add.assoc)

lemma plan_files_ok:
  "plan_files sp ow es off ofs w = (True, ofs', w') \<Longrightarrow>
   \<exists>new. ofs' = ofs @ new \<and> map out_length new = map fe_length es \<and>
     map out_path new = map (\<lambda>e. sp @ ''/'' @ sanitizePath (fe_path e)) es \<and>
     ((\<forall>e \<in> set es. 0 \<le> fe_length e) \<longrightarrow> layout off new)"
proof (induction es arbitrary: off ofs w)
  case (Cons e es)
  let ?f = "\<lparr>out_path = sp @ ''/'' @ sanitizePath (fe_path e), out_start = off,
    out_length = fe_length e, out_open = False\<rparr>"
  from Cons.prems obtain w1 where
    "plan_files sp ow es (off + fe_length e) (ofs @ [?f]) w1 = (True, ofs', w')"
    by (auto simp: Let_def split: prod.splits bool.splits if_splits)
  from Cons.IH [OF this] obtain new where "ofs' = ofs @ ?f # new" "map out_length new = map fe_length es"
    "map out_path new = map (\<lambda>e. sp @ ''/'' @ sanitizePath (fe_path e)) es"
    "(\<forall>e \<in> set es. 0 \<le> fe_length e) \<longrightarrow> layout (off + fe_length e) new" by auto
  then show ?case by (intro exI [of _ "?f # new"]) simp
qed simp

lemma open_handles_ok:
  "open_handles ow ofs w = (True, ofs', w') \<Longrightarrow> ofs' = map (\<lambda>f. f\<lparr>out_open := True\<rparr>) ofs"
  by (induction ofs arbitrary: w ofs') (auto split: prod.splits bool.splits)

lemma layout_open [simp]: "layout s (map (\<lambda>f. f\<lparr>out_open := True\<rparr>) ofs) = layout s ofs"
  by (induction ofs arbitrary: s) auto

lemma resizeFile_bytes:
  "resizeFile p n w = (True, w') \<Longrightarrow>
   0 \<le> n \<and> file_bytes w' q = (if path_key q = path_key p then resize_bytes (nat n) (file_bytes w p) else file_bytes w q)"
  by (auto simp: resizeFile_def ftruncate_def file_bytes_set_file split: if_splits option.splits)

lemma resize_files_ok:
  "resize_files ofs w = (True, w') \<Longrightarrow> distinct (map out_key ofs) \<Longrightarrow>
   (\<forall>f \<in> set ofs. file_bytes w' (out_path f) = resize_bytes (nat (out_length f)) (file_bytes w (out_path f))) \<and>
   (\<forall>p. path_key p \<notin> out_key ` set ofs \<longrightarrow> file_bytes w' p = file_bytes w p)"
proof (induction ofs arbitrary: w)
  case (Cons f ofs)
  from Cons.prems(1) obtain w1 where w1: "resizeFile (out_path f) (out_length f) w = (True, w1)"
    "resize_files ofs w1 = (True, w')" by (auto split: prod.splits bool.splits)
  have ih: "\<forall>g \<in> set ofs. file_bytes w' (out_path g) = resize_bytes (nat (out_length g)) (file_bytes w1 (out_path g))"
    "\<And>p. path_key p \<notin> out_key ` set ofs \<Longrightarrow> file_bytes w' p = file_bytes w1 p"
    using Cons.IH [OF w1(2)] Cons.prems(2) by simp_all
  have one: "file_bytes w1 q = (if path_key q = out_key f then resize_bytes (nat (out_length f)) (file_bytes w (out_path f)) else file_bytes w q)" for q
    using resizeFile_bytes [OF w1(1)] by blast
  have nf: "out_key f \<notin> out_key ` set ofs" using Cons.prems(2) by simp
  have "file_bytes w1 (out_path g) = file_bytes w (out_path g)" if "g \<in> set ofs" for g
    using one nf that by (metis image_eqI)
  with ih one nf show ?case by simp
qed simp

lemma openOutputFiles_ok:
  assumes "openOutputFiles t sp ow w = (True, ofs, w')" "valid_torrent t" "distinct (map out_key ofs)"
  shows "store_ok ofs w' \<and> sum_list (map out_length ofs) = totalLength t"
proof (cases "isMultiFile t")
  case False
  have tot: "0 \<le> totalLength t" using assms(2) by (simp add: valid_torrent_def)
  with assms(1) False obtain p w1 where
    "ofs = [\<lparr>out_path = p, out_start = 0, out_length = totalLength t, out_open = True\<rparr>]"
    "resizeFile p (totalLength t) w1 = (True, w')"
    by (auto simp: openOutputFiles_def Let_def split: if_splits prod.splits bool.splits)
  with resizeFile_bytes [of p "totalLength t" w1 w' p] tot show ?thesis
    by (simp add: store_ok_def sized_def)
next
  case True
  from assms(1) True obtain pl w1 w2 where pl: "plan_files sp ow (tFiles t) 0 [] w = (True, pl, w1)"
    "open_handles ow pl w1 = (True, ofs, w2)" "resize_files ofs w2 = (True, w')"
    by (auto simp: openOutputFiles_def split: if_splits prod.splits bool.splits)
  have ofs: "ofs = map (\<lambda>f. f\<lparr>out_open := True\<rparr>) pl" using open_handles_ok pl(2) by blast
  have nn: "\<forall>e \<in> set (tFiles t). 0 \<le> fe_length e" using assms(2) by (auto simp: valid_torrent_def)
  from plan_files_ok [OF pl(1)] nn have lay: "layout 0 pl" "map out_length pl = map fe_length (tFiles t)" by auto
  have "sum_list (map out_length ofs) = totalLength t"
    using lay(2) True by (simp add: ofs totalLength_def comp_def)
  moreover have "sized ofs w'"
    using resize_files_ok [OF pl(3) assms(3)] assms(3) by (simp add: sized_def)
  ultimately show ?thesis using lay(1) by (simp add: store_ok_def ofs)
qed

text \<open>Every path opened for a multi-file torrent stays below the save path.\<close>

lemma openOutputFiles_paths:
  assumes "openOutputFiles t sp ow w = (True, ofs, w')" "isMultiFile t" "f \<in> set ofs"
  shows "\<exists>rel. out_path f = sp @ ''/'' @ rel \<and> (\<forall>c \<in> set (split_on (CHR ''/'') rel). safe_component c)"
proof -
  from assms(1,2) obtain pl w1 w2 where pl: "plan_files sp ow (tFiles t) 0 [] w = (True, pl, w1)"
    "open_handles ow pl w1 = (True, ofs, w2)"
    by (auto simp: openOutputFiles_def split: if_splits prod.splits bool.splits)
  have "map out_path ofs = map (\<lambda>e. sp @ ''/'' @ sanitizePath (fe_path e)) (tFiles t)"
    using plan_files_ok [OF pl(1)] open_handles_ok [OF pl(2)] by (auto simp: comp_def)
  then have "out_path f \<in> (\<lambda>e. sp @ ''/'' @ sanitizePath (fe_path e)) ` set (tFiles t)"
    using assms(3) by (metis image_eqI list.set_map)
  then obtain e :: file_entry where "out_path f = sp @ ''/'' @ sanitizePath (fe_path e)" by (rule imageE)
  then show ?thesis using sanitizePath_safe by blast
qed

text \<open>Resuming keeps what a smaller file holds and fills it up with zeros.\<close>

lemma openOutputFiles_resumes:
  assumes "openOutputFiles t sp False w = (True, [f], w')" "\<not> isMultiFile t" "stat w (out_path f) = Some (File b)"
    "out_path f \<noteq> []" "path_key (out_path f) \<notin> {[], [''/'']}"
  shows "int (length b) \<le> totalLength t \<and>
    file_bytes w' (out_path f) = b @ replicate (nat (totalLength t) - length b) 0"
proof -
  have fb: "file_bytes w (out_path f) = b"
    using assms(3,5) by (simp add: stat_def file_bytes_def)
  have op: "openOutputHandle (out_path f) False w = (ok, w1) \<Longrightarrow> ok \<Longrightarrow> w1 = w" for ok w1
    using assms(3) by (auto simp: openOutputHandle_def fopen_def Let_def split: if_splits)
  from assms(1,2) obtain w1 where "safeResumeTarget w (out_path f) (totalLength t)"
    "openOutputHandle (out_path f) False w = (True, w1)" "resizeFile (out_path f) (totalLength t) w1 = (True, w')"
    by (auto simp: openOutputFiles_def Let_def split: if_splits prod.splits bool.splits)
  with op resizeFile_bytes [of "out_path f" "totalLength t" w1 w' "out_path f"] fb assms(3)
  show ?thesis by (auto simp: safeResumeTarget_def resize_bytes_def)
qed

end
