(* ===== verification/Udp_Packets.thy ===== *)
theory Udp_Packets
  imports Utils
begin

unbundle bit_operations_syntax

text \<open>
  The packed structures of \<open>namespace udp_tracker\<close> in \<open>src/tracker.cpp\<close> (BEP 15): each is a
  record with the fields of the C++ structure, in the order and width of its memory, a function that
  lays its fields out in network byte order, and one that reads them. Reading what was laid out gives
  the record back.
\<close>

section \<open>Fields in network byte order\<close>

definition be32 :: "32 word \<Rightarrow> bytes" where
  "be32 w = bytes_of_str (intToBytes w)"

definition be64 :: "64 word \<Rightarrow> bytes" where
  "be64 w = be32 (ucast (drop_bit 32 w)) @ be32 (ucast w)"

definition be16 :: "16 word \<Rightarrow> bytes" where
  "be16 w = [ucast (drop_bit 8 w), ucast w]"

definition get32 :: "bytes \<Rightarrow> nat \<Rightarrow> 32 word" where
  "get32 d i = bytesToInt_raw (take 4 (drop i d))"

definition get64 :: "bytes \<Rightarrow> nat \<Rightarrow> 64 word" where
  "get64 d i = push_bit 32 (ucast (get32 d i)) OR ucast (get32 d (i + 4))"

definition get16 :: "bytes \<Rightarrow> nat \<Rightarrow> 16 word" where
  "get16 d i = push_bit 8 (ucast (d ! i)) OR ucast (d ! (i + 1))"

section \<open>The structures\<close>

record connect_req =
  cq_connection_id :: "64 word"
  cq_action :: "32 word"
  cq_transaction_id :: "32 word"

record connect_resp =
  cr_action :: "32 word"
  cr_transaction_id :: "32 word"
  cr_connection_id :: "64 word"

record announce_req =
  aq_connection_id :: "64 word"
  aq_action :: "32 word"
  aq_transaction_id :: "32 word"
  aq_info_hash :: bytes
  aq_peer_id :: bytes
  aq_downloaded :: "64 word"
  aq_left :: "64 word"
  aq_uploaded :: "64 word"
  aq_event :: "32 word"
  aq_ip :: "32 word"
  aq_key :: "32 word"
  aq_num_want :: "32 word"
  aq_port :: "16 word"

record announce_resp =
  ar_action :: "32 word"
  ar_transaction_id :: "32 word"
  ar_interval :: "32 word"
  ar_leechers :: "32 word"
  ar_seeders :: "32 word"

definition CONNECTION_ID :: "64 word" where
  "CONNECTION_ID = 0x41727101980"

definition connect_req_bytes :: "connect_req \<Rightarrow> bytes" where
  "connect_req_bytes r = be64 (cq_connection_id r) @ be32 (cq_action r) @ be32 (cq_transaction_id r)"

definition announce_req_bytes :: "announce_req \<Rightarrow> bytes" where
  "announce_req_bytes r =
     be64 (aq_connection_id r) @ be32 (aq_action r) @ be32 (aq_transaction_id r) @
     aq_info_hash r @ aq_peer_id r @ be64 (aq_downloaded r) @ be64 (aq_left r) @ be64 (aq_uploaded r) @
     be32 (aq_event r) @ be32 (aq_ip r) @ be32 (aq_key r) @ be32 (aq_num_want r) @ be16 (aq_port r)"

definition read_connect_resp :: "bytes \<Rightarrow> connect_resp" where
  "read_connect_resp d =
     \<lparr>cr_action = get32 d 0, cr_transaction_id = get32 d 4, cr_connection_id = get64 d 8\<rparr>"

definition read_announce_resp :: "bytes \<Rightarrow> announce_resp" where
  "read_announce_resp d =
     \<lparr>ar_action = get32 d 0, ar_transaction_id = get32 d 4, ar_interval = get32 d 8,
      ar_leechers = get32 d 12, ar_seeders = get32 d 16\<rparr>"

text \<open>The tracker's side: it reads the requests and lays out the responses.\<close>

definition read_connect_req :: "bytes \<Rightarrow> connect_req" where
  "read_connect_req d =
     \<lparr>cq_connection_id = get64 d 0, cq_action = get32 d 8, cq_transaction_id = get32 d 12\<rparr>"

definition read_announce_req :: "bytes \<Rightarrow> announce_req" where
  "read_announce_req d =
     \<lparr>aq_connection_id = get64 d 0, aq_action = get32 d 8, aq_transaction_id = get32 d 12,
      aq_info_hash = take 20 (drop 16 d), aq_peer_id = take 20 (drop 36 d),
      aq_downloaded = get64 d 56, aq_left = get64 d 64, aq_uploaded = get64 d 72,
      aq_event = get32 d 80, aq_ip = get32 d 84, aq_key = get32 d 88, aq_num_want = get32 d 92,
      aq_port = get16 d 96\<rparr>"

definition connect_resp_bytes :: "connect_resp \<Rightarrow> bytes" where
  "connect_resp_bytes r = be32 (cr_action r) @ be32 (cr_transaction_id r) @ be64 (cr_connection_id r)"

definition announce_resp_bytes :: "announce_resp \<Rightarrow> bytes" where
  "announce_resp_bytes r = be32 (ar_action r) @ be32 (ar_transaction_id r) @ be32 (ar_interval r) @
     be32 (ar_leechers r) @ be32 (ar_seeders r)"

section \<open>Reading what was laid out\<close>

lemma length_be [simp]: "length (be32 w) = 4" "length (be64 v) = 8" "length (be16 u) = 2"
  by (simp_all add: be32_def be64_def be16_def)

lemma get32_be32 [simp]: "get32 (be32 w @ r) 0 = w"
  by (simp add: get32_def be32_def)

lemma get32_skip [simp]: "length p \<le> i \<Longrightarrow> get32 (p @ r) i = get32 r (i - length p)"
  by (simp add: get32_def)

lemma get64_skip [simp]: "length p \<le> i \<Longrightarrow> get64 (p @ r) i = get64 r (i - length p)"
  by (simp add: get64_def add.commute)

lemma get16_skip [simp]: "length p \<le> i \<Longrightarrow> get16 (p @ r) i = get16 r (i - length p)"
  by (simp add: get16_def nth_append Suc_diff_le)

lemma get64_be64 [simp]: "get64 (be64 w @ r) 0 = w"
proof (rule bit_word_eqI)
  fix n :: nat assume "n < LENGTH(64)"
  then show "bit (get64 (be64 w @ r) 0) n = bit w n"
    by (cases "n < 32") (auto simp: get64_def be64_def bit_simps)
qed

lemma get16_be16 [simp]: "get16 (be16 w @ r) 0 = w"
proof (rule bit_word_eqI)
  fix n :: nat assume "n < LENGTH(16)"
  then show "bit (get16 (be16 w @ r) 0) n = bit w n"
    by (cases "n < 8") (auto simp: get16_def be16_def bit_simps)
qed

lemmas be_last [simp] = get32_be32 [where r = "[]", simplified] get64_be64 [where r = "[]", simplified]
  get16_be16 [where r = "[]", simplified]

lemma length_packets:
  "length (connect_req_bytes cq) = 16" "length (connect_resp_bytes cr) = 16"
  "length (aq_info_hash aq) = 20 \<Longrightarrow> length (aq_peer_id aq) = 20 \<Longrightarrow> length (announce_req_bytes aq) = 98"
  "length (announce_resp_bytes ar) = 20"
  by (simp_all add: connect_req_bytes_def connect_resp_bytes_def announce_req_bytes_def announce_resp_bytes_def)

lemma read_connect_req_bytes: "read_connect_req (connect_req_bytes r) = r"
  by (simp add: read_connect_req_def connect_req_bytes_def)

lemma read_connect_resp_bytes: "read_connect_resp (connect_resp_bytes r @ rest) = r"
  by (simp add: read_connect_resp_def connect_resp_bytes_def)

lemma read_announce_resp_bytes: "read_announce_resp (announce_resp_bytes r @ rest) = r"
  by (simp add: read_announce_resp_def announce_resp_bytes_def)

lemma read_announce_req_bytes:
  "length (aq_info_hash r) = 20 \<Longrightarrow> length (aq_peer_id r) = 20 \<Longrightarrow>
   read_announce_req (announce_req_bytes r) = r"
  by (simp add: read_announce_req_def announce_req_bytes_def)

end
