(* ===== verification/Tracker.thy ===== *)
theory Tracker
  imports Torrent Udp_Packets
begin

unbundle bit_operations_syntax

text \<open>
  Models \<open>src/tracker.cpp\<close> and \<open>include/tracker.h\<close>: peers and their two list formats, the
  tracker response, the HTTP announce (the URL built and the response parsed) and the UDP
  announce of BEP 15 with its datagrams. libcurl, the name service and the network are
  parameters: what a transfer returns, and which datagrams arrive.
\<close>

section \<open>Peers\<close>

record peer =
  pr_ip :: string
  pr_port :: "16 word"
  pr_id :: string

text \<open>\<open>Peer::operator==\<close> compares address and port only.\<close>

definition same_peer :: "peer \<Rightarrow> peer \<Rightarrow> bool" where
  "same_peer p q = (pr_ip p = pr_ip q \<and> pr_port p = pr_port q)"

definition dotted_quad :: "byte \<Rightarrow> byte \<Rightarrow> byte \<Rightarrow> byte \<Rightarrow> string" where
  "dotted_quad a b c d =
     dec_nat (unat a) @ ''.'' @ dec_nat (unat b) @ ''.'' @ dec_nat (unat c) @ ''.'' @ dec_nat (unat d)"

definition be_port :: "byte \<Rightarrow> byte \<Rightarrow> 16 word" where
  "be_port hi lo = push_bit 8 (ucast hi) OR ucast lo"

fun compact_peers :: "bytes \<Rightarrow> peer list" where
  "compact_peers (a # b # c # d # e # f # r) =
     \<lparr>pr_ip = dotted_quad a b c d, pr_port = be_port e f, pr_id = []\<rparr> # compact_peers r"
| "compact_peers _ = []"

definition parseCompactPeers :: "string \<Rightarrow> peer list" where
  "parseCompactPeers data = compact_peers (bytes_of_str data)"

lemma length_compact_peers: "length (compact_peers d) = length d div 6"
  by (induction d rule: compact_peers.induct) auto

lemma unat_be_port: "unat (be_port hi lo) = 256 * unat hi + unat lo"
proof -
  have l: "unat lo < 256" "unat hi < 256" using unsigned_less [of lo] unsigned_less [of hi] by auto
  have "be_port hi lo = push_bit 8 (ucast hi) + ucast lo"
    unfolding be_port_def
    by (rule disjunctive_add [symmetric]) (auto simp: bit_simps dest: bit_imp_le_length)
  also have "unat \<dots> = 256 * unat hi + unat lo"
    using l by (simp add: unat_word_ariths push_bit_eq_mult unsigned_ucast_eq take_bit_eq_mod
        unat_mult_lem unat_add_lem)
  finally show ?thesis .
qed

text \<open>
  The dictionary format. \<open>Peer peer;\<close> leaves \<open>port\<close> uninitialised when the entry has no
  integer \<open>port\<close>; \<open>junk\<close> is the value found there.
\<close>

definition peer_of_dict :: "16 word \<Rightarrow> bdict \<Rightarrow> peer" where
  "peer_of_dict junk d =
     \<lparr>pr_ip = (case dictGetString d ''ip'' of Some s \<Rightarrow> s | None \<Rightarrow> []),
      pr_port = (case dictGetInt d ''port'' of Some n \<Rightarrow> word_of_int n | None \<Rightarrow> junk),
      pr_id = (case dictGetString d ''peer id'' of Some s \<Rightarrow> s | None \<Rightarrow> [])\<rparr>"

definition parsePeers :: "16 word \<Rightarrow> bval \<Rightarrow> peer list" where
  "parsePeers junk peers =
     (case peers of
        BList vs \<Rightarrow>
          concat (map (\<lambda>v. case v of
             BDict d \<Rightarrow>
               (let p = peer_of_dict junk d in
                if pr_ip p \<noteq> [] \<and> pr_port p \<noteq> 0 then [p] else [])
           | _ \<Rightarrow> []) vs)
      | _ \<Rightarrow> [])"

text \<open>The reference encoding of the compact format.\<close>

definition compact_entry :: "byte \<times> byte \<times> byte \<times> byte \<times> 16 word \<Rightarrow> bytes" where
  "compact_entry = (\<lambda>(a, b, c, d, p). [a, b, c, d] @ be16 p)"

definition entry_peer :: "byte \<times> byte \<times> byte \<times> byte \<times> 16 word \<Rightarrow> peer" where
  "entry_peer = (\<lambda>(a, b, c, d, p). \<lparr>pr_ip = dotted_quad a b c d, pr_port = p, pr_id = []\<rparr>)"

lemma be_port_be16: "be_port (ucast (drop_bit 8 p)) (ucast p) = p"
proof (rule bit_word_eqI)
  fix n :: nat assume "n < LENGTH(16)"
  then show "bit (be_port (ucast (drop_bit 8 p)) (ucast p)) n = bit p n"
    by (cases "n < 8") (auto simp: be_port_def bit_simps)
qed

lemma length_compact_entries: "length (concat (map compact_entry es)) = 6 * length es"
  by (induction es) (auto simp: compact_entry_def)

lemma compact_peers_entries:
  "compact_peers (concat (map compact_entry es)) = map entry_peer es"
  by (induction es) (auto simp: compact_entry_def entry_peer_def be16_def be_port_be16)

section \<open>Responses\<close>

record tracker_response =
  trInterval :: int
  trMinInterval :: int
  trComplete :: int
  trIncomplete :: int
  trWarning :: string
  trFailure :: string
  trPeers :: "peer list"

definition response_ok :: "tracker_response \<Rightarrow> bool" where
  "response_ok r = (trFailure r = [])"

definition default_response :: tracker_response where
  "default_response = \<lparr>trInterval = 0, trMinInterval = 0, trComplete = 0, trIncomplete = 0,
     trWarning = [], trFailure = [], trPeers = []\<rparr>"

text \<open>The info hash as 20 raw bytes, also when it is stored as 40 hexadecimal digits.\<close>

definition rawInfoHash :: "torrent_info \<Rightarrow> string" where
  "rawInfoHash t =
     (let h = tInfoHash t in
      if length h = 40 \<and> length (fromHex h) = 20 then fromHex h
      else if length h = 20 then h
      else fromHex h)"

section \<open>UDP trackers\<close>

definition parseUdpUrl :: "string \<Rightarrow> (string \<times> 16 word) option" where
  "parseUdpUrl url =
     (if take 6 url \<noteq> ''udp://'' then None
      else case find_from url CHR '':'' 6 of
        None \<Rightarrow> None
      | Some portStart \<Rightarrow>
          (let host = substr url 6 (portStart - 6);
               portStr = (case find_from url CHR ''/'' (portStart + 1) of
                  None \<Rightarrow> drop (portStart + 1) url
                | Some pathStart \<Rightarrow> substr url (portStart + 1) (pathStart - portStart - 1))
           in case stoi portStr of
                Inl _ \<Rightarrow> None
              | Inr n \<Rightarrow> Some (host, word_of_int n)))"

text \<open>The two requests; the size of the array members is checked before they are copied.\<close>

definition connect_request :: "32 word \<Rightarrow> connect_req" where
  "connect_request tid = \<lparr>cq_connection_id = CONNECTION_ID, cq_action = 0, cq_transaction_id = tid\<rparr>"

definition announce_request ::
    "64 word \<Rightarrow> 32 word \<Rightarrow> string \<Rightarrow> string \<Rightarrow> int \<Rightarrow> int \<Rightarrow> int \<Rightarrow> 32 word \<Rightarrow> announce_req" where
  "announce_request connectionId tid infoHash peerId downloaded remaining uploaded key =
     \<lparr>aq_connection_id = connectionId, aq_action = 1, aq_transaction_id = tid,
      aq_info_hash = bytes_of_str infoHash, aq_peer_id = bytes_of_str peerId,
      aq_downloaded = word_of_int downloaded, aq_left = word_of_int remaining,
      aq_uploaded = word_of_int uploaded, aq_event = 0, aq_ip = 0, aq_key = key,
      aq_num_want = 200, aq_port = 6881\<rparr>"

text \<open>
  What the network does during one announce: whether the name resolves and the socket can
  be made, the random transaction id and key, whether the two sends succeed, and the
  datagrams that arrive, in order. \<open>recv\<close> on a datagram socket returns the next datagram cut
  to the size of the buffer; the rest of that datagram is lost.
\<close>

record udp_net =
  un_resolves :: bool
  un_socket :: bool
  un_tid :: "32 word"
  un_key :: "32 word"
  un_sends :: "bool \<times> bool"
  un_datagrams :: "bytes list"

definition recv_datagram :: "nat \<Rightarrow> bytes list \<Rightarrow> bytes option \<times> bytes list" where
  "recv_datagram n ds = (case ds of [] \<Rightarrow> (None, []) | d # r \<Rightarrow> (Some (take n d), r))"

definition udp_peers :: "bytes \<Rightarrow> peer list" where
  "udp_peers d = filter (\<lambda>p. pr_port p \<noteq> 0) (compact_peers d)"

definition udp_failure :: "string \<Rightarrow> tracker_response" where
  "udp_failure msg = default_response\<lparr>trInterval := 1800, trFailure := msg\<rparr>"

text \<open>Receiving the answer to the announce, and the peers after it.\<close>

definition udp_announce_answer :: "32 word \<Rightarrow> bytes list \<Rightarrow> tracker_response" where
  "udp_announce_answer tid ds =
     (case recv_datagram 20 ds of (a, ds') \<Rightarrow>
        if map_option length a \<noteq> Some 20 then udp_failure ''Failed to receive announce response''
        else let announceResp = read_announce_resp (the a) in
          if ar_action announceResp \<noteq> 1 \<or> ar_transaction_id announceResp \<noteq> tid
            then udp_failure ''Invalid announce response''
          else default_response\<lparr>
            trInterval := sint (ar_interval announceResp),
            trIncomplete := uint (ar_leechers announceResp),
            trComplete := uint (ar_seeders announceResp),
            trPeers := (case recv_datagram 1200 ds' of
                          (Some d, _) \<Rightarrow> udp_peers d | (None, _) \<Rightarrow> [])\<rparr>)"

text \<open>The response and the datagrams that were sent.\<close>

definition contactUdpTracker :: "udp_net \<Rightarrow> string \<Rightarrow> torrent_info \<Rightarrow> string \<Rightarrow> int \<Rightarrow> int \<Rightarrow> int \<Rightarrow>
    tracker_response \<times> bytes list" where
  "contactUdpTracker net url t peerId downloaded uploaded remaining =
     (case parseUdpUrl url of
        None \<Rightarrow> (udp_failure ''Invalid UDP tracker URL'', [])
      | Some (host, port) \<Rightarrow>
          if \<not> un_resolves net then (udp_failure ''Failed to resolve tracker hostname'', [])
          else if \<not> un_socket net then (udp_failure ''Failed to create socket'', [])
          else if \<not> fst (un_sends net) then (udp_failure ''Failed to send connect request'', [])
          else let creq = connect_req_bytes (connect_request (un_tid net)) in
            (case recv_datagram 16 (un_datagrams net) of (c, ds) \<Rightarrow>
               if map_option length c \<noteq> Some 16
                 then (udp_failure ''Failed to receive connect response'', [creq])
               else let connectResp = read_connect_resp (the c) in
               if cr_action connectResp \<noteq> 0 \<or> cr_transaction_id connectResp \<noteq> un_tid net
                 then (udp_failure ''Invalid connect response'', [creq])
               else if length (rawInfoHash t) \<noteq> 20 \<or> length peerId \<noteq> 20
                 then (udp_failure ''Invalid info hash or peer ID'', [creq])
               else if \<not> snd (un_sends net) then (udp_failure ''Failed to send announce'', [creq])
               else let areq = announce_req_bytes (announce_request (cr_connection_id connectResp) (un_tid net)
                                 (rawInfoHash t) peerId downloaded remaining uploaded (un_key net))
                 in (udp_announce_answer (un_tid net) ds, [creq, areq])))"

text \<open>
  The peers of the answer come from the datagram after the announce response only: the
  bytes after the first 20 of the response itself are lost.
\<close>

lemma udp_answer_one_datagram:
  "trPeers (udp_announce_answer tid [d]) = []"
  by (simp add: udp_announce_answer_def recv_datagram_def udp_failure_def default_response_def Let_def)

text \<open>
  The exchange with a tracker that answers: what it is sent, read back, is the connect request and the
  announce with the connection id it gave out, and the response takes its numbers from the
  structure and its peers from the third datagram.
\<close>

definition next_peers :: "bytes list \<Rightarrow> peer list" where
  "next_peers ds = (case ds of [] \<Rightarrow> [] | d # _ \<Rightarrow> udp_peers (take 1200 d))"

lemma udp_answer_accepted:
  assumes "ar_action ar = 1" "ar_transaction_id ar = tid"
  shows "udp_announce_answer tid ((announce_resp_bytes ar @ extra) # ds) =
     default_response\<lparr>trInterval := sint (ar_interval ar), trIncomplete := uint (ar_leechers ar),
       trComplete := uint (ar_seeders ar), trPeers := next_peers ds\<rparr>"
  using assms read_announce_resp_bytes [of ar "[]"]
  by (simp add: udp_announce_answer_def recv_datagram_def length_packets next_peers_def split: list.split)

lemma udp_exchange_accepted:
  assumes "parseUdpUrl url = Some hp" "un_resolves net" "un_socket net" "un_sends net = (True, True)"
    "un_datagrams net = (connect_resp_bytes cr @ junk) # (announce_resp_bytes ar @ extra) # ds"
    "cr_action cr = 0" "cr_transaction_id cr = un_tid net" "ar_action ar = 1" "ar_transaction_id ar = un_tid net"
    "length (rawInfoHash t) = 20" "length peerId = 20"
  shows "contactUdpTracker net url t peerId downloaded uploaded remaining =
    (default_response\<lparr>trInterval := sint (ar_interval ar), trIncomplete := uint (ar_leechers ar),
       trComplete := uint (ar_seeders ar), trPeers := next_peers ds\<rparr>,
     [connect_req_bytes (connect_request (un_tid net)),
      announce_req_bytes (announce_request (cr_connection_id cr) (un_tid net) (rawInfoHash t) peerId
        downloaded remaining uploaded (un_key net))])"
  using assms read_connect_resp_bytes [of cr "[]"]
  by (cases hp) (simp add: contactUdpTracker_def recv_datagram_def length_packets Let_def udp_answer_accepted)

lemma next_peers_entries:
  assumes "length es \<le> 200"
  shows "next_peers (concat (map compact_entry es) # ds) = filter (\<lambda>p. pr_port p \<noteq> 0) (map entry_peer es)"
  using assms by (simp add: next_peers_def udp_peers_def compact_peers_entries length_compact_entries)

lemma next_peers_batches:
  assumes "\<forall>es \<in> set batches. length es \<le> 200"
  shows "next_peers (map (\<lambda>es. concat (map compact_entry es)) batches) =
    (case batches of [] \<Rightarrow> [] | es # _ \<Rightarrow> filter (\<lambda>p. pr_port p \<noteq> 0) (map entry_peer es))"
proof (cases batches)
  case (Cons es r)
  with assms show ?thesis by (simp add: next_peers_entries)
qed (simp add: next_peers_def)

section \<open>HTTP trackers\<close>

text \<open>
  The announce URL; the parameters are appended after \<open>?\<close>, or after \<open>&\<close> if the tracker's
  URL has a query already.
\<close>

definition announce_url :: "string \<Rightarrow> string \<Rightarrow> string \<Rightarrow> int \<Rightarrow> int \<Rightarrow> int \<Rightarrow> string \<Rightarrow> string" where
  "announce_url trackerUrl infoHash peerId downloaded uploaded remaining event =
     trackerUrl @ (if CHR ''?'' \<in> set trackerUrl then ''&'' else ''?'') @
     ''info_hash='' @ urlEncode infoHash @ ''&peer_id='' @ urlEncode peerId @ ''&port=6881'' @
     ''&uploaded='' @ dec_int uploaded @ ''&downloaded='' @ dec_int downloaded @
     ''&left='' @ dec_int remaining @ ''&compact=1'' @ ''&numwant=500'' @
     (if event \<noteq> [] then ''&event='' @ urlEncode event else [])"

text \<open>What libcurl gives: no handle, an error text, or the status code and the body.\<close>

datatype curl_result = NoCurl | CurlError string | CurlBody int string

definition int_field :: "bdict \<Rightarrow> string \<Rightarrow> int \<Rightarrow> int" where
  "int_field d k dflt = (case dictGetInt d k of Some n \<Rightarrow> n | None \<Rightarrow> dflt)"

definition int32_field :: "bdict \<Rightarrow> string \<Rightarrow> int \<Rightarrow> int" where
  "int32_field d k dflt = (case dictGetInt d k of Some n \<Rightarrow> to_signed 32 n | None \<Rightarrow> dflt)"

definition read_tracker_dict :: "16 word \<Rightarrow> bdict \<Rightarrow> tracker_response \<Rightarrow> tracker_response" where
  "read_tracker_dict junk d r =
     (case dictGetString d ''failure reason'' of
        Some f \<Rightarrow> r\<lparr>trFailure := f\<rparr>
      | None \<Rightarrow>
          r\<lparr>trWarning := (case dictGetString d ''warning message'' of Some w \<Rightarrow> w | None \<Rightarrow> trWarning r),
            trInterval := int32_field d ''interval'' (trInterval r),
            trMinInterval := int32_field d ''min interval'' (trMinInterval r),
            trComplete := int_field d ''complete'' (trComplete r),
            trIncomplete := int_field d ''incomplete'' (trIncomplete r),
            trPeers := (case dictGet d ''peers'' of
                Some (BStr s) \<Rightarrow> parseCompactPeers s
              | Some (BList vs) \<Rightarrow> parsePeers junk (BList vs)
              | _ \<Rightarrow> trPeers r)\<rparr>)"

definition parse_tracker_body :: "16 word \<Rightarrow> string \<Rightarrow> tracker_response \<Rightarrow>
    (berror, tracker_response) outcome" where
  "parse_tracker_body junk body r =
     (case parse body of
        Ok (BDict d) \<Rightarrow> Ok (read_tracker_dict junk d r)
      | Ok _ \<Rightarrow> Ok (r\<lparr>trFailure := ''Invalid tracker response: not a dictionary''\<rparr>)
      | Throw e \<Rightarrow> Ok (r\<lparr>trFailure := ''Failed to parse tracker response: '' @ what e\<rparr>)
      | Hang \<Rightarrow> Hang)"

definition contactHttpTracker :: "(string \<Rightarrow> curl_result) \<Rightarrow> 16 word \<Rightarrow> string \<Rightarrow> torrent_info \<Rightarrow>
    string \<Rightarrow> int \<Rightarrow> int \<Rightarrow> int \<Rightarrow> string \<Rightarrow> (berror, tracker_response) outcome" where
  "contactHttpTracker curl junk url t peerId downloaded uploaded remaining event =
     (let r = default_response\<lparr>trInterval := 1800, trMinInterval := 900\<rparr>; h = rawInfoHash t in
      if length h \<noteq> 20 \<or> length peerId \<noteq> 20
      then Ok (r\<lparr>trFailure := ''Invalid info hash or peer ID''\<rparr>)
      else case curl (announce_url url h peerId downloaded uploaded remaining event) of
        NoCurl \<Rightarrow> Ok (r\<lparr>trFailure := ''Failed to initialize CURL''\<rparr>)
      | CurlError e \<Rightarrow> Ok (r\<lparr>trFailure := ''Tracker request failed: '' @ e\<rparr>)
      | CurlBody status body \<Rightarrow>
          if status \<noteq> 200 then Ok (r\<lparr>trFailure := ''HTTP error: '' @ dec_int status\<rparr>)
          else parse_tracker_body junk body r)"

text \<open>\<open>contactTracker\<close>: the scheme decides. The event is not passed to UDP trackers.\<close>

record tracker_env =
  te_udp :: udp_net
  te_curl :: "string \<Rightarrow> curl_result"
  te_junk :: "16 word"

definition contactTracker :: "tracker_env \<Rightarrow> string \<Rightarrow> torrent_info \<Rightarrow> string \<Rightarrow> int \<Rightarrow> int \<Rightarrow> int \<Rightarrow>
    string \<Rightarrow> (berror, tracker_response) outcome" where
  "contactTracker env url t peerId downloaded uploaded remaining event =
     (if take 6 url = ''udp://''
      then Ok (fst (contactUdpTracker (te_udp env) url t peerId downloaded uploaded remaining))
      else contactHttpTracker (te_curl env) (te_junk env) url t peerId downloaded uploaded remaining event)"

lemma parsePeers_ports: "p \<in> set (parsePeers junk v) \<Longrightarrow> pr_port p \<noteq> 0 \<and> pr_ip p \<noteq> []"
  by (auto simp: parsePeers_def Let_def split: bval.splits if_splits)

end
