(* ===== verification/Socket.thy ===== *)
theory Socket
  imports Prelude
begin

text \<open>
  A connected stream socket as the callers of \<open>send\<close> and \<open>recv\<close> see it. What the kernel will
  answer is a script: \<open>Chunk\<close> holds the bytes one segment brings, \<open>RxIntr\<close> an \<open>EINTR\<close>,
  \<open>RxFail\<close> an error, a timeout or the end of the stream; an exhausted script is a closed
  connection. The send side says how many bytes each call accepts. The loops \<open>sendAll\<close> and
  \<open>recvAll\<close> of \<open>src/peer.cpp\<close> (copied as \<open>sendFull\<close> and \<open>recvFull\<close> in
  \<open>src/metadata.cpp\<close>) are shown to hide the fragmentation.
\<close>

datatype rx_event = Chunk bytes | RxIntr | RxFail

datatype tx_event = Accept nat | TxIntr | TxFail

record sock =
  sk_rx :: "rx_event list"
  sk_tx :: "tx_event list"
  sk_sent :: bytes

section \<open>Receiving\<close>

datatype recv_result = Received bytes | Interrupted | RecvFailed

fun recv1 :: "nat \<Rightarrow> rx_event list \<Rightarrow> recv_result \<times> rx_event list" where
  "recv1 n [] = (RecvFailed, [])"
| "recv1 n (RxIntr # r) = (Interrupted, r)"
| "recv1 n (RxFail # r) = (RecvFailed, r)"
| "recv1 n (Chunk b # r) =
     (if b = [] then (RecvFailed, r)
      else if length b \<le> n then (Received b, r)
      else (Received (take n b), Chunk (drop n b) # r))"

text \<open>The bytes that arrive before the next failure.\<close>

fun rx_stream :: "rx_event list \<Rightarrow> bytes" where
  "rx_stream [] = []"
| "rx_stream (RxIntr # r) = rx_stream r"
| "rx_stream (RxFail # r) = []"
| "rx_stream (Chunk b # r) = (if b = [] then [] else b @ rx_stream r)"

fun rx_weight :: "rx_event list \<Rightarrow> nat" where
  "rx_weight [] = 0"
| "rx_weight (Chunk b # r) = 1 + length b + rx_weight r"
| "rx_weight (_ # r) = 1 + rx_weight r"

lemma recv1_weight:
  "0 < n \<Longrightarrow> recv1 n s = (Received b, s') \<Longrightarrow> rx_weight s' < rx_weight s \<and> b \<noteq> [] \<and> length b \<le> n"
  "recv1 n s = (Interrupted, s') \<Longrightarrow> rx_weight s' < rx_weight s"
  by (induction n s rule: recv1.induct) (auto split: if_splits)

text \<open>
  \<open>recvAll\<close> returns whether the buffer was filled, the bytes written into it from the start,
  and the rest of the script.
\<close>

function recv_all :: "nat \<Rightarrow> rx_event list \<Rightarrow> (bool \<times> bytes) \<times> rx_event list" where
  "recv_all n s =
     (if n = 0 then ((True, []), s)
      else case recv1 n s of
        (Interrupted, s') \<Rightarrow> recv_all n s'
      | (RecvFailed, s') \<Rightarrow> ((False, []), s')
      | (Received b, s') \<Rightarrow>
          (case recv_all (n - length b) s' of ((ok, b'), s'') \<Rightarrow> ((ok, b @ b'), s'')))"
  by pat_completeness auto
termination
  by (relation "measure (\<lambda>(n, s). rx_weight s)") (auto dest: recv1_weight(2) [OF sym] recv1_weight(1) [OF _ sym])

declare recv_all.simps [simp del]

lemma recv_all_0 [simp]: "recv_all 0 s = ((True, []), s)"
  by (simp add: recv_all.simps)

lemma recv_all_spec:
  "case recv_all n s of ((ok, b), s') \<Rightarrow>
     ok = (n \<le> length (rx_stream s)) \<and> (ok \<longrightarrow> rx_stream s' = drop n (rx_stream s)) \<and>
     b = take n (rx_stream s) \<and> rx_weight s' + length b \<le> rx_weight s"
proof (induction n s rule: recv_all.induct)
  case (1 n s)
  show ?case
  proof (cases "n = 0")
    case True
    then show ?thesis by simp
  next
    case False
    obtain x s' where r: "recv1 n s = (x, s')" by fastforce
    note IH = "1.IH" [OF False r [symmetric]]
    show ?thesis
    proof (cases x)
      case (Received b)
      obtain ok b' s'' where q: "recv_all (n - length b) s' = ((ok, b'), s'')" by (metis surj_pair)
      have st: "recv_all n s = ((ok, b @ b'), s'')"
        using False r q Received by (simp add: recv_all.simps [of n s])
      have "rx_stream s = b @ rx_stream s' \<and> length b \<le> n \<and> rx_weight s' + length b \<le> rx_weight s"
        using r Received False by (cases "(n, s)" rule: recv1.cases) (auto split: if_splits)
      moreover have "ok = (n - length b \<le> length (rx_stream s'))"
        "ok \<longrightarrow> rx_stream s'' = drop (n - length b) (rx_stream s')"
        "b' = take (n - length b) (rx_stream s')" "rx_weight s'' + length b' \<le> rx_weight s'"
        using IH(1) [OF Received] q by auto
      ultimately show ?thesis using st by (simp add: le_diff_conv) linarith
    next
      case Interrupted
      have "rx_stream s' = rx_stream s \<and> rx_weight s' \<le> rx_weight s"
        using r Interrupted by (cases "(n, s)" rule: recv1.cases) (auto split: if_splits)
      moreover have "recv_all n s = recv_all n s'"
        using False r Interrupted by (simp add: recv_all.simps [of n s])
      ultimately show ?thesis using IH(2) [OF Interrupted] by (simp split: prod.splits)
    next
      case RecvFailed
      have "rx_stream s = [] \<and> rx_weight s' \<le> rx_weight s"
        using r RecvFailed by (cases "(n, s)" rule: recv1.cases) (auto split: if_splits)
      with False r RecvFailed show ?thesis by (simp add: recv_all.simps [of n s])
    qed
  qed
qed

definition recvAll :: "nat \<Rightarrow> sock \<Rightarrow> (bool \<times> bytes) \<times> sock" where
  "recvAll n s = (case recv_all n (sk_rx s) of (r, rx) \<Rightarrow> (r, s\<lparr>sk_rx := rx\<rparr>))"

abbreviation sk_stream :: "sock \<Rightarrow> bytes" where
  "sk_stream s \<equiv> rx_stream (sk_rx s)"

lemma recvAll_ok:
  assumes "recvAll n s = ((True, b), s')"
  shows "n \<le> length (sk_stream s)" "b = take n (sk_stream s)" "sk_stream s' = drop n (sk_stream s)"
    "rx_weight (sk_rx s') + n \<le> rx_weight (sk_rx s)" "sk_sent s' = sk_sent s" "sk_tx s' = sk_tx s"
    "length b = n"
  using assms recv_all_spec [of n "sk_rx s"] by (auto simp: recvAll_def split: prod.splits)

lemma recvAll_fail:
  assumes "recvAll n s = ((False, b), s')"
  shows "length (sk_stream s) < n" "b = sk_stream s" "sk_sent s' = sk_sent s" "sk_tx s' = sk_tx s"
  using assms recv_all_spec [of n "sk_rx s"] by (auto simp: recvAll_def split: prod.splits)

lemma recvAll_cases:
  obtains s' where "n \<le> length (sk_stream s)" "recvAll n s = ((True, take n (sk_stream s)), s')"
      "sk_stream s' = drop n (sk_stream s)" "sk_sent s' = sk_sent s" "sk_tx s' = sk_tx s"
  | s' where "length (sk_stream s) < n" "recvAll n s = ((False, sk_stream s), s')"
      "sk_sent s' = sk_sent s" "sk_tx s' = sk_tx s"
proof -
  obtain ok b s' where r: "recvAll n s = ((ok, b), s')" by (metis surj_pair)
  show thesis
  proof (cases ok)
    case True
    with r recvAll_ok [of n s b s'] that(1) show thesis by auto
  next
    case False
    with r recvAll_fail [of n s b s'] that(2) show thesis by auto
  qed
qed

text \<open>A buffer of a given size into which \<open>got\<close> was received.\<close>

definition fill :: "bytes \<Rightarrow> bytes \<Rightarrow> bytes" where
  "fill got buf = got @ drop (length got) buf"

section \<open>Sending\<close>

fun send_all :: "bytes \<Rightarrow> tx_event list \<Rightarrow> bool \<times> bytes \<times> tx_event list" where
  "send_all d [] = (True, d, [])"
| "send_all d (e # r) =
     (if d = [] then (True, [], e # r)
      else case e of
        TxIntr \<Rightarrow> send_all d r
      | TxFail \<Rightarrow> (False, [], r)
      | Accept n \<Rightarrow>
          if n = 0 then (False, [], r)
          else (case send_all (drop n d) r of (ok, b, r') \<Rightarrow> (ok, take n d @ b, r')))"

definition sendAll :: "bytes \<Rightarrow> sock \<Rightarrow> bool \<times> sock" where
  "sendAll d s = (case send_all d (sk_tx s) of
     (ok, b, tx) \<Rightarrow> (ok, s\<lparr>sk_tx := tx, sk_sent := sk_sent s @ b\<rparr>))"

lemma send_all_spec:
  "case send_all d tx of (ok, b, tx') \<Rightarrow>
     (\<exists>m. b = take m d) \<and> (ok \<longrightarrow> b = d) \<and> (\<not> ok \<longrightarrow> length b < length d)"
proof (induction d tx rule: send_all.induct)
  case (2 d e r)
  show ?case
  proof (cases "d = []")
    case False
    show ?thesis
    proof (cases e)
      case (Accept n)
      show ?thesis
      proof (cases "n = 0")
        case True
        with Accept False show ?thesis by (auto intro: exI [of _ 0])
      next
        case n: False
        obtain ok b r' where q: "send_all (drop n d) r = (ok, b, r')" by (metis surj_pair)
        from "2.IH"(1) [OF False Accept n] q obtain m where
          "b = take m (drop n d)" "ok \<longrightarrow> b = drop n d" "\<not> ok \<longrightarrow> length b < length (drop n d)"
          by auto
        moreover then have "take n d @ b = take (n + m) d" by (simp add: take_add)
        ultimately show ?thesis using q Accept False n by auto
      qed
    qed (use False 2 in \<open>auto intro: exI [of _ 0] split: prod.splits\<close>)
  qed simp
qed (auto intro: exI [of "\<lambda>m. d = take m d" "length d" for d])

lemma sendAll_ok: "sendAll d s = (True, s') \<Longrightarrow> sk_sent s' = sk_sent s @ d \<and> sk_rx s' = sk_rx s"
  using send_all_spec [of d "sk_tx s"] by (auto simp: sendAll_def split: prod.splits)

lemma sendAll_fail:
  "sendAll d s = (False, s') \<Longrightarrow>
   (\<exists>m < length d. sk_sent s' = sk_sent s @ take m d) \<and> sk_rx s' = sk_rx s"
  using send_all_spec [of d "sk_tx s"]
  by (auto simp: sendAll_def split: prod.splits)

lemma sendAll_rx [simp]: "sk_rx (snd (sendAll d s)) = sk_rx s"
  by (simp add: sendAll_def split: prod.splits)

section \<open>Polling\<close>

text \<open>The bytes queued now, and the arrival of more: they join what is still queued.\<close>

definition rx_queued :: "rx_event list \<Rightarrow> bytes" where
  "rx_queued s = (case s of Chunk b # _ \<Rightarrow> b | _ \<Rightarrow> [])"

fun rx_arrive :: "bytes \<Rightarrow> rx_event list \<Rightarrow> rx_event list" where
  "rx_arrive b (Chunk q # r) = Chunk (q @ b) # r"
| "rx_arrive b r = Chunk b # r"

definition sock_arrive :: "bytes \<Rightarrow> sock \<Rightarrow> sock" where
  "sock_arrive b s = s\<lparr>sk_rx := rx_arrive b (sk_rx s)\<rparr>"

definition queued :: "sock \<Rightarrow> bytes" where
  "queued s = rx_queued (sk_rx s)"

lemma rx_queued_arrive [simp]: "rx_queued (rx_arrive b s) = rx_queued s @ b"
  by (induction b s rule: rx_arrive.induct) (auto simp: rx_queued_def)

lemma queued_arrive [simp]: "queued (sock_arrive b s) = queued s @ b"
  by (simp add: queued_def sock_arrive_def)

text \<open>A polled socket: nothing but what is queued has arrived.\<close>

definition one_chunk :: "sock \<Rightarrow> bool" where
  "one_chunk s \<longleftrightarrow> sk_rx s = [] \<or> (\<exists>q. sk_rx s = [Chunk q])"

lemma one_chunk_stream: "one_chunk s \<Longrightarrow> sk_stream s = queued s"
  by (auto simp: one_chunk_def queued_def rx_queued_def)

lemma one_chunk_arrive [simp]: "one_chunk s \<Longrightarrow> one_chunk (sock_arrive b s)"
  by (auto simp: one_chunk_def sock_arrive_def)

lemma recvAll_one_chunk:
  assumes "one_chunk s" "recvAll n s = ((True, b), s')"
  shows "one_chunk s'"
proof (cases "n = 0")
  case True
  with assms show ?thesis by (simp add: recvAll_def)
next
  case False
  have e: "recv_all n [] = ((False, []), [])" if "0 < n" for n
    using that by (simp add: recv_all.simps [of n])
  from assms(1) consider "sk_rx s = []" | q where "sk_rx s = [Chunk q]" by (auto simp: one_chunk_def)
  then show ?thesis
  proof cases
    case 1
    with assms(2) False e [of n] show ?thesis by (simp add: recvAll_def)
  next
    case (2 q)
    have "q \<noteq> []" using assms(2) 2 False by (auto simp: recvAll_def recv_all.simps [of n])
    with False e [of "n - length q"]
    have "recv_all n [Chunk q] = (if n = length q then ((True, q), [])
        else if length q < n then ((False, q), []) else ((True, take n q), [Chunk (drop n q)]))"
      by (auto simp: recv_all.simps [of n "[Chunk q]"])
    with assms(2) 2 show ?thesis by (auto simp: recvAll_def one_chunk_def split: if_splits)
  qed
qed

section \<open>What readers rely on\<close>

text \<open>
  The protocols read fields of known lengths one after the other. The contract of their source:
  if the stream begins with the field, it is read, the rest stays, and nothing else changes.
\<close>

locale byte_source =
  fixes rd :: "nat \<Rightarrow> 's \<Rightarrow> (bool \<times> bytes) \<times> 's" and stream :: "'s \<Rightarrow> bytes" and same :: "'s \<Rightarrow> 's \<Rightarrow> bool"
  assumes rd_field: "stream s = a @ r \<Longrightarrow> \<exists>s'. rd (length a) s = ((True, a), s') \<and> stream s' = r \<and> same s s'"
    and same_trans: "same s t \<Longrightarrow> same t u \<Longrightarrow> same s u"
begin

lemma rd_stream:
  assumes "stream s = a @ r" "length a = n"
  obtains s' where "rd n s = ((True, a), s')" "stream s' = r" "same s s'"
  using rd_field [OF assms(1)] assms(2) by blast

lemma rd_two:
  assumes "stream s = a @ b @ r" "length a = n" "length b = k"
  obtains s1 s2 where "rd n s = ((True, a), s1)" "rd k s1 = ((True, b), s2)"
    "stream s1 = b @ r" "stream s2 = r" "same s s1" "same s1 s2" "same s s2"
proof -
  obtain s1 where s1: "rd n s = ((True, a), s1)" "stream s1 = b @ r" "same s s1"
    by (rule rd_stream [OF assms(1,2)])
  obtain s2 where "rd k s1 = ((True, b), s2)" "stream s2 = r" "same s1 s2"
    by (rule rd_stream [OF s1(2) assms(3)])
  with s1 that show thesis using same_trans by blast
qed

end

interpretation sock_source: byte_source recvAll sk_stream "\<lambda>s s'. sk_sent s' = sk_sent s \<and> sk_tx s' = sk_tx s"
proof unfold_locales
  fix s a r assume "sk_stream s = a @ r"
  then show "\<exists>s'. recvAll (length a) s = ((True, a), s') \<and> sk_stream s' = r \<and>
      sk_sent s' = sk_sent s \<and> sk_tx s' = sk_tx s"
    by (cases rule: recvAll_cases [of "length a" s]) auto
qed auto

end
