(* ===== verification/Peer.thy ===== *)
theory Peer
  imports Tracker Socket
begin

text \<open>
  Models \<open>src/peer.cpp\<close> and \<open>include/peer.h\<close>: the messages of the peer wire protocol, the
  connection with its handshake, its sending and its two receiving operations, the bitfield,
  and the peer exchange extension (BEP 10 and 11). A connection is a record of the class's
  members; the socket it owns is the scripted one of \<open>Socket\<close>.
\<close>

section \<open>Messages\<close>

datatype message_id =
    Choke | Unchoke | Interested | NotInterested | Have | Bitfield | Request | Block | Cancel
  | Port | Extended | KeepAlive | OtherId byte

text \<open>\<open>static_cast\<close> between \<open>MessageId\<close> and \<open>uint8_t\<close>: every byte is a value of the enum.\<close>

definition id_of_byte :: "byte \<Rightarrow> message_id" where
  "id_of_byte b =
     (if b = 0 then Choke else if b = 1 then Unchoke else if b = 2 then Interested
      else if b = 3 then NotInterested else if b = 4 then Have else if b = 5 then Bitfield
      else if b = 6 then Request else if b = 7 then Block else if b = 8 then Cancel
      else if b = 9 then Port else if b = 20 then Extended else if b = 255 then KeepAlive
      else OtherId b)"

fun byte_of_id :: "message_id \<Rightarrow> byte" where
  "byte_of_id Choke = 0" | "byte_of_id Unchoke = 1" | "byte_of_id Interested = 2"
| "byte_of_id NotInterested = 3" | "byte_of_id Have = 4" | "byte_of_id Bitfield = 5"
| "byte_of_id Request = 6" | "byte_of_id Block = 7" | "byte_of_id Cancel = 8"
| "byte_of_id Port = 9" | "byte_of_id Extended = 20" | "byte_of_id KeepAlive = 255"
| "byte_of_id (OtherId b) = b"

record peer_message =
  pm_length :: "32 word"
  pm_id :: message_id
  pm_payload :: bytes

definition createKeepAlive :: peer_message where
  "createKeepAlive = \<lparr>pm_length = 0, pm_id = KeepAlive, pm_payload = []\<rparr>"

definition createChoke :: peer_message where
  "createChoke = \<lparr>pm_length = 1, pm_id = Choke, pm_payload = []\<rparr>"

definition createUnchoke :: peer_message where
  "createUnchoke = \<lparr>pm_length = 1, pm_id = Unchoke, pm_payload = []\<rparr>"

definition createInterested :: peer_message where
  "createInterested = \<lparr>pm_length = 1, pm_id = Interested, pm_payload = []\<rparr>"

definition createHave :: "32 word \<Rightarrow> peer_message" where
  "createHave pieceIndex = \<lparr>pm_length = 5, pm_id = Have, pm_payload = be32 pieceIndex\<rparr>"

definition createRequest :: "32 word \<Rightarrow> 32 word \<Rightarrow> 32 word \<Rightarrow> peer_message" where
  "createRequest piece off len =
     \<lparr>pm_length = 13, pm_id = Request, pm_payload = be32 piece @ be32 off @ be32 len\<rparr>"

definition createCancel :: "32 word \<Rightarrow> 32 word \<Rightarrow> 32 word \<Rightarrow> peer_message" where
  "createCancel piece off len =
     \<lparr>pm_length = 13, pm_id = Cancel, pm_payload = be32 piece @ be32 off @ be32 len\<rparr>"

text \<open>\<open>MAX_PEER_MESSAGE_SIZE\<close> and \<open>MAX_PEX_PEERS_PER_MESSAGE\<close>.\<close>

definition max_message :: nat where
  "max_message = 4 * 1024 * 1024"

definition max_pex :: nat where
  "max_pex = 200"

section \<open>The connection\<close>

record peer_conn =
  pc_ip :: string
  pc_port :: "16 word"
  pc_torrent :: torrent_info
  pc_peerId :: string
  pc_sock :: "sock option"
  pc_connected :: bool
  pc_amChoking :: bool
  pc_amInterested :: bool
  pc_peerChoking :: bool
  pc_peerInterested :: bool
  pc_supportsExt :: bool
  pc_supportsPex :: bool
  pc_bitfield :: "bool list"
  pc_discovered :: "peer list"

definition new_conn :: "string \<Rightarrow> 16 word \<Rightarrow> torrent_info \<Rightarrow> string \<Rightarrow> peer_conn" where
  "new_conn ip port t peerId =
     \<lparr>pc_ip = ip, pc_port = port, pc_torrent = t, pc_peerId = peerId, pc_sock = None,
      pc_connected = False, pc_amChoking = True, pc_amInterested = False, pc_peerChoking = True,
      pc_peerInterested = False, pc_supportsExt = False, pc_supportsPex = False,
      pc_bitfield = [], pc_discovered = []\<rparr>"

definition disconnect :: "peer_conn \<Rightarrow> peer_conn" where
  "disconnect c = c\<lparr>pc_sock := None, pc_connected := False\<rparr>"

text \<open>The loops on the connection's descriptor; on a closed one every call fails.\<close>

definition conn_send :: "bytes \<Rightarrow> peer_conn \<Rightarrow> bool \<times> peer_conn" where
  "conn_send d c =
     (case pc_sock c of
        None \<Rightarrow> (d = [], c)
      | Some s \<Rightarrow> (case sendAll d s of (ok, s') \<Rightarrow> (ok, c\<lparr>pc_sock := Some s'\<rparr>)))"

definition conn_recv :: "nat \<Rightarrow> peer_conn \<Rightarrow> (bool \<times> bytes) \<times> peer_conn" where
  "conn_recv n c =
     (case pc_sock c of
        None \<Rightarrow> ((n = 0, []), c)
      | Some s \<Rightarrow> (case recvAll n s of (r, s') \<Rightarrow> (r, c\<lparr>pc_sock := Some s'\<rparr>)))"

definition frame :: "peer_message \<Rightarrow> bytes" where
  "frame msg =
     be32 (pm_length msg) @
     (if 0 < pm_length msg then byte_of_id (pm_id msg) # pm_payload msg else [])"

definition sendMessage :: "peer_message \<Rightarrow> peer_conn \<Rightarrow> bool \<times> peer_conn" where
  "sendMessage msg c =
     (if \<not> pc_connected c then (False, c)
      else case conn_send (frame msg) c of
        (True, c') \<Rightarrow> (True, c')
      | (False, c') \<Rightarrow> (False, disconnect c'))"

definition setAmChoking :: "bool \<Rightarrow> peer_conn \<Rightarrow> peer_conn" where
  "setAmChoking choke c = c\<lparr>pc_amChoking := choke\<rparr>"

definition setAmInterested :: "bool \<Rightarrow> peer_conn \<Rightarrow> peer_conn" where
  "setAmInterested interested c = c\<lparr>pc_amInterested := interested\<rparr>"

definition sendChoke :: "peer_conn \<Rightarrow> bool \<times> peer_conn" where
  "sendChoke c = sendMessage createChoke (c\<lparr>pc_amChoking := True\<rparr>)"

definition sendUnchoke :: "peer_conn \<Rightarrow> bool \<times> peer_conn" where
  "sendUnchoke c = sendMessage createUnchoke (c\<lparr>pc_amChoking := False\<rparr>)"

definition sendInterested :: "peer_conn \<Rightarrow> bool \<times> peer_conn" where
  "sendInterested c = sendMessage createInterested (c\<lparr>pc_amInterested := True\<rparr>)"

definition sendHave :: "32 word \<Rightarrow> peer_conn \<Rightarrow> bool \<times> peer_conn" where
  "sendHave i = sendMessage (createHave i)"

definition sendRequest :: "32 word \<Rightarrow> 32 word \<Rightarrow> 32 word \<Rightarrow> peer_conn \<Rightarrow> bool \<times> peer_conn" where
  "sendRequest piece off len = sendMessage (createRequest piece off len)"

definition sendCancel :: "32 word \<Rightarrow> 32 word \<Rightarrow> 32 word \<Rightarrow> peer_conn \<Rightarrow> bool \<times> peer_conn" where
  "sendCancel piece off len = sendMessage (createCancel piece off len)"

definition extension_handshake :: string where
  "extension_handshake =
     encode (BDict (smap_insert ''m'' (BDict (smap_insert ''ut_pex'' (BInt 1) [])) []))"

definition sendExtensionHandshake :: "peer_conn \<Rightarrow> bool \<times> peer_conn" where
  "sendExtensionHandshake c =
     (let payload = 0 # bytes_of_str extension_handshake in
      sendMessage \<lparr>pm_length = of_nat (1 + length payload), pm_id = Extended, pm_payload = payload\<rparr> c)"

text \<open>
  \<open>memcpy\<close> and \<open>memcmp\<close> of 20 bytes from \<open>c_str()\<close>. A shorter string is followed by its
  terminating zero and then by memory the code does not own; the model reads zeros there.
\<close>

definition cstr20 :: "string \<Rightarrow> bytes" where
  "cstr20 s = take 20 (bytes_of_str s @ replicate 20 0)"

definition handshake_bytes :: "string \<Rightarrow> string \<Rightarrow> bytes" where
  "handshake_bytes infoHash peerId =
     [19] @ bytes_of_str ''BitTorrent protocol'' @ [0, 0, 0, 0, 0, 0x10, 0, 0]
      @ cstr20 infoHash @ cstr20 peerId"

definition handshake_ok :: "bytes \<Rightarrow> string \<Rightarrow> bool" where
  "handshake_ok h infoHash =
     (h ! 0 = 19 \<and> take 19 (drop 1 h) = bytes_of_str ''BitTorrent protocol'' \<and>
      take 20 (drop 28 h) = cstr20 infoHash)"

definition performHandshake :: "peer_conn \<Rightarrow> bool \<times> peer_conn" where
  "performHandshake c =
     (case conn_send (handshake_bytes (tInfoHash (pc_torrent c)) (pc_peerId c)) c of
        (False, c1) \<Rightarrow> (False, c1)
      | (True, c1) \<Rightarrow>
        (case conn_recv 68 c1 of
           ((False, _), c2) \<Rightarrow> (False, c2)
         | ((True, h), c2) \<Rightarrow>
             if \<not> handshake_ok h (tInfoHash (pc_torrent c)) then (False, c2)
             else let c3 = c2\<lparr>pc_supportsExt := (h ! 25 AND 0x10 \<noteq> 0),
                              pc_bitfield := replicate (numPieces (pc_torrent c)) False\<rparr> in
               (case sendInterested c3 of
                  (False, c4) \<Rightarrow> (False, c4)
                | (True, c4) \<Rightarrow>
                    if pc_supportsExt c4 then sendExtensionHandshake c4 else (True, c4))))"

text \<open>What the system calls of \<open>connect\<close> answer, and the script of the new socket.\<close>

record connect_env =
  ce_socket :: bool
  ce_pton :: bool
  ce_connect :: bool
  ce_select :: bool
  ce_soerror :: bool
  ce_sock :: sock

definition connect :: "connect_env \<Rightarrow> peer_conn \<Rightarrow> bool \<times> peer_conn" where
  "connect env c =
     (if pc_connected c then (True, c)
      else if \<not> ce_socket env then (False, c\<lparr>pc_sock := None\<rparr>)
      else let c1 = c\<lparr>pc_sock := Some (ce_sock env)\<rparr> in
        if \<not> ce_pton env then (False, disconnect c1)
        else if \<not> ce_connect env then (False, disconnect c1)
        else if \<not> ce_select env then (False, disconnect c1)
        else if \<not> ce_soerror env then (False, disconnect c1)
        else case performHandshake (c1\<lparr>pc_connected := True\<rparr>) of
          (True, c2) \<Rightarrow> (True, c2)
        | (False, c2) \<Rightarrow> (False, disconnect c2))"

section \<open>The bitfield\<close>

fun set_bits :: "nat \<Rightarrow> byte \<Rightarrow> nat list \<Rightarrow> bool list \<Rightarrow> bool list" where
  "set_bits i b [] bf = bf"
| "set_bits i b (j # js) bf =
     (if i * 8 + j < length bf
      then set_bits i b js (if b AND drop_bit j 0x80 \<noteq> 0 then bf[i * 8 + j := True] else bf)
      else bf)"

fun set_bytes :: "nat \<Rightarrow> bytes \<Rightarrow> bool list \<Rightarrow> bool list" where
  "set_bytes i [] bf = bf"
| "set_bytes i (b # bs) bf =
     (if i * 8 < length bf then set_bytes (i + 1) bs (set_bits i b [0..<8] bf) else bf)"

definition updateBitfield :: "bytes \<Rightarrow> peer_conn \<Rightarrow> peer_conn" where
  "updateBitfield data c =
     c\<lparr>pc_bitfield := set_bytes 0 data (replicate (numPieces (pc_torrent c)) False)\<rparr>"

definition hasPiece :: "peer_conn \<Rightarrow> nat \<Rightarrow> bool" where
  "hasPiece c index = (index < length (pc_bitfield c) \<and> pc_bitfield c ! index)"

section \<open>Extension messages\<close>

fun pex_add :: "peer list \<Rightarrow> peer_conn \<Rightarrow> peer_conn" where
  "pex_add [] c = c"
| "pex_add (p # ps) c =
     (if max_pex \<le> length (pc_discovered c) then c
      else if pr_port p = 0 \<or> (pr_ip p = pc_ip c \<and> pr_port p = pc_port c) then pex_add ps c
      else if list_ex (\<lambda>q. same_peer q p) (pc_discovered c) then pex_add ps c
      else pex_add ps (c\<lparr>pc_discovered := pc_discovered c @ [p]\<rparr>))"

definition process_extended_dict :: "byte \<Rightarrow> bdict \<Rightarrow> peer_conn \<Rightarrow> peer_conn" where
  "process_extended_dict extensionId d c =
     (if extensionId = 0 then
        (case dictGet d ''m'' of
           Some (BDict m) \<Rightarrow>
             c\<lparr>pc_supportsPex := (case dictGetInt m ''ut_pex'' of Some i \<Rightarrow> 0 < i \<and> i \<le> 255 | None \<Rightarrow> False)\<rparr>
         | _ \<Rightarrow> c)
      else if extensionId \<noteq> 1 \<or> \<not> pc_supportsPex c then c
      else case dictGetString d ''added'' of
        None \<Rightarrow> c
      | Some blob \<Rightarrow> pex_add (parseCompactPeers blob) c)"

text \<open>Every exception is swallowed; a parser that never returns is not.\<close>

definition processExtendedMessage :: "bytes \<Rightarrow> peer_conn \<Rightarrow> (berror, peer_conn) outcome" where
  "processExtendedMessage payload c =
     (if length payload < 2 then Ok c
      else case parse (str_of_bytes (tl payload)) of
        Ok (BDict d) \<Rightarrow> Ok (process_extended_dict (hd payload) d c)
      | Ok _ \<Rightarrow> Ok c
      | Throw _ \<Rightarrow> Ok c
      | Hang \<Rightarrow> Hang)"

definition takeDiscoveredPeers :: "peer_conn \<Rightarrow> peer list \<times> peer_conn" where
  "takeDiscoveredPeers c = (pc_discovered c, c\<lparr>pc_discovered := []\<rparr>)"

section \<open>Receiving messages\<close>

text \<open>The switch at the end of both receiving operations.\<close>

definition apply_message :: "peer_message \<Rightarrow> peer_conn \<Rightarrow> (berror, peer_conn) outcome" where
  "apply_message msg c =
     (case pm_id msg of
        Choke \<Rightarrow> Ok (c\<lparr>pc_peerChoking := True\<rparr>)
      | Unchoke \<Rightarrow> Ok (c\<lparr>pc_peerChoking := False\<rparr>)
      | Interested \<Rightarrow> Ok (c\<lparr>pc_peerInterested := True\<rparr>)
      | NotInterested \<Rightarrow> Ok (c\<lparr>pc_peerInterested := False\<rparr>)
      | Have \<Rightarrow>
          if 4 \<le> length (pm_payload msg) then
            let i = unat (bytesToInt_raw (take 4 (pm_payload msg))) in
            Ok (if i < length (pc_bitfield c) then c\<lparr>pc_bitfield := (pc_bitfield c)[i := True]\<rparr> else c)
          else Ok c
      | Bitfield \<Rightarrow> Ok (updateBitfield (pm_payload msg) c)
      | Extended \<Rightarrow> processExtendedMessage (pm_payload msg) c
      | _ \<Rightarrow> Ok c)"

text \<open>
  From the message id on. The caller's \<open>msg\<close> is passed through: a message of length 0 or 1
  leaves the payload of the one before in it.
\<close>

definition read_body :: "peer_conn \<Rightarrow> peer_message \<Rightarrow>
    (berror, bool \<times> peer_conn \<times> peer_message) outcome" where
  "read_body c msg =
     (if pm_length msg = 0 then Ok (True, c, msg\<lparr>pm_id := KeepAlive\<rparr>)
      else case conn_recv 1 c of
        ((False, _), c1) \<Rightarrow> Ok (False, c1, msg)
      | ((True, idb), c1) \<Rightarrow>
          let msg1 = msg\<lparr>pm_id := id_of_byte (idb ! 0)\<rparr>; n = unat (pm_length msg) - 1 in
          if pm_length msg \<le> 1 then
            obind (apply_message msg1 c1) (\<lambda>c2. Ok (True, c2, msg1))
          else (case conn_recv n c1 of
             ((ok, got), c2) \<Rightarrow>
               let msg2 = msg1\<lparr>pm_payload := fill got (resize_bytes n (pm_payload msg1))\<rparr> in
               if ok then obind (apply_message msg2 c2) (\<lambda>c3. Ok (True, c3, msg2))
               else Ok (False, c2, msg2)))"


definition receiveMessage :: "peer_conn \<Rightarrow> peer_message \<Rightarrow>
    (berror, bool \<times> peer_conn \<times> peer_message) outcome" where
  "receiveMessage c msg =
     (if \<not> pc_connected c then Ok (False, c, msg)
      else case conn_recv 4 c of
        ((False, _), c1) \<Rightarrow> Ok (False, c1, msg)
      | ((True, len), c1) \<Rightarrow>
          let msg1 = msg\<lparr>pm_length := bytesToInt_raw len\<rparr> in
          if max_message < unat (pm_length msg1) then Ok (False, disconnect c1, msg1)
          else read_body c1 msg1)"

definition conn_queued :: "peer_conn \<Rightarrow> bytes" where
  "conn_queued c = (case pc_sock c of None \<Rightarrow> [] | Some s \<Rightarrow> queued s)"

definition receiveMessageNonBlocking :: "peer_conn \<Rightarrow> peer_message \<Rightarrow>
    (berror, bool \<times> peer_conn \<times> peer_message) outcome" where
  "receiveMessageNonBlocking c msg =
     (if \<not> pc_connected c then Ok (False, c, msg)
      else let available = length (conn_queued c) in
        if available < 4 then Ok (False, c, msg)
        else let msg1 = msg\<lparr>pm_length := bytesToInt_raw (take 4 (conn_queued c))\<rparr> in
          if max_message < unat (pm_length msg1) then Ok (False, disconnect c, msg1)
          else if available < 4 + unat (pm_length msg1) then Ok (False, c, msg1)
          else case conn_recv 4 c of
            ((False, _), c1) \<Rightarrow> Ok (False, c1, msg1)
          | ((True, _), c1) \<Rightarrow> read_body c1 msg1)"

text \<open>
  \<open>readBlock\<close>, which reads blocks until \<open>length\<close> bytes have come. \<open>data\<close> is the caller's
  buffer, \<open>totalRead\<close> the bytes of it that are filled. \<open>offset + totalRead\<close> is computed in
  64 bits.
\<close>

definition skip :: "nat \<Rightarrow> peer_conn \<Rightarrow> bool \<times> peer_conn" where
  "skip n c = (case conn_recv n c of ((ok, _), c') \<Rightarrow> (ok, c'))"

datatype block_step = Stop bool peer_conn bytes | Continue peer_conn nat bytes

definition readBlock_step :: "32 word \<Rightarrow> 32 word \<Rightarrow> 32 word \<Rightarrow> peer_conn \<Rightarrow> nat \<Rightarrow> bytes \<Rightarrow> block_step" where
  "readBlock_step piece off len c totalRead data =
     (case conn_recv 4 c of
        ((False, _), c1) \<Rightarrow> Stop False c1 data
      | ((True, lb), c1) \<Rightarrow>
        let msgLength = unat (bytesToInt_raw lb) in
        if msgLength = 0 then Continue c1 totalRead data
        else if max_message < msgLength then Stop False c1 data
        else (case conn_recv 1 c1 of
          ((False, _), c2) \<Rightarrow> Stop False c2 data
        | ((True, idb), c2) \<Rightarrow>
          if id_of_byte (idb ! 0) \<noteq> Block then
            (case skip (msgLength - 1) c2 of
               (True, c3) \<Rightarrow> Continue c3 totalRead data
             | (False, c3) \<Rightarrow> Stop False c3 data)
          else if msgLength < 9 then Stop False c2 data
          else (case conn_recv 4 c2 of
            ((False, _), c3) \<Rightarrow> Stop False c3 data
          | ((True, pb), c3) \<Rightarrow>
            (case conn_recv 4 c3 of
              ((False, _), c4) \<Rightarrow> Stop False c4 data
            | ((True, ob), c4) \<Rightarrow>
              let blockLength = msgLength - 9 in
              if bytesToInt_raw pb \<noteq> piece \<or> unat (bytesToInt_raw ob) \<noteq> unat off + totalRead then
                Stop False (snd (skip blockLength c4)) data
              else let toRead = min blockLength (unat len - totalRead) in
                (case conn_recv toRead c4 of
                   ((ok, got), c5) \<Rightarrow>
                     let data' = splice totalRead got data in
                     if \<not> ok then Stop False c5 data'
                     else if toRead < blockLength then
                       (case skip (blockLength - toRead) c5 of
                          (True, c6) \<Rightarrow> Continue c6 (totalRead + toRead) data'
                        | (False, c6) \<Rightarrow> Stop False c6 data')
                     else Continue c5 (totalRead + toRead) data')))))"

text \<open>Each turn of the loop that goes on has read at least the four bytes of a length.\<close>

definition conn_weight :: "peer_conn \<Rightarrow> nat" where
  "conn_weight c = (case pc_sock c of None \<Rightarrow> 0 | Some s \<Rightarrow> rx_weight (sk_rx s))"

lemma conn_recv_weight:
  "conn_recv n c = ((ok, b), c') \<Longrightarrow> conn_weight c' \<le> conn_weight c \<and> (ok \<longrightarrow> conn_weight c' + n \<le> conn_weight c)"
  using recv_all_spec [of n "sk_rx (the (pc_sock c))"]
  by (auto simp: conn_recv_def conn_weight_def recvAll_def split: option.splits prod.splits)

lemma skip_weight: "skip n c = (ok, c') \<Longrightarrow> conn_weight c' \<le> conn_weight c"
  by (auto simp: skip_def split: prod.splits dest: conn_recv_weight)

lemma readBlock_step_weight:
  "readBlock_step piece off len c totalRead data = Continue c' t' d' \<Longrightarrow> conn_weight c' < conn_weight c"
  by (auto simp: readBlock_step_def Let_def split: prod.splits bool.splits if_splits
      dest!: conn_recv_weight skip_weight)

function readBlock_loop :: "32 word \<Rightarrow> 32 word \<Rightarrow> 32 word \<Rightarrow> peer_conn \<Rightarrow> nat \<Rightarrow> bytes \<Rightarrow>
    bool \<times> peer_conn \<times> bytes" where
  "readBlock_loop piece off len c totalRead data =
     (if totalRead < unat len then
        (case readBlock_step piece off len c totalRead data of
           Stop ok c' d' \<Rightarrow> (ok, c', d')
         | Continue c' t' d' \<Rightarrow> readBlock_loop piece off len c' t' d')
      else (True, c, data))"
  by pat_completeness auto
termination
  by (relation "measure (\<lambda>(_, _, _, c, _, _). conn_weight c)") (auto dest: readBlock_step_weight)

declare readBlock_loop.simps [simp del]

definition readBlock :: "32 word \<Rightarrow> 32 word \<Rightarrow> 32 word \<Rightarrow> bytes \<Rightarrow> peer_conn \<Rightarrow> bool \<times> peer_conn \<times> bytes" where
  "readBlock piece off len data c =
     (if \<not> pc_connected c then (False, c, data)
      else readBlock_loop piece off len c 0 (resize_bytes (unat len) data))"


section \<open>Message ids and frames\<close>

lemma byte_of_id_of_byte [simp]: "byte_of_id (id_of_byte b) = b"
  by (simp add: id_of_byte_def)

lemma id_of_byte_of_id [simp]: "(\<And>b. i \<noteq> OtherId b) \<Longrightarrow> id_of_byte (byte_of_id i) = i"
  by (cases i) (simp_all add: id_of_byte_def)

lemma id_of_byte_inj [simp]: "id_of_byte a = id_of_byte b \<longleftrightarrow> a = b"
  by (metis byte_of_id_of_byte)

text \<open>A message whose length field counts its id and payload, as every sender builds them.\<close>

definition wf_message :: "peer_message \<Rightarrow> bool" where
  "wf_message m \<longleftrightarrow>
     (if pm_length m = 0 then pm_id m = KeepAlive \<and> pm_payload m = []
      else unat (pm_length m) = 1 + length (pm_payload m) \<and>
           unat (pm_length m) \<le> max_message \<and> id_of_byte (byte_of_id (pm_id m)) = pm_id m)"

lemma created_wf:
  "wf_message createKeepAlive" "wf_message createChoke" "wf_message createUnchoke"
  "wf_message createInterested" "wf_message (createHave i)"
  "wf_message (createRequest p off len)" "wf_message (createCancel p off len)"
  by (simp_all add: wf_message_def createKeepAlive_def createChoke_def createUnchoke_def
      createInterested_def createHave_def createRequest_def createCancel_def max_message_def id_of_byte_def)

lemma frame_not_Nil [simp]: "frame m \<noteq> []"
proof -
  have "4 \<le> length (frame m)" by (simp add: frame_def)
  then show ?thesis by auto
qed

lemma sendMessage_ok:
  assumes "sendMessage msg c = (True, c')"
  obtains s s' where "pc_connected c" "pc_sock c = Some s" "c' = c\<lparr>pc_sock := Some s'\<rparr>"
    "sk_sent s' = sk_sent s @ frame msg" "sk_rx s' = sk_rx s"
  using assms
  by (auto simp: sendMessage_def conn_send_def
      split: if_splits option.splits prod.splits bool.splits dest!: sendAll_ok)

lemma sendMessage_fail: "sendMessage msg c = (False, c') \<Longrightarrow> \<not> pc_connected c'"
  by (auto simp: sendMessage_def disconnect_def split: if_splits prod.splits bool.splits)

section \<open>Receiving a frame\<close>

text \<open>The bytes a connection can still give, and what reading them leaves alone.\<close>

definition conn_stream :: "peer_conn \<Rightarrow> bytes" where
  "conn_stream c = (case pc_sock c of None \<Rightarrow> [] | Some s \<Rightarrow> sk_stream s)"

definition same_but_read :: "peer_conn \<Rightarrow> peer_conn \<Rightarrow> bool" where
  "same_but_read c c' \<longleftrightarrow>
     (case pc_sock c of
        None \<Rightarrow> c' = c
      | Some s \<Rightarrow> \<exists>s'. c' = c\<lparr>pc_sock := Some s'\<rparr> \<and> sk_sent s' = sk_sent s \<and> (one_chunk s \<longrightarrow> one_chunk s'))"

interpretation conn_source: byte_source conn_recv conn_stream same_but_read
proof unfold_locales
  fix c a r assume st: "conn_stream c = a @ r"
  show "\<exists>c'. conn_recv (length a) c = ((True, a), c') \<and> conn_stream c' = r \<and> same_but_read c c'"
  proof (cases "pc_sock c")
    case (Some s)
    with st obtain s' where "recvAll (length a) s = ((True, a), s')" "sk_stream s' = r" "sk_sent s' = sk_sent s"
      using sock_source.rd_field [of s a r] by (auto simp: conn_stream_def)
    with Some recvAll_one_chunk [of s "length a" a s'] show ?thesis
      by (intro exI [of _ "c\<lparr>pc_sock := Some s'\<rparr>"])
         (auto simp: conn_recv_def conn_stream_def same_but_read_def intro!: exI [of _ s'])
  qed (use st in \<open>simp add: conn_recv_def conn_stream_def same_but_read_def\<close>)
qed (auto simp: same_but_read_def split: option.splits)

lemma conn_recv_stream:
  assumes "pc_sock c = Some s" "sk_stream s = a @ r" "length a = n"
  obtains s' where "conn_recv n c = ((True, a), c\<lparr>pc_sock := Some s'\<rparr>)" "sk_stream s' = r"
    "sk_sent s' = sk_sent s" "one_chunk s \<longrightarrow> one_chunk s'"
  by (rule conn_source.rd_stream [of c a r n])
     (use assms that in \<open>auto simp: conn_stream_def same_but_read_def\<close>)

lemma fill_full [simp]: "length got = length buf \<Longrightarrow> fill got buf = got"
  by (simp add: fill_def)

lemma be32_decode [simp]: "bytesToInt_raw (be32 w) = w"
  by (simp add: be32_def)

text \<open>
  What receiving a well-formed frame does, whatever the segments it comes in: exactly its
  bytes are consumed, and the message is the one sent, but for the payload of a message
  without one, which stays that of \<open>m0\<close>.
\<close>

definition received :: "peer_message \<Rightarrow> peer_message \<Rightarrow> peer_message" where
  "received m0 m = (if pm_payload m = [] then m\<lparr>pm_payload := pm_payload m0\<rparr> else m)"

lemma read_body_frame:
  assumes "pc_sock c = Some s" "wf_message m" "pm_length m0 = pm_length m"
    "sk_stream s = drop 4 (frame m) @ r"
  obtains s' where "sk_stream s' = r" "sk_sent s' = sk_sent s" "one_chunk s \<longrightarrow> one_chunk s'"
    "read_body c m0 = obind (apply_message (received m0 m) (c\<lparr>pc_sock := Some s'\<rparr>))
        (\<lambda>c'. Ok (True, c', received m0 m))"
proof (cases "pm_length m = 0")
  case True
  then have m: "pm_id m = KeepAlive" "pm_payload m = []" "sk_stream s = r"
    using assms by (simp_all add: wf_message_def frame_def be32_def)
  have e: "received m0 m = m0\<lparr>pm_id := KeepAlive\<rparr>" using m True assms(3) by (simp add: received_def)
  have sk: "c\<lparr>pc_sock := Some s\<rparr> = c" using assms(1) by simp
  show thesis
    by (rule that [of s]) (use m True assms e sk in \<open>simp_all add: read_body_def apply_message_def\<close>)
next
  case False
  then have m: "unat (pm_length m) = 1 + length (pm_payload m)" "id_of_byte (byte_of_id (pm_id m)) = pm_id m"
    using assms(2) by (simp_all add: wf_message_def)
  have st: "sk_stream s = [byte_of_id (pm_id m)] @ (pm_payload m @ r)"
    using assms(4) False by (simp add: frame_def be32_def word_gt_0)
  obtain s1 where s1: "conn_recv 1 c = ((True, [byte_of_id (pm_id m)]), c\<lparr>pc_sock := Some s1\<rparr>)"
      "sk_stream s1 = pm_payload m @ r" "sk_sent s1 = sk_sent s" "one_chunk s \<longrightarrow> one_chunk s1"
    using conn_recv_stream [OF assms(1) st, of 1] by auto
  show thesis
  proof (cases "pm_payload m = []")
    case True
    with m have l: "pm_length m = 1" by (metis One_nat_def add.right_neutral list.size(3) unat_1 word_unat_eq_iff)
    have e: "received m0 m = m0\<lparr>pm_id := pm_id m\<rparr>" using True assms(3) by (simp add: received_def)
    show thesis
      by (rule that [of s1]) (use s1 True l m assms(3) e in \<open>simp_all add: read_body_def Let_def\<close>)
  next
    case p: False
    then have l: "\<not> pm_length m \<le> 1" using m(1) by (simp add: word_le_nat_alt)
    obtain s2 where s2: "conn_recv (length (pm_payload m)) (c\<lparr>pc_sock := Some s1\<rparr>)
        = ((True, pm_payload m), c\<lparr>pc_sock := Some s2\<rparr>)" "sk_stream s2 = r" "sk_sent s2 = sk_sent s"
        "one_chunk s \<longrightarrow> one_chunk s2"
      using conn_recv_stream [of "c\<lparr>pc_sock := Some s1\<rparr>" s1 "pm_payload m" r] s1 by auto
    have e: "received m0 m = m0\<lparr>pm_id := pm_id m, pm_payload := pm_payload m\<rparr>"
      using p assms(3) by (simp add: received_def)
    show thesis
      by (rule that [of s2]) (use s1 s2 p l m assms(3) e False in \<open>simp_all add: read_body_def Let_def\<close>)
  qed
qed

lemma length_frame: "wf_message m \<Longrightarrow> length (frame m) = 4 + unat (pm_length m)"
  by (auto simp: frame_def wf_message_def word_gt_0 split: if_splits)

lemma wf_message_small: "wf_message m \<Longrightarrow> unat (pm_length m) \<le> max_message"
  by (auto simp: wf_message_def split: if_splits)

lemma take_4_frame [simp]: "take 4 (frame m) = be32 (pm_length m)" "take 4 (frame m @ r) = be32 (pm_length m)"
  by (simp_all add: frame_def)

lemma sock_same: "pc_sock c = s \<Longrightarrow> c\<lparr>pc_sock := s\<rparr> = c"
  by auto

lemma frame_split: "frame m @ r = be32 (pm_length m) @ (drop 4 (frame m) @ r)"
  by (metis append.assoc append_take_drop_id take_4_frame(1))

lemma receive_frame:
  assumes "pc_connected c" "pc_sock c = Some s" "wf_message m" "sk_stream s = frame m @ r"
  obtains s' where "sk_stream s' = r" "sk_sent s' = sk_sent s"
    "receiveMessage c m0 = obind (apply_message (received m0 m) (c\<lparr>pc_sock := Some s'\<rparr>))
        (\<lambda>c'. Ok (True, c', received m0 m))"
proof -
  have st: "sk_stream s = be32 (pm_length m) @ (drop 4 (frame m) @ r)"
    using assms(4) by (metis frame_split)
  obtain s1 where s1: "conn_recv 4 c = ((True, be32 (pm_length m)), c\<lparr>pc_sock := Some s1\<rparr>)"
      "sk_stream s1 = drop 4 (frame m) @ r" "sk_sent s1 = sk_sent s"
    using conn_recv_stream [OF assms(2) st, of 4] by auto
  obtain s2 where s2: "sk_stream s2 = r" "sk_sent s2 = sk_sent s1"
    "read_body (c\<lparr>pc_sock := Some s1\<rparr>) (m0\<lparr>pm_length := pm_length m\<rparr>) =
       obind (apply_message (received (m0\<lparr>pm_length := pm_length m\<rparr>) m) (c\<lparr>pc_sock := Some s2\<rparr>))
        (\<lambda>c'. Ok (True, c', received (m0\<lparr>pm_length := pm_length m\<rparr>) m))"
    using read_body_frame [of "c\<lparr>pc_sock := Some s1\<rparr>" s1 m "m0\<lparr>pm_length := pm_length m\<rparr>" r]
      assms(3) s1(2) by auto
  have "received (m0\<lparr>pm_length := pm_length m\<rparr>) m = received m0 m" by (simp add: received_def)
  moreover have "receiveMessage c m0 = read_body (c\<lparr>pc_sock := Some s1\<rparr>) (m0\<lparr>pm_length := pm_length m\<rparr>)"
    using assms(1) s1 wf_message_small [OF assms(3)] by (simp add: receiveMessage_def)
  ultimately show thesis using that [of s2] s1 s2 by simp
qed

section \<open>Polling\<close>

text \<open>
  The polling operation on a frame that is complete in the queue, and on one that is not:
  then it changes nothing but the length in the caller's \<open>msg\<close>.
\<close>

definition polled :: "peer_conn \<Rightarrow> bytes \<Rightarrow> bool" where
  "polled c q \<longleftrightarrow> pc_connected c \<and> (\<exists>s. pc_sock c = Some s \<and> one_chunk s \<and> queued s = q)"

lemma poll_frame:
  assumes "polled c (frame m @ r)" "wf_message m"
  obtains s' where "one_chunk s'" "queued s' = r"
    "receiveMessageNonBlocking c m0 = obind (apply_message (received m0 m) (c\<lparr>pc_sock := Some s'\<rparr>))
        (\<lambda>c'. Ok (True, c', received m0 m))"
proof -
  from assms(1) obtain s where s: "pc_connected c" "pc_sock c = Some s" "one_chunk s"
    "queued s = frame m @ r" by (auto simp: polled_def)
  then have "sk_stream s = be32 (pm_length m) @ (drop 4 (frame m) @ r)"
    using one_chunk_stream [of s] by (metis frame_split)
  then obtain s1 where s1: "conn_recv 4 c = ((True, be32 (pm_length m)), c\<lparr>pc_sock := Some s1\<rparr>)"
      "sk_stream s1 = drop 4 (frame m) @ r" "one_chunk s1"
    using conn_recv_stream [OF s(2), of "be32 (pm_length m)" "drop 4 (frame m) @ r" 4] s(3) by auto
  let ?m1 = "m0\<lparr>pm_length := pm_length m\<rparr>"
  obtain s2 where s2: "sk_stream s2 = r" "one_chunk s2"
    "read_body (c\<lparr>pc_sock := Some s1\<rparr>) ?m1 =
       obind (apply_message (received ?m1 m) (c\<lparr>pc_sock := Some s2\<rparr>)) (\<lambda>c'. Ok (True, c', received ?m1 m))"
    using read_body_frame [of "c\<lparr>pc_sock := Some s1\<rparr>" s1 m ?m1 r] assms(2) s1(2,3) by auto
  have "received ?m1 m = received m0 m" by (simp add: received_def)
  moreover have "receiveMessageNonBlocking c m0 = read_body (c\<lparr>pc_sock := Some s1\<rparr>) ?m1"
    using s s1 wf_message_small [OF assms(2)] length_frame [OF assms(2)]
    by (simp add: receiveMessageNonBlocking_def conn_queued_def Let_def)
  ultimately show thesis using that [of s2] s2 one_chunk_stream [of s2] by simp
qed

lemma poll_partial:
  assumes "polled c q" "wf_message m" "frame m = q @ r" "r \<noteq> []"
  shows "\<exists>l. receiveMessageNonBlocking c m0 = Ok (False, c, m0\<lparr>pm_length := l\<rparr>)"
proof (cases "length q < 4")
  case True
  with assms(1) have "receiveMessageNonBlocking c m0 = Ok (False, c, m0\<lparr>pm_length := pm_length m0\<rparr>)"
    by (auto simp: polled_def receiveMessageNonBlocking_def conn_queued_def)
  then show ?thesis ..
next
  case False
  then have "take 4 q = be32 (pm_length m)" using take_4_frame(1) [of m] assms(3) by simp
  moreover have "length q < 4 + unat (pm_length m)"
    using length_frame [OF assms(2)] assms(3,4) by (cases r) auto
  ultimately show ?thesis using assms(1) wf_message_small [OF assms(2)] False
    by (auto simp: polled_def receiveMessageNonBlocking_def conn_queued_def Let_def)
qed

lemma poll_empty: "polled c [] \<Longrightarrow> receiveMessageNonBlocking c m0 = Ok (False, c, m0)"
  by (auto simp: polled_def receiveMessageNonBlocking_def conn_queued_def)

lemma apply_message_keeps:
  "apply_message m c = Ok c' \<Longrightarrow> pc_sock c' = pc_sock c \<and> pc_connected c' = pc_connected c"
proof -
  have pex: "pc_sock (pex_add ps c) = pc_sock c \<and> pc_connected (pex_add ps c) = pc_connected c" for ps c
    by (induction ps c rule: pex_add.induct) auto
  show "apply_message m c = Ok c' \<Longrightarrow> pc_sock c' = pc_sock c \<and> pc_connected c' = pc_connected c"
    by (auto simp: apply_message_def updateBitfield_def processExtendedMessage_def
        process_extended_dict_def pex Let_def
        split: message_id.splits if_splits outcome.splits bval.splits option.splits)
qed

text \<open>
  Draining the queue, as the download loop does: the state the messages leave, with the
  messages in order. The fuel is one more than the number of messages.
\<close>

fun drain :: "nat \<Rightarrow> peer_conn \<Rightarrow> peer_message \<Rightarrow>
    (berror, peer_message list \<times> peer_conn \<times> peer_message) outcome" where
  "drain 0 c m0 = Hang"
| "drain (Suc f) c m0 =
     (case receiveMessageNonBlocking c m0 of
        Ok (True, c', m) \<Rightarrow> obind (drain f c' m) (\<lambda>(ms, r). Ok (m # ms, r))
      | Ok (False, c', m) \<Rightarrow> Ok ([], c', m)
      | Throw e \<Rightarrow> Throw e
      | Hang \<Rightarrow> Hang)"

definition arrive :: "bytes \<Rightarrow> peer_conn \<Rightarrow> peer_conn" where
  "arrive b c = c\<lparr>pc_sock := map_option (sock_arrive b) (pc_sock c)\<rparr>"

fun drain_segments :: "bytes list \<Rightarrow> peer_conn \<Rightarrow> peer_message \<Rightarrow>
    (berror, peer_message list \<times> peer_conn \<times> peer_message) outcome" where
  "drain_segments [] c m0 = Ok ([], c, m0)"
| "drain_segments (b # bs) c m0 =
     obind (drain (Suc (length (conn_queued (arrive b c)))) (arrive b c) m0)
       (\<lambda>(ms, c', m). obind (drain_segments bs c' m) (\<lambda>(ms', r). Ok (ms @ ms', r)))"


text \<open>The same messages applied in order, without a socket.\<close>

fun apply_all :: "peer_message list \<Rightarrow> peer_conn \<Rightarrow> peer_message \<Rightarrow>
    (berror, peer_message list \<times> peer_conn \<times> peer_message) outcome" where
  "apply_all [] c m0 = Ok ([], c, m0)"
| "apply_all (m # ms) c m0 =
     obind (apply_message (received m0 m) c)
       (\<lambda>c'. obind (apply_all ms c' (received m0 m)) (\<lambda>(out, r). Ok (received m0 m # out, r)))"

lemma discovered_sock_swap:
  "c\<lparr>pc_sock := s, pc_discovered := d\<rparr> = c\<lparr>pc_discovered := d, pc_sock := s\<rparr>"
  by simp

lemma pex_add_sock: "pex_add ps (c\<lparr>pc_sock := s\<rparr>) = (pex_add ps c)\<lparr>pc_sock := s\<rparr>"
  by (induction ps c rule: pex_add.induct) (auto simp: discovered_sock_swap)

lemma apply_message_sock:
  "apply_message m (c\<lparr>pc_sock := s\<rparr>) = obind (apply_message m c) (\<lambda>c'. Ok (c'\<lparr>pc_sock := s\<rparr>))"
  by (auto simp: apply_message_def updateBitfield_def processExtendedMessage_def
      process_extended_dict_def pex_add_sock Let_def
      split: message_id.splits outcome.splits bval.splits option.splits)

lemma received_length [simp]: "received (m0\<lparr>pm_length := l\<rparr>) m = received m0 m"
  by (simp add: received_def)

lemma apply_all_sock:
  "apply_all ms c m0 = Ok (out, c', m') \<Longrightarrow>
   \<exists>l'. apply_all ms (c\<lparr>pc_sock := s\<rparr>) (m0\<lparr>pm_length := l\<rparr>) = Ok (out, c'\<lparr>pc_sock := s\<rparr>, m'\<lparr>pm_length := l'\<rparr>)"
proof (induction ms arbitrary: c m0 out l)
  case (Cons m ms)
  from Cons.prems obtain c1 out1 where
    "apply_message (received m0 m) c = Ok c1" "apply_all ms c1 (received m0 m) = Ok (out1, c', m')"
    "out = received m0 m # out1" by auto
  with Cons.IH [of c1 "received m0 m" out1 "pm_length (received m0 m)"] show ?case
    by (auto simp: apply_message_sock)
qed auto

lemma apply_all_append:
  "apply_all (ms @ ns) c m0 = obind (apply_all ms c m0)
     (\<lambda>(o1, c1, m1). obind (apply_all ns c1 m1) (\<lambda>(o2, r). Ok (o1 @ o2, r)))"
proof (induction ms arbitrary: c m0)
  case Nil
  then show ?case by (cases "apply_all ns c m0") auto
next
  case (Cons m ms)
  show ?case
  proof (cases "apply_message (received m0 m) c")
    case (Ok c1)
    show ?thesis
    proof (cases "apply_all ms c1 (received m0 m)")
      case ok2: (Ok x)
      obtain o1 c2 m2 where x: "x = (o1, c2, m2)" by (cases x) auto
      show ?thesis using Ok ok2 x Cons.IH [of c1 "received m0 m"]
        by (cases "apply_all ns c2 m2") auto
    qed (use Ok Cons.IH [of c1 "received m0 m"] in simp_all)
  qed simp_all
qed

text \<open>What may be left in the queue: the beginning of the first message of \<open>ms\<close>.\<close>

definition pending :: "bytes \<Rightarrow> peer_message list \<Rightarrow> bool" where
  "pending p ms \<longleftrightarrow>
     (case ms of [] \<Rightarrow> p = [] | m # _ \<Rightarrow> (\<exists>r. frame m = p @ r \<and> r \<noteq> []))"

abbreviation wire :: "peer_message list \<Rightarrow> bytes" where
  "wire ms \<equiv> concat (map frame ms)"

lemma pending_Nil [simp]: "pending [] ms"
  by (auto simp: pending_def split: list.splits)

lemma pending_split:
  "q @ r = wire ms \<Longrightarrow> \<exists>ms1 ms2 p. ms = ms1 @ ms2 \<and> q = wire ms1 @ p \<and> pending p ms2"
proof (induction ms arbitrary: q)
  case Nil
  then show ?case by (intro exI [of _ "[]"]) (simp add: pending_def)
next
  case (Cons m ms)
  then have "q @ r = frame m @ wire ms" by simp
  then consider us where "frame m = q @ us" "us \<noteq> []" | us where "q = frame m @ us" "us @ r = wire ms"
    using append_eq_append_conv2 [of q r "frame m" "wire ms"] by (metis append.right_neutral append_Nil)
  then show ?case
  proof cases
    case (1 us)
    then have "pending q (m # ms)" by (auto simp: pending_def)
    then show ?thesis by (intro exI [of _ "[]"] exI [of _ "m # ms"] exI [of _ q]) simp
  next
    case (2 us)
    with Cons.IH [of us] obtain ms1 ms2 p where
      "ms = ms1 @ ms2" "us = wire ms1 @ p" "pending p ms2" by blast
    with 2 show ?thesis by (intro exI [of _ "m # ms1"] exI [of _ ms2] exI [of _ p]) auto
  qed
qed

text \<open>What is left of the stream after the complete messages gives no message.\<close>

lemma poll_pending:
  assumes "polled c p" "\<forall>m \<in> set ns. wf_message m" "pending p ns"
  shows "\<exists>l. receiveMessageNonBlocking c m0 = Ok (False, c, m0\<lparr>pm_length := l\<rparr>)"
proof (cases ns)
  case Nil
  with assms(1,3) have "receiveMessageNonBlocking c m0 = Ok (False, c, m0)"
    by (intro poll_empty) (simp add: pending_def)
  then show ?thesis by (intro exI [of _ "pm_length m0"]) simp
next
  case (Cons m ns')
  with assms(3) obtain r where r: "frame m = p @ r" "r \<noteq> []" by (auto simp: pending_def)
  have "wf_message m" using assms(2) Cons by simp
  with poll_partial [of c p m r m0] r assms(1) show ?thesis by simp
qed

lemma drain_wire:
  assumes "polled c (wire ms @ p)" "\<forall>m \<in> set (ms @ ns). wf_message m" "pending p ns" "length ms < f"
    "apply_all ms c m0 = Ok (out, c', m')"
  shows "\<exists>s l. drain f c m0 = Ok (out, c'\<lparr>pc_sock := Some s\<rparr>, m'\<lparr>pm_length := l\<rparr>) \<and>
    one_chunk s \<and> queued s = p \<and> pc_connected c'"
  using assms
proof (induction ms arbitrary: f c m0 out c' m')
  case Nil
  then obtain f' where f: "f = Suc f'" by (cases f) auto
  from Nil.prems(1) obtain s where s: "pc_sock c = Some s" "one_chunk s" "queued s = p" "pc_connected c"
    by (auto simp: polled_def)
  have o: "out = []" "c' = c" "m' = m0" using Nil.prems(5) by auto
  have sk: "c\<lparr>pc_sock := Some s\<rparr> = c" using s(1) by simp
  obtain l where "receiveMessageNonBlocking c m0 = Ok (False, c, m0\<lparr>pm_length := l\<rparr>)"
    using poll_pending [of c p ns m0] Nil.prems(1-3) by auto
  then show ?case using f s o sk by (intro exI [of _ s] exI [of _ l]) simp
next
  case (Cons m ms)
  then obtain f' where f: "f = Suc f'" "length ms < f'" by (cases f) auto
  have wf: "wf_message m" using Cons.prems(2) by simp
  obtain c1 out1 where a: "apply_message (received m0 m) c = Ok c1"
    "apply_all ms c1 (received m0 m) = Ok (out1, c', m')" "out = received m0 m # out1"
    using Cons.prems(5) by auto
  have "polled c (frame m @ (wire ms @ p))" using Cons.prems(1) by simp
  then obtain s1 where s1: "one_chunk s1" "queued s1 = wire ms @ p"
    "receiveMessageNonBlocking c m0 = Ok (True, c1\<lparr>pc_sock := Some s1\<rparr>, received m0 m)"
    using poll_frame [OF _ wf, of c "wire ms @ p" m0] a(1)
    by (metis apply_message_sock obind.simps(1))
  have "pc_connected c1" using apply_message_keeps [OF a(1)] Cons.prems(1) by (simp add: polled_def)
  then have pol: "polled (c1\<lparr>pc_sock := Some s1\<rparr>) (wire ms @ p)" using s1 by (simp add: polled_def)
  obtain l where "apply_all ms (c1\<lparr>pc_sock := Some s1\<rparr>) (received m0 m)
      = Ok (out1, c'\<lparr>pc_sock := Some s1\<rparr>, m'\<lparr>pm_length := l\<rparr>)"
    using apply_all_sock [OF a(2), of "Some s1" "pm_length (received m0 m)"] by auto
  from Cons.IH [OF pol _ Cons.prems(3) f(2) this] Cons.prems(2)
  obtain s l2 where "drain f' (c1\<lparr>pc_sock := Some s1\<rparr>) (received m0 m)
      = Ok (out1, c'\<lparr>pc_sock := Some s\<rparr>, m'\<lparr>pm_length := l2\<rparr>)"
    "one_chunk s" "queued s = p" "pc_connected c'" by auto
  with s1(3) f(1) a(3) show ?case by (intro exI [of _ s] exI [of _ l2]) simp
qed

lemma length_wire: "length ms \<le> length (wire ms)"
proof (induction ms)
  case (Cons m ms)
  moreover have "0 < length (frame m)" by simp
  ultimately show ?case by (simp del: frame_not_Nil length_greater_0_conv)
qed simp

lemma drain_segments_wire:
  assumes "polled c p" "pending p ms" "\<forall>m \<in> set ms. wf_message m" "p @ concat bs = wire ms"
    "apply_all ms c m0 = Ok (out, c', m')"
  shows "\<exists>s l. drain_segments bs c m0 = Ok (out, c'\<lparr>pc_sock := Some s\<rparr>, m'\<lparr>pm_length := l\<rparr>)"
  using assms
proof (induction bs arbitrary: c m0 p ms out c' m')
  case Nil
  have "ms = []"
  proof (cases ms)
    case (Cons m ms')
    with Nil.prems(2,4) show ?thesis by (auto simp: pending_def)
  qed
  moreover from Nil.prems(1) obtain s where "pc_sock c = Some s" by (auto simp: polled_def)
  ultimately show ?case using Nil.prems(5)
    by (intro exI [of _ s] exI [of _ "pm_length m0"]) (simp add: sock_same)
next
  case (Cons b bs)
  have "(p @ b) @ concat bs = wire ms" using Cons.prems(4) by simp
  from pending_split [OF this] obtain ms1 ms2 p' where
    sp: "ms = ms1 @ ms2" "p @ b = wire ms1 @ p'" "pending p' ms2" by blast
  have "wire ms1 @ (p' @ concat bs) = wire ms1 @ wire ms2"
    using Cons.prems(4) sp(1,2) by (simp flip: append_assoc)
  then have rest: "p' @ concat bs = wire ms2" by simp
  obtain o1 c1 m1 o2 where ap: "apply_all ms1 c m0 = Ok (o1, c1, m1)"
    "apply_all ms2 c1 m1 = Ok (o2, c', m')" "out = o1 @ o2"
    using Cons.prems(5) sp(1) by (auto simp: apply_all_append)
  have pol: "polled (arrive b c) (wire ms1 @ p')" using Cons.prems(1) sp(2)
    by (auto simp: polled_def arrive_def)
  have fuel: "length ms1 < Suc (length (conn_queued (arrive b c)))"
    using pol length_wire [of ms1] by (auto simp: polled_def conn_queued_def)
  have wf: "\<forall>m \<in> set (ms1 @ ms2). wf_message m" using Cons.prems(3) sp(1) by simp
  obtain l where ap1: "apply_all ms1 (arrive b c) m0
      = Ok (o1, c1\<lparr>pc_sock := pc_sock (arrive b c)\<rparr>, m1\<lparr>pm_length := l\<rparr>)"
    using apply_all_sock [OF ap(1), of "pc_sock (arrive b c)" "pm_length m0"]
    by (auto simp: arrive_def)
  obtain s2 l2 where d: "drain (Suc (length (conn_queued (arrive b c)))) (arrive b c) m0
      = Ok (o1, c1\<lparr>pc_sock := Some s2\<rparr>, m1\<lparr>pm_length := l2\<rparr>)" "one_chunk s2" "queued s2 = p'" "pc_connected c1"
    using drain_wire [OF pol wf sp(3) fuel ap1] by auto
  have pol2: "polled (c1\<lparr>pc_sock := Some s2\<rparr>) p'" using d by (simp add: polled_def)
  obtain l3 where ap2: "apply_all ms2 (c1\<lparr>pc_sock := Some s2\<rparr>) (m1\<lparr>pm_length := l2\<rparr>)
      = Ok (o2, c'\<lparr>pc_sock := Some s2\<rparr>, m'\<lparr>pm_length := l3\<rparr>)"
    using apply_all_sock [OF ap(2)] by blast
  from Cons.IH [OF pol2 sp(3) _ rest ap2] wf d(1) ap(3) show ?case by auto
qed


section \<open>The bitfield message\<close>

lemma bit_test: "j < 8 \<Longrightarrow> (b AND drop_bit j 0x80 \<noteq> 0) = bit (b :: byte) (7 - j)"
proof -
  assume j: "j < 8"
  have "drop_bit j (0x80 :: byte) = 2 ^ (7 - j)"
    using j by (intro bit_word_eqI) (auto simp: bit_simps bit_numeral_rec numeral_eq_Suc less_Suc_eq split: nat.splits)
  then show ?thesis by (simp add: and_exp_eq_0_iff_not_bit)
qed

lemma length_set_bits [simp]: "length (set_bits i b js bf) = length bf"
  by (induction i b js bf rule: set_bits.induct) auto

lemma set_bits_nth:
  "sorted js \<Longrightarrow> k < length bf \<Longrightarrow>
   set_bits i b js bf ! k = (bf ! k \<or> (\<exists>j \<in> set js. k = i * 8 + j \<and> b AND drop_bit j 0x80 \<noteq> 0))"
proof (induction i b js bf rule: set_bits.induct)
  case (2 i b j js bf)
  show ?case
  proof (cases "i * 8 + j < length bf")
    case True
    with 2 show ?thesis by (auto simp: nth_list_update)
  next
    case False
    with "2.prems" show ?thesis by auto
  qed
qed simp

lemma set_bits_byte:
  assumes "k < length bf"
  shows "set_bits i b [0..<8] bf ! k = (bf ! k \<or> (k div 8 = i \<and> bit b (7 - k mod 8)))"
proof -
  have "(\<exists>j \<in> set [0..<8]. k = i * 8 + j \<and> b AND drop_bit j 0x80 \<noteq> 0)
      = (k div 8 = i \<and> bit b (7 - k mod 8))"
  proof
    assume "\<exists>j \<in> set [0..<8]. k = i * 8 + j \<and> b AND drop_bit j 0x80 \<noteq> 0"
    then obtain j where "j < 8" "k = i * 8 + j" "b AND drop_bit j 0x80 \<noteq> 0" by auto
    then show "k div 8 = i \<and> bit b (7 - k mod 8)" using bit_test by simp
  next
    assume "k div 8 = i \<and> bit b (7 - k mod 8)"
    then show "\<exists>j \<in> set [0..<8]. k = i * 8 + j \<and> b AND drop_bit j 0x80 \<noteq> 0"
      using bit_test [of "k mod 8" b] by (intro bexI [of _ "k mod 8"]) auto
  qed
  with set_bits_nth [OF _ assms, of "[0..<8]" i b] show ?thesis by simp
qed

lemma length_set_bytes [simp]: "length (set_bytes i bs bf) = length bf"
  by (induction i bs bf rule: set_bytes.induct) auto

lemma set_bytes_nth:
  "k < length bf \<Longrightarrow>
   set_bytes i bs bf ! k =
     (bf ! k \<or> (i \<le> k div 8 \<and> k div 8 < i + length bs \<and> bit (bs ! (k div 8 - i)) (7 - k mod 8)))"
proof (induction i bs bf rule: set_bytes.induct)
  case (2 i b bs bf)
  show ?case
  proof (cases "i * 8 < length bf")
    case True
    with 2 show ?thesis
      by (cases "k div 8 = i")
         (auto simp: set_bits_byte nth_Cons' Suc_le_eq diff_diff_left simp del: upt_Suc upt_rec_numeral)
  next
    case False
    with "2.prems" have "\<not> i \<le> k div 8" by auto
    with False show ?thesis by simp
  qed
qed auto

lemma hasPiece_updateBitfield:
  "hasPiece (updateBitfield data c) k \<longleftrightarrow>
     k < numPieces (pc_torrent c) \<and> k div 8 < length data \<and> bit (data ! (k div 8)) (7 - k mod 8)"
  by (auto simp: hasPiece_def updateBitfield_def set_bytes_nth)

section \<open>The invariant of a connection\<close>

definition endpoint :: "peer \<Rightarrow> string \<times> 16 word" where
  "endpoint p = (pr_ip p, pr_port p)"

definition conn_inv :: "peer_conn \<Rightarrow> bool" where
  "conn_inv c \<longleftrightarrow>
     (pc_connected c \<longrightarrow> pc_sock c \<noteq> None) \<and>
     (pc_bitfield c = [] \<or> length (pc_bitfield c) = numPieces (pc_torrent c)) \<and>
     length (pc_discovered c) \<le> max_pex \<and> distinct (map endpoint (pc_discovered c)) \<and>
     (\<forall>p \<in> set (pc_discovered c). pr_port p \<noteq> 0 \<and> endpoint p \<noteq> (pc_ip c, pc_port c))"

lemma conn_inv_new: "conn_inv (new_conn ip port t peerId)"
  by (simp add: conn_inv_def new_conn_def max_pex_def)

lemma conn_inv_disconnect [simp]: "conn_inv c \<Longrightarrow> conn_inv (disconnect c)"
  by (simp add: conn_inv_def disconnect_def)

lemma conn_inv_flags [simp]:
  "conn_inv (c\<lparr>pc_amChoking := b\<rparr>) = conn_inv c" "conn_inv (c\<lparr>pc_amInterested := b\<rparr>) = conn_inv c"
  "conn_inv (c\<lparr>pc_peerChoking := b\<rparr>) = conn_inv c" "conn_inv (c\<lparr>pc_peerInterested := b\<rparr>) = conn_inv c"
  "conn_inv (c\<lparr>pc_supportsPex := b\<rparr>) = conn_inv c" "conn_inv (c\<lparr>pc_supportsExt := b\<rparr>) = conn_inv c"
  by (simp_all add: conn_inv_def)

lemma conn_inv_bitfield [simp]:
  "conn_inv c \<Longrightarrow> length bf = numPieces (pc_torrent c) \<Longrightarrow> conn_inv (c\<lparr>pc_bitfield := bf\<rparr>)"
  by (simp add: conn_inv_def)

lemma conn_recv_inv: "conn_inv c \<Longrightarrow> conn_recv n c = (r, c') \<Longrightarrow>
    conn_inv c' \<and> pc_torrent c' = pc_torrent c \<and> pc_connected c' = pc_connected c"
  by (auto simp: conn_recv_def conn_inv_def split: option.splits prod.splits)

lemma conn_send_inv: "conn_inv c \<Longrightarrow> conn_send d c = (r, c') \<Longrightarrow>
    conn_inv c' \<and> pc_torrent c' = pc_torrent c"
  by (auto simp: conn_send_def conn_inv_def split: option.splits prod.splits)

lemma sendMessage_inv: "conn_inv c \<Longrightarrow> sendMessage m c = (ok, c') \<Longrightarrow>
    conn_inv c' \<and> pc_torrent c' = pc_torrent c"
  by (auto simp: sendMessage_def split: if_splits prod.splits bool.splits dest: conn_send_inv)
     (auto dest: conn_send_inv simp: disconnect_def)

lemma pex_add_inv: "conn_inv c \<Longrightarrow> conn_inv (pex_add ps c)"
proof (induction ps c rule: pex_add.induct)
  case (2 p ps c)
  have "conn_inv (c\<lparr>pc_discovered := pc_discovered c @ [p]\<rparr>)"
    if "\<not> max_pex \<le> length (pc_discovered c)" "pr_port p \<noteq> 0" "endpoint p \<noteq> (pc_ip c, pc_port c)"
      "\<not> list_ex (\<lambda>q. same_peer q p) (pc_discovered c)"
    using that "2.prems" by (auto simp: conn_inv_def endpoint_def same_peer_def list_ex_iff)
  with 2 show ?case by (auto simp: endpoint_def)
qed simp

lemma apply_message_inv:
  assumes "conn_inv c" "apply_message m c = Ok c'"
  shows "conn_inv c'"
  using assms
  by (auto simp: apply_message_def updateBitfield_def processExtendedMessage_def
      process_extended_dict_def pex_add_inv Let_def conn_inv_def [of "c\<lparr>pc_bitfield := _\<rparr>"]
      split: message_id.splits if_splits outcome.splits bval.splits option.splits)
     (auto simp: conn_inv_def)

lemma read_body_inv:
  assumes "conn_inv c" "read_body c m = Ok (ok, c', m')"
  shows "conn_inv c'"
  using assms
  by (auto simp: read_body_def Let_def split: if_splits prod.splits bool.splits
      dest!: conn_recv_inv [rotated] dest: apply_message_inv)

lemma receiveMessageNonBlocking_inv:
  "conn_inv c \<Longrightarrow> receiveMessageNonBlocking c m = Ok (ok, c', m') \<Longrightarrow> conn_inv c'"
  by (auto simp: receiveMessageNonBlocking_def Let_def split: if_splits prod.splits bool.splits
      dest!: conn_recv_inv [rotated] dest: read_body_inv)

lemma receiveMessage_inv:
  "conn_inv c \<Longrightarrow> receiveMessage c m = Ok (ok, c', m') \<Longrightarrow> conn_inv c'"
  by (auto simp: receiveMessage_def Let_def split: if_splits prod.splits bool.splits
      dest!: conn_recv_inv [rotated] dest: read_body_inv)


section \<open>The handshake\<close>

lemma length_cstr20 [simp]: "length (cstr20 s) = 20"
  by (simp add: cstr20_def)

lemma cstr20_full: "length s = 20 \<Longrightarrow> cstr20 s = bytes_of_str s"
  by (simp add: cstr20_def)

lemma length_handshake_bytes [simp]: "length (handshake_bytes h p) = 68"
  by (simp add: handshake_bytes_def)

lemma handshake_bytes_ok: "handshake_ok (handshake_bytes h p) h"
  by (simp add: handshake_ok_def handshake_bytes_def nth_append drop_Cons' bytes_of_str_def)

lemma handshake_ok_info_hash:
  "length h = 20 \<Longrightarrow> length g = 20 \<Longrightarrow> handshake_ok (handshake_bytes h p) g \<longleftrightarrow> h = g"
  by (simp add: handshake_ok_def handshake_bytes_def nth_append drop_Cons' cstr20_full)

text \<open>What \<open>connect\<close> has established when it succeeds.\<close>

lemma performHandshake_ok:
  assumes "performHandshake c = (True, c')" "pc_sock c = Some s"
  obtains h where "h = take 68 (sk_stream s)" "length h = 68" "handshake_ok h (tInfoHash (pc_torrent c))"
    "pc_connected c'" "pc_bitfield c' = replicate (numPieces (pc_torrent c)) False"
    "pc_supportsExt c' = (h ! 25 AND 0x10 \<noteq> 0)" "pc_peerChoking c' = pc_peerChoking c"
    "pc_amInterested c'"
proof -
  obtain s1 where s1: "conn_send (handshake_bytes (tInfoHash (pc_torrent c)) (pc_peerId c)) c
      = (True, c\<lparr>pc_sock := Some s1\<rparr>)" "sk_rx s1 = sk_rx s"
    using assms by (auto simp: performHandshake_def conn_send_def split: prod.splits bool.splits dest!: sendAll_ok)
  obtain ok h c2 where r: "conn_recv 68 (c\<lparr>pc_sock := Some s1\<rparr>) = ((ok, h), c2)" by (metis surj_pair)
  have ok: "ok" "handshake_ok h (tInfoHash (pc_torrent c))"
    using assms(1) s1(1) r by (auto simp: performHandshake_def split: if_splits bool.splits)
  obtain s2 where s2: "recvAll 68 s1 = ((True, h), s2)" "c2 = c\<lparr>pc_sock := Some s2\<rparr>"
    using r ok by (auto simp: conn_recv_def split: prod.splits)
  note h = recvAll_ok(2,7) [OF s2(1)]
  define c3 where "c3 = c2\<lparr>pc_supportsExt := (h ! 25 AND 0x10 \<noteq> 0),
                            pc_bitfield := replicate (numPieces (pc_torrent c)) False\<rparr>"
  have t: "pc_torrent c2 = pc_torrent c" by (simp add: s2)
  obtain c4 where c4: "sendInterested c3 = (True, c4)"
      "(if pc_supportsExt c4 then sendExtensionHandshake c4 else (True, c4)) = (True, c')"
    using assms(1) s1(1) r ok t
    by (auto simp: performHandshake_def Let_def c3_def [symmetric] split: if_splits bool.splits prod.splits)
  from c4(1) obtain s4 where e4: "pc_connected c3" "c4 = c3\<lparr>pc_amInterested := True, pc_sock := Some s4\<rparr>"
    unfolding sendInterested_def by (rule sendMessage_ok) auto
  have "c' = c4 \<or> (\<exists>s5. c' = c4\<lparr>pc_sock := Some s5\<rparr>)"
  proof (cases "pc_supportsExt c4")
    case True
    with c4(2) show ?thesis
      by (auto simp: sendExtensionHandshake_def Let_def elim!: sendMessage_ok)
  qed (use c4(2) in auto)
  then have "pc_connected c'" "pc_bitfield c' = replicate (numPieces (pc_torrent c)) False"
    "pc_supportsExt c' = (h ! 25 AND 0x10 \<noteq> 0)" "pc_peerChoking c' = pc_peerChoking c" "pc_amInterested c'"
    using e4 by (auto simp: c3_def s2(2))
  with h ok that [of h] s1(2) show thesis by simp
qed

lemma connect_fail: "connect env c = (False, c') \<Longrightarrow> pc_connected c' = False"
  by (auto simp: connect_def disconnect_def Let_def split: if_splits prod.splits bool.splits)

lemma connect_ok:
  assumes "connect env c = (True, c')" "\<not> pc_connected c"
  obtains h where "h = take 68 (sk_stream (ce_sock env))" "length h = 68"
    "handshake_ok h (tInfoHash (pc_torrent c))" "pc_connected c'"
    "pc_bitfield c' = replicate (numPieces (pc_torrent c)) False" "pc_peerChoking c' = pc_peerChoking c"
proof -
  have "performHandshake (c\<lparr>pc_sock := Some (ce_sock env), pc_connected := True\<rparr>) = (True, c')"
    using assms by (auto simp: connect_def Let_def split: if_splits prod.splits bool.splits)
  then show thesis
  proof (rule performHandshake_ok)
    show "pc_sock (c\<lparr>pc_sock := Some (ce_sock env), pc_connected := True\<rparr>) = Some (ce_sock env)" by simp
  next
    fix h assume "h = take 68 (sk_stream (ce_sock env))" "length h = 68"
      "handshake_ok h (tInfoHash (pc_torrent (c\<lparr>pc_sock := Some (ce_sock env), pc_connected := True\<rparr>)))"
      "pc_connected c'"
      "pc_bitfield c' = replicate (numPieces (pc_torrent (c\<lparr>pc_sock := Some (ce_sock env), pc_connected := True\<rparr>))) False"
      "pc_peerChoking c' = pc_peerChoking (c\<lparr>pc_sock := Some (ce_sock env), pc_connected := True\<rparr>)"
    with that [of h] show thesis by simp
  qed
qed

section \<open>Reading one block\<close>

text \<open>A block message for the place asked, of the length asked, is read whatever precedes
  it: keep-alives and messages of other kinds are skipped.\<close>

definition block_message :: "32 word \<Rightarrow> 32 word \<Rightarrow> bytes \<Rightarrow> peer_message" where
  "block_message piece off d =
     \<lparr>pm_length = of_nat (9 + length d), pm_id = Block, pm_payload = be32 piece @ be32 off @ d\<rparr>"

lemma unat_of_nat32: "n < 2 ^ 32 \<Longrightarrow> unat (of_nat n :: 32 word) = n"
  by (simp add: unsigned_of_nat take_bit_eq_mod)

lemma block_message_wf: "9 + length d \<le> max_message \<Longrightarrow> wf_message (block_message piece off d)"
proof -
  assume l: "9 + length d \<le> max_message"
  then have u: "unat (of_nat (9 + length d) :: 32 word) = 9 + length d"
    by (intro unat_of_nat32) (simp add: max_message_def)
  then have "(of_nat (9 + length d) :: 32 word) \<noteq> 0" by (metis add_is_0 unat_0 zero_neq_numeral)
  with u l show ?thesis
    by (simp add: block_message_def wf_message_def id_of_byte_def del: of_nat_add)
qed


lemma skip_stream:
  assumes "pc_sock c = Some s" "sk_stream s = a @ r" "length a = n"
  obtains s' where "skip n c = (True, c\<lparr>pc_sock := Some s'\<rparr>)" "sk_stream s' = r"
proof (rule conn_recv_stream [OF assms])
  fix s' assume "conn_recv n c = ((True, a), c\<lparr>pc_sock := Some s'\<rparr>)" "sk_stream s' = r"
  then show thesis using that [of s'] by (simp add: skip_def)
qed

lemma recv_frame_start:
  assumes "pc_sock c = Some s" "sk_stream s = frame m @ r" "wf_message m" "pm_length m \<noteq> 0"
  obtains s1 s2 where "conn_recv 4 c = ((True, be32 (pm_length m)), c\<lparr>pc_sock := Some s1\<rparr>)"
    "conn_recv 1 (c\<lparr>pc_sock := Some s1\<rparr>) = ((True, [byte_of_id (pm_id m)]), c\<lparr>pc_sock := Some s2\<rparr>)"
    "sk_stream s2 = pm_payload m @ r"
  by (rule conn_source.rd_two [of c "be32 (pm_length m)" "[byte_of_id (pm_id m)]" "pm_payload m @ r" 4 1])
     (use assms that in \<open>auto simp: conn_stream_def same_but_read_def frame_def word_gt_0\<close>)

lemma readBlock_step_skip:
  assumes "pc_sock c = Some s" "sk_stream s = frame m @ r" "wf_message m" "pm_id m \<noteq> Block"
  obtains s' where "readBlock_step piece off len c t data = Continue (c\<lparr>pc_sock := Some s'\<rparr>) t data"
    "sk_stream s' = r"
proof (cases "pm_length m = 0")
  case True
  with assms have "sk_stream s = be32 0 @ r" by (simp add: frame_def)
  then obtain s' where "conn_recv 4 c = ((True, be32 0), c\<lparr>pc_sock := Some s'\<rparr>)" "sk_stream s' = r"
    using conn_recv_stream [OF assms(1), of "be32 0" r 4] by auto
  with that [of s'] show thesis by (simp add: readBlock_step_def)
next
  case False
  obtain s1 s2 where s: "conn_recv 4 c = ((True, be32 (pm_length m)), c\<lparr>pc_sock := Some s1\<rparr>)"
    "conn_recv 1 (c\<lparr>pc_sock := Some s1\<rparr>) = ((True, [byte_of_id (pm_id m)]), c\<lparr>pc_sock := Some s2\<rparr>)"
    "sk_stream s2 = pm_payload m @ r"
    using recv_frame_start [OF assms(1-3) False] by blast
  have m: "unat (pm_length m) = 1 + length (pm_payload m)" "id_of_byte (byte_of_id (pm_id m)) = pm_id m"
    using assms(3) False by (simp_all add: wf_message_def)
  obtain s3 where "skip (length (pm_payload m)) (c\<lparr>pc_sock := Some s2\<rparr>) = (True, c\<lparr>pc_sock := Some s3\<rparr>)"
    "sk_stream s3 = r"
    using skip_stream [of "c\<lparr>pc_sock := Some s2\<rparr>" s2 "pm_payload m" r] s(3) by auto
  with that [of s3] s m wf_message_small [OF assms(3)] assms(4) show thesis
    by (simp add: readBlock_step_def Let_def)
qed

lemma readBlock_step_block:
  assumes "pc_sock c = Some s" "sk_stream s = frame (block_message piece off d) @ r"
    "9 + length d \<le> max_message" "length d = unat len" "length data = unat len"
  obtains s' where "readBlock_step piece off len c 0 data = Continue (c\<lparr>pc_sock := Some s'\<rparr>) (unat len) d"
    "sk_stream s' = r"
proof -
  let ?m = "block_message piece off d"
  note wf = block_message_wf [OF assms(3), of piece off]
  have u: "unat (pm_length ?m) = 9 + length d"
    using assms(3) unat_of_nat32 [of "9 + length d"]
    by (simp add: block_message_def max_message_def del: of_nat_add)
  then have nz: "pm_length ?m \<noteq> 0" by (metis add_is_0 unat_0 zero_neq_numeral)
  obtain s1 s2 where s: "conn_recv 4 c = ((True, be32 (pm_length ?m)), c\<lparr>pc_sock := Some s1\<rparr>)"
    "conn_recv 1 (c\<lparr>pc_sock := Some s1\<rparr>) = ((True, [7]), c\<lparr>pc_sock := Some s2\<rparr>)"
    "sk_stream s2 = be32 piece @ be32 off @ d @ r"
    using recv_frame_start [OF assms(1,2) wf nz] by (auto simp: block_message_def)
  obtain s3 where s3: "conn_recv 4 (c\<lparr>pc_sock := Some s2\<rparr>) = ((True, be32 piece), c\<lparr>pc_sock := Some s3\<rparr>)"
    "sk_stream s3 = be32 off @ d @ r"
    using conn_recv_stream [of "c\<lparr>pc_sock := Some s2\<rparr>" s2 "be32 piece" "be32 off @ d @ r" 4] s(3) by auto
  obtain s4 where s4: "conn_recv 4 (c\<lparr>pc_sock := Some s3\<rparr>) = ((True, be32 off), c\<lparr>pc_sock := Some s4\<rparr>)"
    "sk_stream s4 = d @ r"
    using conn_recv_stream [of "c\<lparr>pc_sock := Some s3\<rparr>" s3 "be32 off" "d @ r" 4] s3 by auto
  obtain s5 where s5: "conn_recv (unat len) (c\<lparr>pc_sock := Some s4\<rparr>) = ((True, d), c\<lparr>pc_sock := Some s5\<rparr>)"
    "sk_stream s5 = r"
    using conn_recv_stream [of "c\<lparr>pc_sock := Some s4\<rparr>" s4 d r "unat len"] s4 assms(4) by auto
  have "splice 0 d data = d" using assms(4,5) by (simp add: splice_def)
  with that [of s5] s s3 s4 s5 u assms(3,4) show thesis
    by (simp add: readBlock_step_def Let_def id_of_byte_def del: unat_0)
qed

lemma readBlock_loop_finds:
  assumes "pc_sock c = Some s" "sk_stream s = wire ms @ frame (block_message piece off d) @ r"
    "\<forall>m \<in> set ms. wf_message m \<and> pm_id m \<noteq> Block"
    "9 + length d \<le> max_message" "length d = unat len" "0 < unat len" "length data = unat len"
  shows "\<exists>s'. readBlock_loop piece off len c 0 data = (True, c\<lparr>pc_sock := Some s'\<rparr>, d) \<and> sk_stream s' = r"
  using assms
proof (induction ms arbitrary: c s)
  case Nil
  then have "sk_stream s = frame (block_message piece off d) @ r" by simp
  from readBlock_step_block [OF Nil.prems(1) this Nil.prems(4,5,7)]
  obtain s' where "readBlock_step piece off len c 0 data = Continue (c\<lparr>pc_sock := Some s'\<rparr>) (unat len) d"
    "sk_stream s' = r" by blast
  with Nil.prems(6) show ?case
    by (intro exI [of _ s']) (simp add: readBlock_loop.simps [of piece off len c 0 data]
        readBlock_loop.simps [of piece off len _ "unat len"])
next
  case (Cons m ms)
  then have "sk_stream s = frame m @ (wire ms @ frame (block_message piece off d) @ r)"
    "wf_message m" "pm_id m \<noteq> Block" by auto
  from readBlock_step_skip [OF Cons.prems(1) this]
  obtain s1 where s1: "readBlock_step piece off len c 0 data = Continue (c\<lparr>pc_sock := Some s1\<rparr>) 0 data"
    "sk_stream s1 = wire ms @ frame (block_message piece off d) @ r" by blast
  have "\<exists>s'. readBlock_loop piece off len (c\<lparr>pc_sock := Some s1\<rparr>) 0 data
      = (True, (c\<lparr>pc_sock := Some s1\<rparr>)\<lparr>pc_sock := Some s'\<rparr>, d) \<and> sk_stream s' = r"
    using Cons.prems s1(2) by (intro Cons.IH) auto
  with s1(1) Cons.prems(6) show ?case by (simp add: readBlock_loop.simps [of piece off len c 0 data])
qed

end
