(* ===== verification/Transition.thy ===== *)
theory Transition
  imports Main
begin

text \<open>
  Reachable states of a step relation, and the contract of an invariant: it holds initially and
  every step keeps it. The components that keep state interpret the contract on their own
  operations.
\<close>

inductive reaches :: "('s \<Rightarrow> bool) \<Rightarrow> ('s \<Rightarrow> 's \<Rightarrow> bool) \<Rightarrow> 's \<Rightarrow> bool" for init step where
  reaches_init [intro]: "init s \<Longrightarrow> reaches init step s"
| reaches_step [intro]: "reaches init step s \<Longrightarrow> step s s' \<Longrightarrow> reaches init step s'"

lemma reaches_star: "step\<^sup>*\<^sup>* s s' \<Longrightarrow> reaches init step s \<Longrightarrow> reaches init step s'"
  by (induction rule: rtranclp_induct) auto

text \<open>What all steps respect, all paths respect.\<close>

locale preserved_relation =
  fixes step :: "'s \<Rightarrow> 's \<Rightarrow> bool" and rel :: "'s \<Rightarrow> 's \<Rightarrow> bool"
  assumes rel_refl: "rel s s"
    and rel_trans: "rel a b \<Longrightarrow> rel b c \<Longrightarrow> rel a c"
    and step_rel: "step s s' \<Longrightarrow> rel s s'"
begin

lemma star_rel: "step\<^sup>*\<^sup>* s s' \<Longrightarrow> rel s s'"
  by (induction rule: rtranclp_induct) (auto intro: rel_refl rel_trans step_rel)

end

locale invariant_system =
  fixes init :: "'s \<Rightarrow> bool" and step :: "'s \<Rightarrow> 's \<Rightarrow> bool" and inv :: "'s \<Rightarrow> bool"
  assumes init_inv: "init s \<Longrightarrow> inv s"
    and step_inv: "inv s \<Longrightarrow> step s s' \<Longrightarrow> inv s'"

sublocale invariant_system \<subseteq> kept: preserved_relation step "\<lambda>s s'. inv s \<longrightarrow> inv s'"
  by unfold_locales (auto intro: step_inv)

context invariant_system begin

lemma star_inv: "step\<^sup>*\<^sup>* s s' \<Longrightarrow> inv s \<Longrightarrow> inv s'"
  using kept.star_rel by blast

lemma reachable_inv: "reaches init step s \<Longrightarrow> inv s"
  by (induction rule: reaches.induct) (auto intro: init_inv step_inv)

end

end
