(* ===== verification/Tracker_Manager.thy ===== *)
theory Tracker_Manager
  imports Tracker Transition "HOL-Library.Sublist"
begin

text \<open>
  Models \<open>src/tracker_manager.cpp\<close>: the announce strategy. Times are readings of the steady
  clock in nanoseconds; where an operation reads the clock more than once, the readings are
  a sequence \<open>clk\<close>.
\<close>

record tracker_state =
  ts_url :: string
  ts_failures :: int
  ts_interval :: int
  ts_lastPeerCount :: int
  ts_everSucceeded :: bool
  ts_nextAllowed :: int
  ts_lastAttempt :: int

record tracker_manager =
  tm_trackers :: "tracker_state list"
  tm_preferred :: string

definition new_tracker :: "string \<Rightarrow> tracker_state" where
  "new_tracker url = \<lparr>ts_url = url, ts_failures = 0, ts_interval = 1800, ts_lastPeerCount = 0,
     ts_everSucceeded = False, ts_nextAllowed = 0, ts_lastAttempt = 0\<rparr>"

definition tm_add :: "string \<Rightarrow> tracker_manager \<Rightarrow> tracker_manager" where
  "tm_add url tm =
     (if url = [] then tm
      else if \<exists>t \<in> set (tm_trackers tm). ts_url t = url then tm
      else tm\<lparr>tm_trackers := tm_trackers tm @ [new_tracker url]\<rparr>)"

definition tm_addAll :: "string list \<Rightarrow> tracker_manager \<Rightarrow> tracker_manager" where
  "tm_addAll urls tm = fold tm_add urls tm"

definition tm_new :: "string list \<Rightarrow> tracker_manager" where
  "tm_new urls = tm_addAll urls \<lparr>tm_trackers = [], tm_preferred = []\<rparr>"

definition backoffSeconds :: "int \<Rightarrow> int" where
  "backoffSeconds n = min (30 * 2 ^ nat (min n 12)) 1800"

definition seconds :: "int \<Rightarrow> int" where
  "seconds s = s * 1000000000"

definition tracker_before :: "string \<Rightarrow> tracker_state \<Rightarrow> tracker_state \<Rightarrow> bool" where
  "tracker_before preferred a b =
     (if ts_url a = preferred then True
      else if ts_url b = preferred then False
      else if ts_failures a \<noteq> ts_failures b then ts_failures a < ts_failures b
      else ts_lastAttempt a < ts_lastAttempt b)"

definition due_states :: "int \<Rightarrow> tracker_manager \<Rightarrow> tracker_state list" where
  "due_states now tm = filter (\<lambda>st. ts_nextAllowed st \<le> now) (tm_trackers tm)"

definition dueTrackers :: "int \<Rightarrow> tracker_manager \<Rightarrow> string list" where
  "dueTrackers now tm = map ts_url (std_sort (tracker_before (tm_preferred tm)) (due_states now tm))"

text \<open>The loops that look a URL up change the first tracker that has it.\<close>

fun update_first :: "string \<Rightarrow> (tracker_state \<Rightarrow> tracker_state) \<Rightarrow> tracker_state list \<Rightarrow> tracker_state list" where
  "update_first url f [] = []"
| "update_first url f (t # ts) = (if ts_url t = url then f t # ts else t # update_first url f ts)"

definition reportSuccess :: "int \<Rightarrow> string \<Rightarrow> tracker_response \<Rightarrow> tracker_manager \<Rightarrow> tracker_manager" where
  "reportSuccess now url resp tm =
     tm\<lparr>tm_preferred := url,
        tm_trackers := update_first url
          (\<lambda>st. st\<lparr>ts_failures := 0, ts_everSucceeded := True,
                   ts_interval := (if 0 < trInterval resp then trInterval resp else 1800),
                   ts_lastPeerCount := int (length (trPeers resp)),
                   ts_nextAllowed := now\<rparr>) (tm_trackers tm)\<rparr>"

definition reportFailure :: "int \<Rightarrow> string \<Rightarrow> tracker_manager \<Rightarrow> tracker_manager" where
  "reportFailure now url tm =
     tm\<lparr>tm_trackers := update_first url
          (\<lambda>st. st\<lparr>ts_failures := ts_failures st + 1,
                   ts_nextAllowed := now + seconds (backoffSeconds (ts_failures st + 1))\<rparr>)
          (tm_trackers tm)\<rparr>"

text \<open>
  \<open>contact\<close>: \<open>clk 0\<close> is read on entry, \<open>clk 1\<close> by \<open>dueTrackers\<close>, and \<open>clk (2 + n)\<close> when the
  answer of attempt \<open>n\<close> is reported; \<open>ask n url\<close> is what contacting the tracker gives. The
  last component of the result lists the URLs that were contacted.
\<close>

fun contact_loop :: "(nat \<Rightarrow> int) \<Rightarrow> (nat \<Rightarrow> string \<Rightarrow> (berror, tracker_response) outcome) \<Rightarrow> nat \<Rightarrow>
    string list \<Rightarrow> nat \<Rightarrow> tracker_response \<Rightarrow> tracker_manager \<Rightarrow> string list \<Rightarrow>
    (berror, tracker_response \<times> tracker_manager \<times> string list) outcome" where
  "contact_loop clk ask maxAttempts [] n lastResponse tm asked = Ok (lastResponse, tm, asked)"
| "contact_loop clk ask maxAttempts (url # urls) n lastResponse tm asked =
     (if maxAttempts \<le> n then Ok (lastResponse, tm, asked)
      else let tm1 = tm\<lparr>tm_trackers :=
                 update_first url (\<lambda>st. st\<lparr>ts_lastAttempt := clk 0\<rparr>) (tm_trackers tm)\<rparr> in
        obind (ask n url) (\<lambda>resp.
          if response_ok resp then Ok (resp, reportSuccess (clk (2 + n)) url resp tm1, asked @ [url])
          else contact_loop clk ask maxAttempts urls (n + 1) resp
                 (reportFailure (clk (2 + n)) url tm1) (asked @ [url])))"

definition no_trackers :: tracker_response where
  "no_trackers = default_response\<lparr>trFailure :=
     ''No trackers available (none configured or all in backoff)''\<rparr>"

definition tm_contact :: "(nat \<Rightarrow> int) \<Rightarrow> (nat \<Rightarrow> tracker_env) \<Rightarrow> torrent_info \<Rightarrow> string \<Rightarrow>
    int \<Rightarrow> int \<Rightarrow> int \<Rightarrow> string \<Rightarrow> nat \<Rightarrow> tracker_manager \<Rightarrow>
    (berror, tracker_response \<times> tracker_manager \<times> string list) outcome" where
  "tm_contact clk env t peerId downloaded uploaded remaining event maxAttempts tm =
     contact_loop clk
       (\<lambda>n url. contactTracker (env n) url t peerId downloaded uploaded remaining event)
       maxAttempts (dueTrackers (clk 1) tm) 0 no_trackers tm []"

section \<open>Invariant: every URL once\<close>

definition tm_inv :: "tracker_manager \<Rightarrow> bool" where
  "tm_inv tm \<longleftrightarrow> distinct (map ts_url (tm_trackers tm)) \<and> [] \<notin> ts_url ` set (tm_trackers tm) \<and>
     (\<forall>t \<in> set (tm_trackers tm). 0 \<le> ts_failures t)"

lemma tm_inv_add: "tm_inv tm \<Longrightarrow> tm_inv (tm_add url tm)"
  by (auto simp: tm_inv_def tm_add_def new_tracker_def)

lemma tm_inv_addAll: "tm_inv tm \<Longrightarrow> tm_inv (tm_addAll urls tm)"
  unfolding tm_addAll_def by (induction urls arbitrary: tm) (auto intro: tm_inv_add)

lemma tm_inv_new: "tm_inv (tm_new urls)"
  unfolding tm_new_def by (rule tm_inv_addAll) (simp add: tm_inv_def)

lemma map_url_update_first:
  "(\<And>t. ts_url (f t) = ts_url t) \<Longrightarrow> map ts_url (update_first url f ts) = map ts_url ts"
  by (induction ts) auto

lemma set_update_first:
  "t \<in> set (update_first url f ts) \<Longrightarrow> t \<in> set ts \<or> (\<exists>u \<in> set ts. ts_url u = url \<and> t = f u)"
  by (induction ts) (auto split: if_splits)

lemma tm_inv_update_first:
  assumes "tm_inv tm" "\<And>t. ts_url (f t) = ts_url t" "\<And>t. 0 \<le> ts_failures t \<Longrightarrow> 0 \<le> ts_failures (f t)"
  shows "tm_inv (tm\<lparr>tm_trackers := update_first url f (tm_trackers tm)\<rparr>)"
proof -
  have "ts_url ` set (update_first url f (tm_trackers tm)) = ts_url ` set (tm_trackers tm)"
    by (metis assms(2) list.set_map map_url_update_first)
  with assms show ?thesis
    by (auto simp: tm_inv_def map_url_update_first dest!: set_update_first)
qed

lemma tm_inv_preferred [simp]: "tm_inv (tm\<lparr>tm_preferred := p\<rparr>) = tm_inv tm"
  by (simp add: tm_inv_def)

lemma tm_inv_reportSuccess: "tm_inv tm \<Longrightarrow> tm_inv (reportSuccess now url resp tm)"
  unfolding reportSuccess_def
  using tm_inv_update_first [of "tm\<lparr>tm_preferred := url\<rparr>"] by simp

lemma tm_inv_reportFailure: "tm_inv tm \<Longrightarrow> tm_inv (reportFailure now url tm)"
  unfolding reportFailure_def by (rule tm_inv_update_first) auto

lemma tm_inv_contact_loop:
  "tm_inv tm \<Longrightarrow> contact_loop clk ask m urls n l tm asked = Ok (r, tm', asked') \<Longrightarrow> tm_inv tm'"
proof (induction urls arbitrary: n l tm asked)
  case (Cons url urls)
  have "tm_inv (tm\<lparr>tm_trackers :=
      update_first url (\<lambda>st. st\<lparr>ts_lastAttempt := clk 0\<rparr>) (tm_trackers tm)\<rparr>)"
    using Cons.prems(1) by (rule tm_inv_update_first) auto
  with Cons.prems show ?case
    by (auto simp: Let_def split: if_splits
        intro: tm_inv_reportSuccess Cons.IH [OF tm_inv_reportFailure])
qed simp

lemma tm_inv_contact:
  "tm_inv tm \<Longrightarrow> tm_contact clk env t pid d u r e m tm = Ok (resp, tm', asked) \<Longrightarrow> tm_inv tm'"
  unfolding tm_contact_def by (rule tm_inv_contact_loop)

text \<open>The operations of the manager as steps from a new one.\<close>

inductive tm_step :: "tracker_manager \<Rightarrow> tracker_manager \<Rightarrow> bool" where
  tm_adding: "tm_step tm (tm_add url tm)"
| tm_adding_all: "tm_step tm (tm_addAll urls tm)"
| tm_succeeding: "tm_step tm (reportSuccess now url resp tm)"
| tm_failing: "tm_step tm (reportFailure now url tm)"
| tm_contacting: "tm_contact clk env t pid d u r e m tm = Ok (resp, tm', asked) \<Longrightarrow> tm_step tm tm'"

inductive_cases tm_stepE: "tm_step tm tm'"

lemma tm_inv_step: "tm_inv tm \<Longrightarrow> tm_step tm tm' \<Longrightarrow> tm_inv tm'"
  by (erule tm_stepE)
     (auto intro: tm_inv_add tm_inv_addAll tm_inv_reportSuccess tm_inv_reportFailure tm_inv_contact)

definition tm_initial :: "tracker_manager \<Rightarrow> bool" where
  "tm_initial tm \<longleftrightarrow> (\<exists>urls. tm = tm_new urls)"

interpretation trackers: invariant_system tm_initial tm_step tm_inv
  by unfold_locales (auto simp: tm_initial_def intro: tm_inv_new tm_inv_step)

abbreviation tm_reachable :: "tracker_manager \<Rightarrow> bool" where
  "tm_reachable \<equiv> reaches tm_initial tm_step"

text \<open>Trackers are never forgotten and keep their order.\<close>

abbreviation tm_urls :: "tracker_manager \<Rightarrow> string list" where
  "tm_urls tm \<equiv> map ts_url (tm_trackers tm)"

lemma urls_add: "prefix (tm_urls tm) (tm_urls (tm_add url tm))"
  by (simp add: tm_add_def)

lemma urls_addAll: "prefix (tm_urls tm) (tm_urls (tm_addAll urls tm))"
  unfolding tm_addAll_def
  by (induction urls arbitrary: tm) (auto intro: prefix_order.trans urls_add)

lemma urls_report [simp]:
  "tm_urls (reportSuccess now url resp tm) = tm_urls tm" "tm_urls (reportFailure now url tm) = tm_urls tm"
  by (simp_all add: reportSuccess_def reportFailure_def map_url_update_first)

lemma urls_contact_loop:
  "contact_loop clk ask m urls n l tm asked = Ok (r, tm', asked') \<Longrightarrow> tm_urls tm' = tm_urls tm"
proof (induction urls arbitrary: n l tm asked)
  case (Cons url urls)
  from Cons.prems show ?case
    by (auto simp: Let_def map_url_update_first split: if_splits dest!: Cons.IH)
qed simp

interpretation tracker_list: preserved_relation tm_step "\<lambda>tm tm'. prefix (tm_urls tm) (tm_urls tm')"
proof unfold_locales
  show "prefix (tm_urls tm) (tm_urls tm')" if "tm_step tm tm'" for tm tm'
    using that by (rule tm_stepE) (auto simp: urls_add urls_addAll tm_contact_def dest: urls_contact_loop)
qed auto

lemma tm_inv_url_inj: "tm_inv tm \<Longrightarrow> inj_on ts_url (set (tm_trackers tm))"
  by (simp add: tm_inv_def distinct_map)

section \<open>Backoff\<close>

lemma backoff_bounds: "1 \<le> n \<Longrightarrow> 60 \<le> backoffSeconds n \<and> backoffSeconds n \<le> 1800"
proof -
  assume n: "1 \<le> n"
  then have "(2::int) ^ 1 \<le> 2 ^ nat (min n 12)" by (intro power_increasing) auto
  then show ?thesis by (simp add: backoffSeconds_def)
qed

lemma backoff_doubles:
  assumes "0 \<le> n"
  shows "backoffSeconds (n + 1) = min (2 * backoffSeconds n) 1800"
proof (cases "n < 12")
  case True
  have "nat (min (n + 1) 12) = Suc (nat (min n 12))" using assms True by (simp add: min_def nat_add_distrib)
  then show ?thesis by (simp add: backoffSeconds_def min_def)
next
  case False
  then show ?thesis by (simp add: backoffSeconds_def)
qed

lemma reportFailure_backs_off:
  assumes "tm_inv tm" "st \<in> set (tm_trackers (reportFailure now url tm))" "ts_url st = url"
  shows "1 \<le> ts_failures st \<and> ts_nextAllowed st = now + seconds (backoffSeconds (ts_failures st))"
proof -
  have "distinct (map ts_url ts) \<Longrightarrow> st \<in> set (update_first url f ts) \<Longrightarrow> ts_url st = url \<Longrightarrow>
      (\<And>t. ts_url (f t) = ts_url t) \<Longrightarrow> \<exists>u \<in> set ts. st = f u" for f ts
    by (induction ts) (auto split: if_splits)
  from this [OF _ assms(2) [unfolded reportFailure_def, simplified] assms(3)] assms(1)
  show ?thesis by (auto simp: tm_inv_def)
qed

section \<open>Order of the due trackers\<close>

lemma tracker_before_weak_order:
  "inj_on ts_url A \<Longrightarrow> weak_order_on A (tracker_before p)"
  unfolding weak_order_on_def tracker_before_def
  by (intro conjI ballI impI) (auto split: if_splits dest: inj_onD)

lemma due_states_distinct:
  assumes "tm_inv tm"
  shows "distinct (due_states now tm)" "inj_on ts_url (set (due_states now tm))"
proof -
  show "distinct (due_states now tm)"
    using assms by (auto simp: due_states_def tm_inv_def distinct_map)
  show "inj_on ts_url (set (due_states now tm))"
    using tm_inv_url_inj [OF assms] by (rule inj_on_subset) (auto simp: due_states_def)
qed

lemma set_dueTrackers:
  "set (dueTrackers now tm) = ts_url ` {st \<in> set (tm_trackers tm). ts_nextAllowed st \<le> now}"
  by (simp add: dueTrackers_def ssort.srt_set due_states_def)

lemma distinct_dueTrackers: "tm_inv tm \<Longrightarrow> distinct (dueTrackers now tm)"
  using due_states_distinct [of tm now]
  by (simp add: dueTrackers_def distinct_map ssort.srt_distinct ssort.srt_set)

lemma dueTrackers_sorted:
  "tm_inv tm \<Longrightarrow> sorted_wrt (\<lambda>a b. \<not> tracker_before (tm_preferred tm) b a)
     (std_sort (tracker_before (tm_preferred tm)) (due_states now tm))"
  by (intro ssort.srt_sorted due_states_distinct tracker_before_weak_order)

lemma preferred_first:
  assumes "tm_inv tm" "tm_preferred tm \<in> set (dueTrackers now tm)"
  shows "hd (dueTrackers now tm) = tm_preferred tm"
proof -
  obtain st where st: "st \<in> set (due_states now tm)" "ts_url st = tm_preferred tm"
    using assms(2) by (auto simp: dueTrackers_def ssort.srt_set)
  have "hd (std_sort (tracker_before (tm_preferred tm)) (due_states now tm)) = st"
    using due_states_distinct [OF assms(1), of now] st
    by (intro ssort.srt_first tracker_before_weak_order) (auto simp: tracker_before_def)
  moreover have "std_sort (tracker_before (tm_preferred tm)) (due_states now tm) \<noteq> []"
    using st by auto
  ultimately show ?thesis using st by (simp add: dueTrackers_def hd_map)
qed

section \<open>One cycle of contacts\<close>

lemma contact_loop_asked:
  assumes "contact_loop clk ask m urls n l tm asked = Ok (r, tm', asked')" "n \<le> m"
  shows "\<exists>k. asked' = asked @ take k urls \<and> n + k \<le> m"
  using assms
proof (induction urls arbitrary: n l tm asked)
  case (Cons url urls)
  show ?case
  proof (cases "m \<le> n")
    case True
    with Cons.prems show ?thesis by (intro exI [of _ 0]) simp
  next
    case False
    with Cons.prems obtain resp where resp: "ask n url = Ok resp" by (auto simp: Let_def)
    show ?thesis
    proof (cases "response_ok resp")
      case True
      with Cons.prems False resp show ?thesis by (intro exI [of _ 1]) (simp add: Let_def)
    next
      case bad: False
      with Cons.prems False resp Cons.IH obtain k where
        "asked' = (asked @ [url]) @ take k urls" "n + 1 + k \<le> m"
        by (fastforce simp: Let_def)
      then show ?thesis by (intro exI [of _ "Suc k"]) simp
    qed
  qed
qed (intro exI [of _ 0], simp)

lemma contact_loop_success:
  assumes "contact_loop clk ask m urls n l tm asked = Ok (r, tm', asked')" "response_ok r"
    "\<not> response_ok l"
  shows "length asked < length asked' \<and> tm_preferred tm' = last asked'"
  using assms
proof (induction urls arbitrary: n l tm asked)
  case (Cons url urls)
  have "\<not> m \<le> n" using Cons.prems by auto
  with Cons.prems obtain resp where resp: "ask n url = Ok resp" by (auto simp: Let_def)
  show ?case
  proof (cases "response_ok resp")
    case True
    with Cons.prems \<open>\<not> m \<le> n\<close> resp show ?thesis by (auto simp: Let_def reportSuccess_def)
  next
    case False
    with Cons.prems \<open>\<not> m \<le> n\<close> resp Cons.IH [OF _ Cons.prems(2) False]
    show ?thesis by (fastforce simp: Let_def)
  qed
qed simp

end
