(* ===== verification/Tracker_List.thy ===== *)
theory Tracker_List
  imports Prelude Posix_FS
begin

text \<open>
  Models \<open>src/tracker_list.cpp\<close>: the schemes of tracker URLs, filtering and removing
  duplicates, and the lists fetched from the web, line by line. The transfer itself is
  libcurl's: what it returns is a parameter.
\<close>

datatype tl_source =
    TRACKERSLIST_ALL | TRACKERSLIST_BEST | TRACKERSLIST_HTTP | TRACKERSLIST_HTTPS
  | TRACKERSLIST_UDP | TRACKERSLIST_WSS | NGOSANG_ALL | NGOSANG_HTTP | NGOSANG_HTTPS | NGOSANG_UDP

fun sourceUrl :: "tl_source \<Rightarrow> string" where
  "sourceUrl TRACKERSLIST_ALL = ''https://raw.githubusercontent.com/XIU2/TrackersListCollection/master/all.txt''"
| "sourceUrl TRACKERSLIST_BEST = ''https://raw.githubusercontent.com/XIU2/TrackersListCollection/master/best.txt''"
| "sourceUrl TRACKERSLIST_HTTP = ''https://raw.githubusercontent.com/XIU2/TrackersListCollection/master/http.txt''"
| "sourceUrl TRACKERSLIST_HTTPS = ''https://raw.githubusercontent.com/XIU2/TrackersListCollection/master/https.txt''"
| "sourceUrl TRACKERSLIST_UDP = ''https://raw.githubusercontent.com/XIU2/TrackersListCollection/master/udp.txt''"
| "sourceUrl TRACKERSLIST_WSS = ''https://raw.githubusercontent.com/XIU2/TrackersListCollection/master/wss.txt''"
| "sourceUrl NGOSANG_ALL = ''https://raw.githubusercontent.com/ngosang/trackerslist/master/trackers_all.txt''"
| "sourceUrl NGOSANG_HTTP = ''https://raw.githubusercontent.com/ngosang/trackerslist/master/trackers_http.txt''"
| "sourceUrl NGOSANG_HTTPS = ''https://raw.githubusercontent.com/ngosang/trackerslist/master/trackers_https.txt''"
| "sourceUrl NGOSANG_UDP = ''https://raw.githubusercontent.com/ngosang/trackerslist/master/trackers_udp.txt''"

definition getProtocol :: "string \<Rightarrow> string" where
  "getProtocol url =
     (if take 8 url = ''https://'' then ''https''
      else if take 7 url = ''http://'' then ''http''
      else if take 6 url = ''udp://'' then ''udp''
      else if take 6 url = ''wss://'' then ''wss''
      else if take 5 url = ''ws://'' then ''ws''
      else ''unknown'')"

definition isValidTrackerUrl :: "string \<Rightarrow> bool" where
  "isValidTrackerUrl url = (getProtocol url \<noteq> ''unknown'' \<and> url \<noteq> [])"

definition filterByProtocol :: "string list \<Rightarrow> string \<Rightarrow> string list" where
  "filterByProtocol trackers protocol = filter (\<lambda>t. getProtocol t = protocol) trackers"

fun dedup_loop :: "string list \<Rightarrow> string set \<Rightarrow> string list \<Rightarrow> string list" where
  "dedup_loop [] seen result = result"
| "dedup_loop (t # ts) seen result =
     (if t \<notin> seen then dedup_loop ts (insert t seen) (result @ [t])
      else dedup_loop ts seen result)"

definition removeDuplicates :: "string list \<Rightarrow> string list" where
  "removeDuplicates trackers = dedup_loop trackers {} []"

text \<open>
  \<open>std::getline\<close> over the body: the parts between newlines, without an empty last one.
  Each line is trimmed; empty lines, comments and URLs of unknown schemes are skipped.
\<close>

definition body_lines :: "string \<Rightarrow> string list" where
  "body_lines s =
     (let ls = split_on (char_of (10 :: nat)) s in if last ls = [] then butlast ls else ls)"

definition is_blank :: "char \<Rightarrow> bool" where
  "is_blank c \<longleftrightarrow> code c \<in> {32, 9, 13, 10}"

definition trim_blank :: "string \<Rightarrow> string" where
  "trim_blank s = rev (dropWhile is_blank (rev (dropWhile is_blank s)))"

definition parse_tracker_lines :: "string \<Rightarrow> string list" where
  "parse_tracker_lines body =
     filter (\<lambda>t. t \<noteq> [] \<and> hd t \<noteq> CHR ''#'' \<and> isValidTrackerUrl t) (map trim_blank (body_lines body))"

text \<open>\<open>http\<close> is what the transfer gives for a URL: the status and body, or \<open>None\<close> on failure.\<close>

definition fetchTrackers :: "(string \<Rightarrow> (int \<times> string) option) \<Rightarrow> tl_source \<Rightarrow> string list" where
  "fetchTrackers http src =
     (case http (sourceUrl src) of
        None \<Rightarrow> []
      | Some (status, body) \<Rightarrow> if status \<noteq> 200 then [] else parse_tracker_lines body)"

definition fetchTrackersFromMultipleSources ::
    "(string \<Rightarrow> (int \<times> string) option) \<Rightarrow> tl_source list \<Rightarrow> string list" where
  "fetchTrackersFromMultipleSources http sources =
     removeDuplicates (concat (map (fetchTrackers http) sources))"

text \<open>What the loop over the duplicates computes: the first occurrence of each URL, in order.\<close>

primrec first_occurrences :: "'a list \<Rightarrow> 'a list" where
  "first_occurrences [] = []"
| "first_occurrences (x # xs) = x # filter (\<lambda>y. y \<noteq> x) (first_occurrences xs)"

lemma set_first_occurrences [simp]: "set (first_occurrences xs) = set xs"
  by (induction xs) auto

lemma distinct_first_occurrences [simp]: "distinct (first_occurrences xs)"
  by (induction xs) auto

lemma first_occurrences_id: "distinct xs \<Longrightarrow> first_occurrences xs = xs"
proof (induction xs)
  case (Cons x xs)
  then have "filter (\<lambda>y. y \<noteq> x) xs = xs" by (intro filter_True) auto
  with Cons show ?case by simp
qed simp

lemma dedup_loop_eq:
  "dedup_loop ts seen r = r @ filter (\<lambda>t. t \<notin> seen) (first_occurrences ts)"
proof (induction ts seen r rule: dedup_loop.induct)
  case (2 t ts seen result)
  show ?case
  proof (cases "t \<in> seen")
    case True
    then have "filter (\<lambda>x. x \<noteq> t \<and> x \<notin> seen) (first_occurrences ts)
        = filter (\<lambda>x. x \<notin> seen) (first_occurrences ts)"
      by (intro filter_cong) auto
    with 2 True show ?thesis by simp
  next
    case False
    then have "filter (\<lambda>x. x \<notin> insert t seen) (first_occurrences ts)
        = filter (\<lambda>x. x \<noteq> t \<and> x \<notin> seen) (first_occurrences ts)"
      by (intro filter_cong) auto
    with 2 False show ?thesis by simp
  qed
qed simp

lemma removeDuplicates_eq: "removeDuplicates ts = first_occurrences ts"
  by (simp add: removeDuplicates_def dedup_loop_eq)

lemma fetched_valid:
  "t \<in> set (fetchTrackersFromMultipleSources http ss) \<Longrightarrow> isValidTrackerUrl t"
  by (auto simp: fetchTrackersFromMultipleSources_def removeDuplicates_eq fetchTrackers_def
        parse_tracker_lines_def split: option.splits if_splits)

end
