(* ===== verification/Dht.thy ===== *)
theory Dht
  imports Tracker
begin

text \<open>
  Models \<open>src/dht.cpp\<close> and \<open>include/dht.h\<close>: the bounded iterative \<open>get_peers\<close> search of
  BEP 5. Name resolution, random bytes and the datagrams that arrive before each deadline
  are parameters. The lemmas bound the search: every query costs one unit of \<open>maxQueries\<close>,
  no node is asked twice, and the peers found are distinct and at most \<open>maxPeers\<close>.
\<close>

record dht_endpoint =
  de_host :: string
  de_port :: "16 word"

record dht_options =
  do_queryTimeoutMs :: int
  do_maxQueries :: nat
  do_maxPeers :: nat

record resolved_node =
  rn_ip :: bytes
  rn_port :: "16 word"
  rn_key :: string

definition dotted :: "bytes \<Rightarrow> string" where
  "dotted ip = dotted_quad (ip ! 0) (ip ! 1) (ip ! 2) (ip ! 3)"

definition host_port :: "string \<Rightarrow> 16 word \<Rightarrow> string" where
  "host_port ip port = ip @ '':'' @ dec_nat (unat port)"

definition mk_node :: "bytes \<Rightarrow> 16 word \<Rightarrow> resolved_node" where
  "mk_node ip port = \<lparr>rn_ip = ip, rn_port = port, rn_key = host_port (dotted ip) port\<rparr>"

text \<open>What one query meets: whether it is sent, and the datagrams before its deadline.\<close>

record datagram =
  dg_ip :: bytes
  dg_port :: "16 word"
  dg_data :: bytes

record dht_net =
  dn_resolve :: "string \<Rightarrow> 16 word \<Rightarrow> (bytes \<times> 16 word) option"
  dn_socket :: bool
  dn_nodeId :: string
  dn_transaction :: "nat \<Rightarrow> string"
  dn_sent :: "nat \<Rightarrow> string \<Rightarrow> bool"
  dn_replies :: "nat \<Rightarrow> string \<Rightarrow> datagram list"

definition resolveNode :: "dht_net \<Rightarrow> dht_endpoint \<Rightarrow> resolved_node option" where
  "resolveNode net e =
     map_option (\<lambda>(ip, port). mk_node ip port) (dn_resolve net (de_host e) (de_port e))"

definition makeGetPeersQuery :: "string \<Rightarrow> string \<Rightarrow> string \<Rightarrow> string" where
  "makeGetPeersQuery transaction nodeId infoHash =
     (let args = smap_insert ''info_hash'' (BStr infoHash) (smap_insert ''id'' (BStr nodeId) []);
          query = smap_insert ''y'' (BStr ''q'') (smap_insert ''t'' (BStr transaction)
                    (smap_insert ''q'' (BStr ''get_peers'') (smap_insert ''a'' (BDict args) [])))
      in encode (BDict query))"

text \<open>The datagrams are examined in order until one is the node's response to this query.\<close>

definition is_reply :: "string \<Rightarrow> bval \<Rightarrow> bool" where
  "is_reply transaction v =
     (case v of
        BDict d \<Rightarrow> dictGetString d ''t'' = Some transaction \<and> dictGetString d ''y'' = Some ''r''
      | _ \<Rightarrow> False)"

fun await_reply :: "resolved_node \<Rightarrow> string \<Rightarrow> datagram list \<Rightarrow> (berror, bval option) outcome" where
  "await_reply node transaction [] = Ok None"
| "await_reply node transaction (d # ds) =
     (if dg_data d = [] then await_reply node transaction ds
      else if dg_ip d \<noteq> rn_ip node \<or> dg_port d \<noteq> rn_port node then await_reply node transaction ds
      else case parse (str_of_bytes (dg_data d)) of
        Ok v \<Rightarrow> if is_reply transaction v then Ok (Some v) else await_reply node transaction ds
      | Throw _ \<Rightarrow> await_reply node transaction ds
      | Hang \<Rightarrow> Hang)"

definition queryNode :: "dht_net \<Rightarrow> nat \<Rightarrow> resolved_node \<Rightarrow> string \<Rightarrow> string \<Rightarrow>
    (berror, bval option) outcome" where
  "queryNode net n node query transaction =
     (if dn_sent net n query then await_reply node transaction (dn_replies net n query) else Ok None)"

fun enqueue_nodes :: "bytes \<Rightarrow> resolved_node list \<Rightarrow> string set \<Rightarrow> resolved_node list \<times> string set" where
  "enqueue_nodes data pending known =
     (if length data < 26 then (pending, known)
      else let ip = take 4 (drop 20 data); port = be_port (data ! 24) (data ! 25);
               node = mk_node ip port; rest = drop 26 data in
        if ip = [0, 0, 0, 0] \<or> port = 0 then enqueue_nodes rest pending known
        else if rn_key node \<in> known then enqueue_nodes rest pending known
        else enqueue_nodes rest (pending @ [node]) (insert (rn_key node) known))"

declare enqueue_nodes.simps [simp del]

definition enqueueCompactNodes ::
    "string \<Rightarrow> resolved_node list \<Rightarrow> string set \<Rightarrow> resolved_node list \<times> string set" where
  "enqueueCompactNodes blob pending known = enqueue_nodes (bytes_of_str blob) pending known"

text \<open>The inner and outer loop of \<open>appendPeers\<close>; the flag says that it returned early.\<close>

fun append_compact :: "peer list \<Rightarrow> nat \<Rightarrow> peer list \<Rightarrow> string set \<Rightarrow> (peer list \<times> string set) \<times> bool" where
  "append_compact [] maxPeers peers known = ((peers, known), False)"
| "append_compact (p # ps) maxPeers peers known =
     (if pr_port p = 0 then append_compact ps maxPeers peers known
      else let key = host_port (pr_ip p) (pr_port p);
               peers' = (if key \<in> known then peers else peers @ [p]);
               known' = insert key known in
        if maxPeers \<le> length peers' then ((peers', known'), True)
        else append_compact ps maxPeers peers' known')"

fun append_values :: "bval list \<Rightarrow> nat \<Rightarrow> peer list \<Rightarrow> string set \<Rightarrow> peer list \<times> string set" where
  "append_values [] maxPeers peers known = (peers, known)"
| "append_values (v # vs) maxPeers peers known =
     (case v of
        BStr s \<Rightarrow>
          (case append_compact (parseCompactPeers s) maxPeers peers known of
             (r, True) \<Rightarrow> r
           | ((peers', known'), False) \<Rightarrow> append_values vs maxPeers peers' known')
      | _ \<Rightarrow> append_values vs maxPeers peers known)"

definition appendPeers :: "bval \<Rightarrow> nat \<Rightarrow> peer list \<Rightarrow> string set \<Rightarrow> peer list \<times> string set" where
  "appendPeers values maxPeers peers known =
     (case values of BList vs \<Rightarrow> append_values vs maxPeers peers known | _ \<Rightarrow> (peers, known))"

text \<open>The state of the search; \<open>ds_asked\<close> lists the keys of the nodes queried so far.\<close>

record dht_search =
  ds_pending :: "resolved_node list"
  ds_knownNodes :: "string set"
  ds_peers :: "peer list"
  ds_knownPeers :: "string set"
  ds_asked :: "string list"

definition dht_absorb :: "dht_options \<Rightarrow> bval \<Rightarrow> dht_search \<Rightarrow> dht_search" where
  "dht_absorb opts response s =
     (case response of
        BDict d \<Rightarrow>
          (case dictGet d ''r'' of
             Some (BDict body) \<Rightarrow>
               (let (peers, knownPeers) =
                      (case dictGet body ''values'' of
                         Some vs \<Rightarrow> appendPeers vs (do_maxPeers opts) (ds_peers s) (ds_knownPeers s)
                       | None \<Rightarrow> (ds_peers s, ds_knownPeers s));
                    (pending, knownNodes) =
                      (case dictGetString body ''nodes'' of
                         Some ns \<Rightarrow> enqueueCompactNodes ns (ds_pending s) (ds_knownNodes s)
                       | None \<Rightarrow> (ds_pending s, ds_knownNodes s))
                in s\<lparr>ds_peers := peers, ds_knownPeers := knownPeers,
                     ds_pending := pending, ds_knownNodes := knownNodes\<rparr>)
           | _ \<Rightarrow> s)
      | _ \<Rightarrow> s)"

function dht_loop :: "dht_net \<Rightarrow> dht_options \<Rightarrow> string \<Rightarrow> nat \<Rightarrow> dht_search \<Rightarrow>
    (berror, dht_search) outcome" where
  "dht_loop net opts infoHash queryCount s =
     (if ds_pending s = [] \<or> do_maxQueries opts \<le> queryCount \<or> do_maxPeers opts \<le> length (ds_peers s)
      then Ok s
      else let node = hd (ds_pending s);
               s1 = s\<lparr>ds_pending := tl (ds_pending s), ds_asked := ds_asked s @ [rn_key node]\<rparr> in
        (case queryNode net queryCount node
                (makeGetPeersQuery (dn_transaction net queryCount) (dn_nodeId net) infoHash)
                (dn_transaction net queryCount) of
           Ok (Some response) \<Rightarrow> dht_loop net opts infoHash (queryCount + 1) (dht_absorb opts response s1)
         | Ok None \<Rightarrow> dht_loop net opts infoHash (queryCount + 1) s1
         | Throw e \<Rightarrow> Throw e
         | Hang \<Rightarrow> Hang))"
  by pat_completeness auto
termination
  by (relation "measure (\<lambda>(_, opts, _, queryCount, _). do_maxQueries opts - queryCount)") auto

declare dht_loop.simps [simp del]

definition default_seeds :: "dht_endpoint list" where
  "default_seeds =
     [\<lparr>de_host = ''router.bittorrent.com'', de_port = 6881\<rparr>,
      \<lparr>de_host = ''router.utorrent.com'', de_port = 6881\<rparr>,
      \<lparr>de_host = ''dht.transmissionbt.com'', de_port = 6881\<rparr>]"

fun resolve_seeds :: "dht_net \<Rightarrow> dht_endpoint list \<Rightarrow> resolved_node list \<Rightarrow> string set \<Rightarrow>
    resolved_node list \<times> string set" where
  "resolve_seeds net [] pending known = (pending, known)"
| "resolve_seeds net (e # es) pending known =
     (case resolveNode net e of
        Some n \<Rightarrow>
          if rn_key n \<in> known then resolve_seeds net es pending known
          else resolve_seeds net es (pending @ [n]) (insert (rn_key n) known)
      | None \<Rightarrow> resolve_seeds net es pending known)"

definition discoverDhtSearch :: "dht_net \<Rightarrow> string \<Rightarrow> dht_endpoint list \<Rightarrow> dht_options \<Rightarrow>
    (berror, dht_search) outcome" where
  "discoverDhtSearch net infoHash bootstrapNodes opts =
     (let none = \<lparr>ds_pending = [], ds_knownNodes = {}, ds_peers = [], ds_knownPeers = {}, ds_asked = []\<rparr> in
      if length infoHash \<noteq> 20 \<or> do_maxQueries opts = 0 \<or> do_maxPeers opts = 0 then Ok none
      else let seeds = (if bootstrapNodes = [] then default_seeds else bootstrapNodes) in
        (case resolve_seeds net seeds [] {} of (pending, known) \<Rightarrow>
           if pending = [] \<or> \<not> dn_socket net then Ok none
           else dht_loop net opts infoHash 0 (none\<lparr>ds_pending := pending, ds_knownNodes := known\<rparr>)))"

definition discoverDhtPeers :: "dht_net \<Rightarrow> string \<Rightarrow> dht_endpoint list \<Rightarrow> dht_options \<Rightarrow>
    (berror, peer list) outcome" where
  "discoverDhtPeers net infoHash bootstrapNodes opts =
     obind (discoverDhtSearch net infoHash bootstrapNodes opts) (\<lambda>s. Ok (ds_peers s))"

section \<open>The query\<close>

lemma getPeersQuery_value:
  "makeGetPeersQuery t n h = encode (BDict
     [(''a'', BDict [(''id'', BStr n), (''info_hash'', BStr h)]), (''q'', BStr ''get_peers''),
      (''t'', BStr t), (''y'', BStr ''q'')])"
  by (simp add: makeGetPeersQuery_def)

section \<open>The search is bounded\<close>

definition peer_key :: "peer \<Rightarrow> string" where
  "peer_key p = host_port (pr_ip p) (pr_port p)"

definition peers_inv :: "peer list \<Rightarrow> string set \<Rightarrow> bool" where
  "peers_inv peers known \<longleftrightarrow>
     distinct (map peer_key peers) \<and> peer_key ` set peers \<subseteq> known \<and> (\<forall>p \<in> set peers. pr_port p \<noteq> 0)"

definition nodes_inv :: "resolved_node list \<Rightarrow> string list \<Rightarrow> string set \<Rightarrow> bool" where
  "nodes_inv pending asked known \<longleftrightarrow>
     distinct (asked @ map rn_key pending) \<and> set (asked @ map rn_key pending) \<subseteq> known"

lemma nodes_inv_pop:
  "nodes_inv ns asked known \<Longrightarrow> ns = node # rest \<Longrightarrow> nodes_inv rest (asked @ [rn_key node]) known"
  by (auto simp: nodes_inv_def)

lemma append_compact_inv:
  "peers_inv peers known \<Longrightarrow> append_compact ps m peers known = ((peers', known'), b) \<Longrightarrow>
   length peers < m \<Longrightarrow> peers_inv peers' known' \<and> length peers' \<le> m \<and> (\<not> b \<longrightarrow> length peers' < m)"
proof (induction ps m peers known rule: append_compact.induct)
  case (2 p ps m peers known)
  show ?case
  proof (cases "pr_port p = 0")
    case True
    with 2 show ?thesis by simp
  next
    case False
    define P where "P = (if peer_key p \<in> known then peers else peers @ [p])"
    have inv: "peers_inv P (insert (peer_key p) known)"
      using "2.prems"(1) False by (auto simp: P_def peers_inv_def)
    have len: "length P \<le> m" using "2.prems"(3) by (auto simp: P_def)
    have step: "append_compact (p # ps) m peers known =
        (if m \<le> length P then ((P, insert (peer_key p) known), True)
         else append_compact ps m P (insert (peer_key p) known))"
      using False by (simp add: Let_def P_def peer_key_def)
    show ?thesis
    proof (cases "m \<le> length P")
      case True
      with "2.prems"(2) inv len step show ?thesis by auto
    next
      case notfull: False
      with "2.prems"(2) step have
        "append_compact ps m P (insert (peer_key p) known) = ((peers', known'), b)" by simp
      with "2.IH"(2) [OF False refl refl refl] inv notfull show ?thesis
        by (auto simp: P_def peer_key_def)
    qed
  qed
qed auto

lemma append_values_inv:
  "peers_inv peers known \<Longrightarrow> append_values vs m peers known = (peers', known') \<Longrightarrow>
   length peers < m \<Longrightarrow> peers_inv peers' known' \<and> length peers' \<le> m"
proof (induction vs arbitrary: peers known)
  case (Cons v vs)
  show ?case
  proof (cases v)
    case (BStr s)
    obtain q k b where r: "append_compact (parseCompactPeers s) m peers known = ((q, k), b)"
      by (metis surj_pair)
    note st = append_compact_inv [OF Cons.prems(1) r Cons.prems(3)]
    show ?thesis
    proof (cases b)
      case True
      with st Cons.prems(2) BStr r show ?thesis by auto
    next
      case False
      with Cons.prems(2) BStr r have "append_values vs m q k = (peers', known')" by simp
      with Cons.IH [of q k] st False show ?thesis by simp
    qed
  qed (use Cons in auto)
qed auto

lemma appendPeers_inv:
  "peers_inv peers known \<Longrightarrow> appendPeers v m peers known = (peers', known') \<Longrightarrow>
   length peers < m \<Longrightarrow> peers_inv peers' known' \<and> length peers' \<le> m"
  by (auto simp: appendPeers_def split: bval.splits dest: append_values_inv)

lemma enqueue_nodes_inv:
  "nodes_inv pending asked known \<Longrightarrow> enqueue_nodes data pending known = (pending', known') \<Longrightarrow>
   nodes_inv pending' asked known'"
proof (induction data pending known rule: enqueue_nodes.induct)
  case (1 data pending known)
  define node where "node = mk_node (take 4 (drop 20 data)) (be_port (data ! 24) (data ! 25))"
  consider "length data < 26"
    | "\<not> length data < 26" "enqueue_nodes data pending known = enqueue_nodes (drop 26 data) pending known"
      "take 4 (drop 20 data) = [0, 0, 0, 0] \<or> be_port (data ! 24) (data ! 25) = 0 \<or> rn_key node \<in> known"
    | "\<not> length data < 26" "rn_key node \<notin> known"
      "take 4 (drop 20 data) \<noteq> [0, 0, 0, 0]" "be_port (data ! 24) (data ! 25) \<noteq> 0"
      "enqueue_nodes data pending known
        = enqueue_nodes (drop 26 data) (pending @ [node]) (insert (rn_key node) known)"
    by (cases "length data < 26"; cases "take 4 (drop 20 data) = [0, 0, 0, 0]";
        cases "be_port (data ! 24) (data ! 25) = 0"; cases "rn_key node \<in> known")
       (simp_all add: enqueue_nodes.simps [of data] Let_def node_def)
  then show ?case
  proof cases
    case 1
    with "1.prems" show ?thesis by (simp add: enqueue_nodes.simps [of data])
  next
    case 2
    from "1.prems" 2(2) have e: "enqueue_nodes (drop 26 data) pending known = (pending', known')"
      by simp
    show ?thesis
    proof (cases "take 4 (drop 20 data) = [0, 0, 0, 0] \<or> be_port (data ! 24) (data ! 25) = 0")
      case True
      then show ?thesis by (rule "1.IH"(1) [OF 2(1) refl refl refl refl _ "1.prems"(1) e])
    next
      case False
      with 2(3) have "rn_key node \<in> known" by blast
      with False show ?thesis
        unfolding node_def by (rule "1.IH"(2) [OF 2(1) refl refl refl refl _ _ "1.prems"(1) e])
    qed
  next
    case 3
    have "nodes_inv (pending @ [node]) asked (insert (rn_key node) known)"
      using "1.prems"(1) 3(2) by (auto simp: nodes_inv_def)
    with "1.prems"(2) "1.IH"(3) [OF 3(1) refl refl refl refl] 3 show ?thesis
      by (simp add: node_def)
  qed
qed

lemma resolve_seeds_inv:
  "nodes_inv pending [] known \<Longrightarrow> resolve_seeds net es pending known = (pending', known') \<Longrightarrow>
   nodes_inv pending' [] known'"
proof (induction es arbitrary: pending known)
  case (Cons e es)
  show ?case
  proof (cases "resolveNode net e")
    case None
    with Cons show ?thesis by simp
  next
    case (Some n)
    have "rn_key n \<notin> known \<Longrightarrow> nodes_inv (pending @ [n]) [] (insert (rn_key n) known)"
      using Cons.prems(1) by (auto simp: nodes_inv_def)
    with Some Cons show ?thesis by (cases "rn_key n \<in> known") simp_all
  qed
qed simp

definition search_inv :: "dht_options \<Rightarrow> dht_search \<Rightarrow> bool" where
  "search_inv opts s \<longleftrightarrow>
     nodes_inv (ds_pending s) (ds_asked s) (ds_knownNodes s) \<and>
     peers_inv (ds_peers s) (ds_knownPeers s) \<and> length (ds_peers s) \<le> do_maxPeers opts"

lemma dht_absorb_inv:
  assumes "search_inv opts s" "length (ds_peers s) < do_maxPeers opts"
  shows "search_inv opts (dht_absorb opts r s)" "ds_asked (dht_absorb opts r s) = ds_asked s"
proof -
  have "search_inv opts (dht_absorb opts r s) \<and> ds_asked (dht_absorb opts r s) = ds_asked s"
    using assms
    by (auto simp: dht_absorb_def search_inv_def enqueueCompactNodes_def split: bval.splits option.splits prod.splits
        dest: appendPeers_inv enqueue_nodes_inv)
  then show "search_inv opts (dht_absorb opts r s)" "ds_asked (dht_absorb opts r s) = ds_asked s"
    by auto
qed

text \<open>One turn of the search: the front node is asked, and its reply, if there is one, is taken in.\<close>

lemma dht_loop_turn:
  assumes "\<not> (ds_pending s = [] \<or> do_maxQueries opts \<le> n \<or> do_maxPeers opts \<le> length (ds_peers s))"
    "node = hd (ds_pending s)"
    "s1 = s\<lparr>ds_pending := tl (ds_pending s), ds_asked := ds_asked s @ [rn_key node]\<rparr>"
    "dht_loop net opts h n s = Ok s'"
  obtains (none) "queryNode net n node (makeGetPeersQuery (dn_transaction net n) (dn_nodeId net) h)
        (dn_transaction net n) = Ok None"
      "dht_loop net opts h (n + 1) s1 = Ok s'"
    | (some) r where "queryNode net n node (makeGetPeersQuery (dn_transaction net n) (dn_nodeId net) h)
        (dn_transaction net n) = Ok (Some r)"
      "dht_loop net opts h (n + 1) (dht_absorb opts r s1) = Ok s'"
  using assms by (auto simp: dht_loop.simps [of net opts h n s] Let_def split: outcome.splits option.splits)

lemma dht_loop_inv:
  assumes "search_inv opts s" "n = length (ds_asked s)" "n \<le> do_maxQueries opts"
    "dht_loop net opts h n s = Ok s'"
  shows "search_inv opts s' \<and> length (ds_asked s') \<le> do_maxQueries opts"
  using assms
proof (induction net opts h n s rule: dht_loop.induct)
  case (1 net opts h n s)
  show ?case
  proof (cases "ds_pending s = [] \<or> do_maxQueries opts \<le> n \<or> do_maxPeers opts \<le> length (ds_peers s)")
    case True
    then have "dht_loop net opts h n s = Ok s" by (simp add: dht_loop.simps [of net opts h n s])
    with "1.prems" show ?thesis by simp
  next
    case False
    define node where "node = hd (ds_pending s)"
    define s1 where "s1 = s\<lparr>ds_pending := tl (ds_pending s), ds_asked := ds_asked s @ [rn_key node]\<rparr>"
    have pend: "ds_pending s = node # tl (ds_pending s)" using False by (simp add: node_def)
    have s1: "search_inv opts s1" "length (ds_peers s1) < do_maxPeers opts"
      using "1.prems"(1) False nodes_inv_pop [OF _ pend, of "ds_asked s" "ds_knownNodes s"]
      by (auto simp: search_inv_def s1_def)
    note abs = dht_absorb_inv [OF s1]
    show ?thesis
    proof (cases rule: dht_loop_turn [OF False node_def s1_def "1.prems"(4), case_names none some])
      case none
      show ?thesis
        by (rule "1.IH"(1) [OF False node_def s1_def none(1) refl])
           (use none s1 "1.prems" False in \<open>auto simp: s1_def\<close>)
    next
      case (some r)
      show ?thesis
        by (rule "1.IH"(2) [OF False node_def s1_def some(1) refl])
           (use some abs "1.prems" False in \<open>auto simp: s1_def\<close>)
    qed
  qed
qed

lemma discover_inv:
  assumes "discoverDhtSearch net h boot opts = Ok s"
  shows "search_inv opts s \<and> length (ds_asked s) \<le> do_maxQueries opts"
proof -
  define none where
    "none = \<lparr>ds_pending = [], ds_knownNodes = {}, ds_peers = [], ds_knownPeers = {}, ds_asked = []\<rparr>"
  define seeds where "seeds = (if boot = [] then default_seeds else boot)"
  obtain pending known where r: "resolve_seeds net seeds [] {} = (pending, known)" by fastforce
  have base: "search_inv opts none" by (simp add: search_inv_def none_def nodes_inv_def peers_inv_def)
  have ni: "nodes_inv pending [] known"
    using resolve_seeds_inv [OF _ r] by (simp add: nodes_inv_def)
  have start: "search_inv opts (none\<lparr>ds_pending := pending, ds_knownNodes := known\<rparr>)"
    using ni by (simp add: search_inv_def none_def peers_inv_def)
  from assms have "s = none \<or> dht_loop net opts h 0 (none\<lparr>ds_pending := pending, ds_knownNodes := known\<rparr>) = Ok s"
    using r by (auto simp: discoverDhtSearch_def none_def seeds_def Let_def split: if_splits)
  then show ?thesis
    using base dht_loop_inv [OF start] by (auto simp: none_def)
qed

end
