(* ===== verification/Downloader.thy ===== *)
theory Downloader
  imports Output_Files Peer Tracker_Manager Tracker_List Dht
begin

text \<open>
  Models \<open>include/downloader.h\<close> and \<open>src/downloader.cpp\<close>: the state of a download and every
  operation of its loop. Peers are identified by a number (the code uses the address of the
  \<open>PeerConnection\<close>); the clock is read once per operation and passed as \<open>now\<close>, in
  nanoseconds; speeds are rationals where the code has \<open>double\<close>. Files go through
  \<open>Output_Files\<close>, sockets through \<open>Peer\<close>. The mutex only guards against the thread that
  reads the statistics and is not modelled.
\<close>

section \<open>State\<close>

definition block_size :: nat where
  "block_size = 16384"

record piece_state =
  ps_requested :: "bool list"
  ps_received :: "bool list"
  ps_total :: int
  ps_count :: int

definition new_piece_state :: "int \<Rightarrow> piece_state" where
  "new_piece_state blocks = \<lparr>ps_requested = replicate (nat blocks) False,
     ps_received = replicate (nat blocks) False, ps_total = blocks, ps_count = 0\<rparr>"

record block_request =
  rq_piece :: nat
  rq_offset :: nat
  rq_length :: nat
  rq_peer :: nat
  rq_time :: int

record speed_stats =
  ss_bytes :: int
  ss_lastUpdate :: int
  ss_connectedAt :: int
  ss_avgSpeed :: rat
  ss_successful :: int
  ss_failed :: int

definition no_stats :: speed_stats where
  "no_stats = \<lparr>ss_bytes = 0, ss_lastUpdate = 0, ss_connectedAt = 0, ss_avgSpeed = 0,
     ss_successful = 0, ss_failed = 0\<rparr>"

record download_options =
  op_maxPeers :: int
  op_maxRequests :: int
  op_refreshTrackers :: bool
  op_overwrite :: bool

record downloader =
  dl_torrent :: torrent_info
  dl_savePath :: string
  dl_peerId :: string
  dl_options :: download_options
  dl_trackers :: tracker_manager
  dl_peers :: "(nat \<times> peer_conn) list"
  dl_nextPeer :: nat
  dl_completed :: "bool list"
  dl_pieces :: "piece_state list"
  dl_completedCount :: nat
  dl_running :: bool
  dl_stop :: bool
  dl_downloaded :: int
  dl_uploaded :: int
  dl_lastDownloaded :: int
  dl_lastSpeedTime :: int
  dl_speed :: rat
  dl_pending :: "block_request list"
  dl_stats :: "nat \<Rightarrow> speed_stats option"
  dl_rejected :: "string \<Rightarrow> int option"
  dl_endgame :: bool
  dl_files :: "output_file list"
  dl_fs :: fs

definition pieceSize :: "torrent_info \<Rightarrow> nat \<Rightarrow> int" where
  "pieceSize t i = min (tPieceLength t) (totalLength t - int i * tPieceLength t)"

definition calculateBlocksForPiece :: "torrent_info \<Rightarrow> nat \<Rightarrow> int" where
  "calculateBlocksForPiece t i = to_signed 32 (tdiv (pieceSize t i + int block_size - 1) (int block_size))"

definition dl_new :: "torrent_info \<Rightarrow> string \<Rightarrow> download_options \<Rightarrow> fs \<Rightarrow> int \<Rightarrow> downloader" where
  "dl_new t savePath opts w now =
     \<lparr>dl_torrent = t, dl_savePath = savePath, dl_peerId = tPeerId t, dl_options = opts,
      dl_trackers = tm_new (tAnnounceList t), dl_peers = [], dl_nextPeer = 0,
      dl_completed = replicate (numPieces t) False,
      dl_pieces = map (\<lambda>i. new_piece_state (calculateBlocksForPiece t i)) [0..<numPieces t],
      dl_completedCount = 0, dl_running = False, dl_stop = False, dl_downloaded = 0,
      dl_uploaded = 0, dl_lastDownloaded = 0, dl_lastSpeedTime = now, dl_speed = 0,
      dl_pending = [], dl_stats = Map.empty, dl_rejected = Map.empty, dl_endgame = False,
      dl_files = [], dl_fs = w\<rparr>"

section \<open>Pieces on disk\<close>

definition writePiece :: "nat \<Rightarrow> nat \<Rightarrow> bytes \<Rightarrow> downloader \<Rightarrow> downloader" where
  "writePiece index off data dl =
     dl\<lparr>dl_fs := write_range (dl_files dl) (int index * tPieceLength (dl_torrent dl) + int off) data (dl_fs dl)\<rparr>"

definition readPieceFromDisk :: "downloader \<Rightarrow> nat \<Rightarrow> bytes option" where
  "readPieceFromDisk dl index =
     (let n = pieceSize (dl_torrent dl) index in
      if dl_files dl = [] \<or> n \<le> 0 then None
      else read_range (dl_files dl) (int index * tPieceLength (dl_torrent dl)) (nat n) (dl_fs dl))"

definition verifyPiece :: "(bytes \<Rightarrow> bytes) \<Rightarrow> downloader \<Rightarrow> nat \<Rightarrow> bool" where
  "verifyPiece SHA1 dl index =
     (case readPieceFromDisk dl index of
        None \<Rightarrow> False
      | Some data \<Rightarrow>
          let expected = tPieces (dl_torrent dl) in
          if length expected < index * 20 + 20 then False
          else sha1_str SHA1 data = take 20 (drop (index * 20) expected))"

definition dl_hasPiece :: "downloader \<Rightarrow> nat \<Rightarrow> bool" where
  "dl_hasPiece dl index = (index < length (dl_completed dl) \<and> dl_completed dl ! index)"

definition isComplete :: "downloader \<Rightarrow> bool" where
  "isComplete dl = (numPieces (dl_torrent dl) \<le> dl_completedCount dl)"

text \<open>\<open>stopped i\<close>: a stop has been requested when piece \<open>i\<close> is reached.\<close>

definition restore_piece :: "(bytes \<Rightarrow> bytes) \<Rightarrow> nat \<Rightarrow> downloader \<Rightarrow> downloader" where
  "restore_piece SHA1 i dl =
     (let valid = verifyPiece SHA1 dl i; st = dl_pieces dl ! i;
          st' = st\<lparr>ps_requested := replicate (nat (ps_total st)) False,
                   ps_received := replicate (nat (ps_total st)) valid,
                   ps_count := (if valid then ps_total st else 0)\<rparr>;
          dl1 = dl\<lparr>dl_completed := (dl_completed dl)[i := valid],
                   dl_pieces := (dl_pieces dl)[i := st']\<rparr> in
      if valid then dl1\<lparr>dl_completedCount := dl_completedCount dl + 1,
                        dl_downloaded := dl_downloaded dl + pieceSize (dl_torrent dl) i\<rparr>
      else dl1)"

fun restore_loop :: "(bytes \<Rightarrow> bytes) \<Rightarrow> (nat \<Rightarrow> bool) \<Rightarrow> nat list \<Rightarrow> downloader \<Rightarrow> downloader" where
  "restore_loop SHA1 stopped [] dl = dl"
| "restore_loop SHA1 stopped (i # is) dl =
     (if stopped i then dl else restore_loop SHA1 stopped is (restore_piece SHA1 i dl))"

definition restoreCompletedPieces :: "(bytes \<Rightarrow> bytes) \<Rightarrow> (nat \<Rightarrow> bool) \<Rightarrow> downloader \<Rightarrow> downloader" where
  "restoreCompletedPieces SHA1 stopped dl =
     (let dl1 = restore_loop SHA1 stopped [0..<numPieces (dl_torrent dl)]
                  (dl\<lparr>dl_completedCount := 0, dl_downloaded := 0\<rparr>)
      in dl1\<lparr>dl_lastDownloaded := dl_downloaded dl1\<rparr>)"

text \<open>\<open>start\<close>; the flag says that the download thread was launched.\<close>

definition start :: "(bytes \<Rightarrow> bytes) \<Rightarrow> (nat \<Rightarrow> bool) \<Rightarrow> downloader \<Rightarrow> bool \<times> downloader" where
  "start SHA1 stopped dl =
     (if dl_running dl then (False, dl)
      else case createDirectories (dl_savePath dl) (dl_fs dl) of
        (False, w) \<Rightarrow> (False, dl\<lparr>dl_running := False, dl_stop := False, dl_fs := w\<rparr>)
      | (True, w) \<Rightarrow>
        (case openOutputFiles (dl_torrent dl) (dl_savePath dl) (op_overwrite (dl_options dl)) w of
          (False, ofs, w') \<Rightarrow>
            (False, dl\<lparr>dl_running := False, dl_stop := False, dl_files := closeOutputFiles ofs, dl_fs := w'\<rparr>)
        | (True, ofs, w') \<Rightarrow>
            let dl1 = dl\<lparr>dl_running := True, dl_stop := False, dl_files := ofs, dl_fs := w'\<rparr>;
                dl2 = restoreCompletedPieces SHA1 stopped dl1;
                stop = (\<exists>i \<in> set [0..<numPieces (dl_torrent dl) + 1]. stopped i) in
            if stop then (False, dl2\<lparr>dl_running := False, dl_stop := True\<rparr>)
            else if isComplete dl2 then (False, dl2\<lparr>dl_running := False\<rparr>)
            else (True, dl2)))"

definition requestStop :: "downloader \<Rightarrow> downloader" where
  "requestStop dl = dl\<lparr>dl_stop := True, dl_running := False\<rparr>"

text \<open>\<open>stop\<close> disconnects every peer and, once the thread has ended, forgets them.\<close>

definition stop :: "downloader \<Rightarrow> downloader" where
  "stop dl = dl\<lparr>dl_stop := True, dl_running := False, dl_peers := []\<rparr>"

section \<open>Peers and their statistics\<close>

definition conn_of :: "downloader \<Rightarrow> nat \<Rightarrow> peer_conn option" where
  "conn_of dl pid = map_of (dl_peers dl) pid"

definition set_conn :: "nat \<Rightarrow> peer_conn \<Rightarrow> downloader \<Rightarrow> downloader" where
  "set_conn pid c dl =
     dl\<lparr>dl_peers := map (\<lambda>(q, c'). (q, if q = pid then c else c')) (dl_peers dl)\<rparr>"

definition stats_of :: "downloader \<Rightarrow> nat \<Rightarrow> speed_stats" where
  "stats_of dl pid = (case dl_stats dl pid of Some s \<Rightarrow> s | None \<Rightarrow> no_stats)"

definition upd_stats :: "nat \<Rightarrow> (speed_stats \<Rightarrow> speed_stats) \<Rightarrow> downloader \<Rightarrow> downloader" where
  "upd_stats pid f dl = dl\<lparr>dl_stats := (dl_stats dl)(pid \<mapsto> f (stats_of dl pid))\<rparr>"

definition count_failure :: "speed_stats \<Rightarrow> speed_stats" where
  "count_failure s = s\<lparr>ss_failed := ss_failed s + 1\<rparr>"

definition updateSpeed :: "int \<Rightarrow> int \<Rightarrow> speed_stats \<Rightarrow> speed_stats" where
  "updateSpeed now n s =
     (let s1 = s\<lparr>ss_bytes := ss_bytes s + n, ss_successful := ss_successful s + 1\<rparr>;
          elapsed = tdiv (now - ss_lastUpdate s) 1000000000 in
      if 0 < elapsed then s1\<lparr>ss_avgSpeed := of_int (ss_bytes s1) / of_int elapsed\<rparr> else s1)"

definition avg_speed :: "downloader \<Rightarrow> nat \<Rightarrow> rat" where
  "avg_speed dl pid = (case dl_stats dl pid of Some s \<Rightarrow> ss_avgSpeed s | None \<Rightarrow> 0)"

definition reject_cooldown :: int where "reject_cooldown = 300"

definition isPeerRejected :: "int \<Rightarrow> string \<Rightarrow> 16 word \<Rightarrow> downloader \<Rightarrow> bool \<times> downloader" where
  "isPeerRejected now ip port dl =
     (let key = host_port ip port in
      case dl_rejected dl key of
        None \<Rightarrow> (False, dl)
      | Some since \<Rightarrow>
          if reject_cooldown < tdiv (now - since) 1000000000
          then (False, dl\<lparr>dl_rejected := (dl_rejected dl)(key := None)\<rparr>)
          else (True, dl))"

definition rejectPeer :: "int \<Rightarrow> string \<Rightarrow> 16 word \<Rightarrow> downloader \<Rightarrow> downloader" where
  "rejectPeer now ip port dl = dl\<lparr>dl_rejected := (dl_rejected dl)(host_port ip port \<mapsto> now)\<rparr>"

fun addPeers :: "int \<Rightarrow> peer list \<Rightarrow> downloader \<Rightarrow> downloader" where
  "addPeers now [] dl = dl"
| "addPeers now (p # ps) dl =
     (case isPeerRejected now (pr_ip p) (pr_port p) dl of
        (True, dl1) \<Rightarrow> addPeers now ps dl1
      | (False, dl1) \<Rightarrow>
          if list_ex (\<lambda>(_, c). pc_ip c = pr_ip p \<and> pc_port c = pr_port p) (dl_peers dl1)
          then addPeers now ps dl1
          else addPeers now ps (dl1\<lparr>
                 dl_peers := dl_peers dl1 @
                   [(dl_nextPeer dl1, new_conn (pr_ip p) (pr_port p) (dl_torrent dl1) (dl_peerId dl1))],
                 dl_nextPeer := dl_nextPeer dl1 + 1\<rparr>))"

definition connected_count :: "downloader \<Rightarrow> int" where
  "connected_count dl = int (length (filter (\<lambda>(_, c). pc_connected c) (dl_peers dl)))"

definition faster :: "downloader \<Rightarrow> nat \<times> peer_conn \<Rightarrow> nat \<times> peer_conn \<Rightarrow> bool" where
  "faster dl a b = (avg_speed dl (fst b) < avg_speed dl (fst a))"

fun connect_loop :: "int \<Rightarrow> (nat \<Rightarrow> connect_env) \<Rightarrow> nat list \<Rightarrow> int \<Rightarrow> downloader \<Rightarrow> int \<times> downloader" where
  "connect_loop now env [] count dl = (count, dl)"
| "connect_loop now env (pid # pids) count dl =
     (case conn_of dl pid of
        None \<Rightarrow> connect_loop now env pids count dl
      | Some c \<Rightarrow>
          if pc_connected c then connect_loop now env pids count dl
          else if op_maxPeers (dl_options dl) \<le> count then (count, dl)
          else (case isPeerRejected now (pc_ip c) (pc_port c) dl of
            (True, dl1) \<Rightarrow> connect_loop now env pids count dl1
          | (False, dl1) \<Rightarrow>
              (case connect (env pid) c of
                 (True, c1) \<Rightarrow>
                   connect_loop now env pids (count + 1)
                     (upd_stats pid (\<lambda>s. s\<lparr>ss_connectedAt := now, ss_lastUpdate := now\<rparr>)
                       (set_conn pid (snd (sendUnchoke c1)) dl1))
               | (False, c1) \<Rightarrow>
                   connect_loop now env pids count
                     (rejectPeer now (pc_ip c) (pc_port c) (set_conn pid c1 dl1)))))"

definition connectToPeers :: "int \<Rightarrow> (nat \<Rightarrow> connect_env) \<Rightarrow> downloader \<Rightarrow> bool \<times> downloader" where
  "connectToPeers now env dl =
     (let dl1 = dl\<lparr>dl_peers := std_sort (faster dl) (dl_peers dl)\<rparr> in
      case connect_loop now env (map fst (dl_peers dl1)) (connected_count dl) dl1 of
        (count, dl2) \<Rightarrow> (5 \<le> count, dl2))"

definition bad_peer :: "int \<Rightarrow> speed_stats \<Rightarrow> bool" where
  "bad_peer now s =
     (ss_successful s = 0 \<and>
      (5 \<le> ss_failed s \<or>
       (0 < ss_connectedAt s \<and> 60 < tdiv (now - ss_connectedAt s) 1000000000)))"

fun prune_loop :: "int \<Rightarrow> nat list \<Rightarrow> downloader \<Rightarrow> downloader" where
  "prune_loop now [] dl = dl"
| "prune_loop now (pid # pids) dl =
     (case conn_of dl pid of
        None \<Rightarrow> prune_loop now pids dl
      | Some c \<Rightarrow>
          if \<not> pc_connected c then prune_loop now pids dl
          else let dl1 = upd_stats pid (\<lambda>s. s) dl in
            if bad_peer now (stats_of dl1 pid)
            then prune_loop now pids (rejectPeer now (pc_ip c) (pc_port c) (set_conn pid (disconnect c) dl1))
            else prune_loop now pids dl1)"

definition pruneBadPeers :: "int \<Rightarrow> downloader \<Rightarrow> downloader" where
  "pruneBadPeers now dl = prune_loop now (map fst (dl_peers dl)) dl"


section \<open>Choosing and requesting blocks\<close>

definition peer_count :: "downloader \<Rightarrow> nat \<Rightarrow> int" where
  "peer_count dl i =
     int (length (filter (\<lambda>(_, c). pc_connected c \<and> \<not> dl_completed dl ! i \<and> hasPiece c i) (dl_peers dl)))"

definition piece_score :: "downloader \<Rightarrow> nat \<Rightarrow> int" where
  "piece_score dl i =
     (let st = dl_pieces dl ! i;
          completionPct = tdiv (ps_count st * 1000) (ps_total st);
          rarityScore = (if 0 < peer_count dl i then tdiv 1000 (peer_count dl i) else 10000)
      in completionPct * 100 + rarityScore)"

text \<open>The two selection loops; \<open>None\<close> is \<open>UINT32_MAX\<close>.\<close>

fun best_partial :: "downloader \<Rightarrow> nat list \<Rightarrow> nat option \<Rightarrow> int \<Rightarrow> nat option" where
  "best_partial dl [] bestPiece bestScore = bestPiece"
| "best_partial dl (i # is) bestPiece bestScore =
     (if dl_completed dl ! i then best_partial dl is bestPiece bestScore
      else if ps_count (dl_pieces dl ! i) = 0 then best_partial dl is bestPiece bestScore
      else let score = piece_score dl i in
        if bestScore < score then best_partial dl is (Some i) score
        else best_partial dl is bestPiece bestScore)"

fun rarest :: "downloader \<Rightarrow> nat list \<Rightarrow> nat option \<Rightarrow> int \<Rightarrow> nat option" where
  "rarest dl [] bestPiece minPeers = bestPiece"
| "rarest dl (i # is) bestPiece minPeers =
     (if dl_completed dl ! i then rarest dl is bestPiece minPeers
      else if peer_count dl i < minPeers then rarest dl is (Some i) (peer_count dl i)
      else rarest dl is bestPiece minPeers)"

definition selectNextPiece :: "downloader \<Rightarrow> nat option" where
  "selectNextPiece dl =
     (let pieces = [0..<numPieces (dl_torrent dl)] in
      case best_partial dl pieces None (- 1) of
        Some p \<Rightarrow> Some p
      | None \<Rightarrow> rarest dl pieces None (2 ^ 31 - 1))"

definition requests_of :: "downloader \<Rightarrow> nat \<Rightarrow> int" where
  "requests_of dl pid = int (length (filter (\<lambda>r. rq_peer r = pid) (dl_pending dl)))"

definition block_offset :: "nat \<Rightarrow> nat" where
  "block_offset i = (i * block_size) mod 2 ^ 32"

definition block_length :: "torrent_info \<Rightarrow> nat \<Rightarrow> nat \<Rightarrow> nat" where
  "block_length t p i =
     to_unsigned 32 (min (int block_size) (pieceSize t p - int (block_offset i)))"

text \<open>A block in flight is requested again in the endgame only, and within limits.\<close>

definition in_flight :: "downloader \<Rightarrow> nat \<Rightarrow> nat \<Rightarrow> block_request list" where
  "in_flight dl p i = filter (\<lambda>r. rq_piece r = p \<and> rq_offset r = block_offset i) (dl_pending dl)"

definition duplicate_refused :: "downloader \<Rightarrow> nat \<Rightarrow> nat \<Rightarrow> nat \<Rightarrow> bool" where
  "duplicate_refused dl pid p i =
     (\<not> dl_endgame dl \<or> list_ex (\<lambda>r. rq_peer r = pid) (in_flight dl p i) \<or> 2 \<le> length (in_flight dl p i))"

definition upd_piece :: "nat \<Rightarrow> (piece_state \<Rightarrow> piece_state) \<Rightarrow> downloader \<Rightarrow> downloader" where
  "upd_piece p f dl = dl\<lparr>dl_pieces := (dl_pieces dl)[p := f (dl_pieces dl ! p)]\<rparr>"

fun request_loop :: "int \<Rightarrow> nat \<Rightarrow> nat \<Rightarrow> nat list \<Rightarrow> int \<Rightarrow> downloader \<Rightarrow> downloader" where
  "request_loop now pid p [] currentRequests dl = dl"
| "request_loop now pid p (i # is) currentRequests dl =
     (if op_maxRequests (dl_options dl) \<le> currentRequests then dl
      else if ps_received (dl_pieces dl ! p) ! i then request_loop now pid p is currentRequests dl
      else if ps_requested (dl_pieces dl ! p) ! i \<and> duplicate_refused dl pid p i
        then request_loop now pid p is currentRequests dl
      else let off = block_offset i; len = block_length (dl_torrent dl) p i in
        (case conn_of dl pid of
           None \<Rightarrow> dl
         | Some c \<Rightarrow>
            (case sendRequest (of_nat p) (of_nat off) (of_nat len) c of
               (False, c1) \<Rightarrow> set_conn pid c1 dl
             | (True, c1) \<Rightarrow>
                 request_loop now pid p is (currentRequests + 1)
                   ((upd_piece p (\<lambda>st. st\<lparr>ps_requested := (ps_requested st)[i := True]\<rparr>)
                      (set_conn pid c1 dl))
                    \<lparr>dl_pending := dl_pending dl @
                       [\<lparr>rq_piece = p, rq_offset = off, rq_length = len, rq_peer = pid, rq_time = now\<rparr>]\<rparr>))))"

definition needed_pieces :: "downloader \<Rightarrow> peer_conn \<Rightarrow> nat list" where
  "needed_pieces dl c =
     filter (\<lambda>i. \<not> dl_completed dl ! i \<and> hasPiece c i \<and>
                 ps_count (dl_pieces dl ! i) < ps_total (dl_pieces dl ! i))
       [0..<numPieces (dl_torrent dl)]"

definition chosen_piece :: "downloader \<Rightarrow> peer_conn \<Rightarrow> nat" where
  "chosen_piece dl c =
     (case selectNextPiece dl of
        Some p \<Rightarrow> if hasPiece c p then p else hd (needed_pieces dl c)
      | None \<Rightarrow> hd (needed_pieces dl c))"

definition requestBlocksFromPeer :: "int \<Rightarrow> nat \<Rightarrow> downloader \<Rightarrow> downloader" where
  "requestBlocksFromPeer now pid dl =
     (case conn_of dl pid of
        None \<Rightarrow> dl
      | Some c \<Rightarrow>
          if \<not> pc_connected c \<or> pc_peerChoking c then dl
          else if op_maxRequests (dl_options dl) \<le> requests_of dl pid then dl
          else if needed_pieces dl c = [] then dl
          else let p = chosen_piece dl c in
            request_loop now pid p [0..<nat (ps_total (dl_pieces dl ! p))] (requests_of dl pid) dl)"

text \<open>The order of the peers: faster first, but fewer requests first when the speeds are close.\<close>

definition request_before :: "downloader \<Rightarrow> nat \<Rightarrow> nat \<Rightarrow> bool" where
  "request_before dl a b =
     (if \<bar>avg_speed dl a - avg_speed dl b\<bar> < 1024 then requests_of dl a < requests_of dl b
      else avg_speed dl b < avg_speed dl a)"

fun request_peers :: "int \<Rightarrow> (nat \<Rightarrow> int) \<Rightarrow> nat list \<Rightarrow> downloader \<Rightarrow> downloader" where
  "request_peers now requestsPerPeer [] dl = dl"
| "request_peers now requestsPerPeer (pid # pids) dl =
     (if op_maxRequests (dl_options dl) \<le> requestsPerPeer pid
      then request_peers now requestsPerPeer pids dl
      else request_peers now requestsPerPeer pids (requestBlocksFromPeer now pid dl))"

definition requestPieces :: "int \<Rightarrow> downloader \<Rightarrow> downloader" where
  "requestPieces now dl =
     (let ready = map fst (filter (\<lambda>(_, c). pc_connected c \<and> \<not> pc_peerChoking c) (dl_peers dl)) in
      request_peers now (requests_of dl) (std_sort (request_before dl) ready) dl)"

section \<open>Giving requests up\<close>

text \<open>The flag of a request's block is cleared, for the block to be requested again.\<close>

definition release :: "block_request \<Rightarrow> downloader \<Rightarrow> downloader" where
  "release r dl =
     (let b = rq_offset r div block_size in
      upd_piece (rq_piece r)
        (\<lambda>st. if int b < ps_total st then st\<lparr>ps_requested := (ps_requested st)[b := False]\<rparr> else st) dl)"

definition drop_requests :: "(block_request \<Rightarrow> bool) \<Rightarrow> downloader \<Rightarrow> downloader" where
  "drop_requests gone dl = dl\<lparr>dl_pending := filter (\<lambda>r. \<not> gone r) (dl_pending dl)\<rparr>"

definition cancelRequestsForPeer :: "nat \<Rightarrow> downloader \<Rightarrow> downloader" where
  "cancelRequestsForPeer pid dl =
     (let gone = (\<lambda>r. rq_peer r = pid) in
      fold release (filter gone (dl_pending dl)) (drop_requests gone dl))"

definition timed_out :: "int \<Rightarrow> block_request \<Rightarrow> bool" where
  "timed_out now r = (15000 < tdiv (now - rq_time r) 1000000)"

definition cleanupTimedOutRequests :: "int \<Rightarrow> downloader \<Rightarrow> downloader" where
  "cleanupTimedOutRequests now dl =
     fold (\<lambda>r. upd_stats (rq_peer r) count_failure \<circ> release r)
       (filter (timed_out now) (dl_pending dl)) (drop_requests (timed_out now) dl)"

definition send_cancel :: "block_request \<Rightarrow> downloader \<Rightarrow> downloader" where
  "send_cancel r dl =
     (case conn_of dl (rq_peer r) of
        None \<Rightarrow> dl
      | Some c \<Rightarrow>
          set_conn (rq_peer r)
            (snd (sendCancel (of_nat (rq_piece r)) (of_nat (rq_offset r)) (of_nat (rq_length r)) c)) dl)"

definition cancelDuplicateRequests :: "nat \<Rightarrow> nat \<Rightarrow> nat \<Rightarrow> downloader \<Rightarrow> downloader" where
  "cancelDuplicateRequests p off keep dl =
     (let gone = (\<lambda>r. rq_piece r = p \<and> rq_offset r = off \<and> rq_peer r \<noteq> keep) in
      fold (\<lambda>r. release r \<circ> send_cancel r) (filter gone (dl_pending dl)) (drop_requests gone dl))"

section \<open>Messages from peers\<close>

fun remove_first :: "('a \<Rightarrow> bool) \<Rightarrow> 'a list \<Rightarrow> 'a list" where
  "remove_first P [] = []"
| "remove_first P (x # xs) = (if P x then xs else x # remove_first P xs)"

text \<open>What happens when the last block of a piece has come.\<close>

definition finish_piece :: "(bytes \<Rightarrow> bytes) \<Rightarrow> nat \<Rightarrow> downloader \<Rightarrow> downloader" where
  "finish_piece SHA1 p dl =
     (if verifyPiece SHA1 dl p then
        dl\<lparr>dl_completed := (dl_completed dl)[p := True], dl_completedCount := dl_completedCount dl + 1\<rparr>
      else
        (drop_requests (\<lambda>r. rq_piece r = p)
          (upd_piece p (\<lambda>st. st\<lparr>ps_requested := replicate (nat (ps_total st)) False,
                               ps_received := replicate (nat (ps_total st)) False, ps_count := 0\<rparr>) dl))
        \<lparr>dl_downloaded := max 0 (dl_downloaded dl - pieceSize (dl_torrent dl) p)\<rparr>)"

definition accept_block :: "(bytes \<Rightarrow> bytes) \<Rightarrow> int \<Rightarrow> nat \<Rightarrow> nat \<Rightarrow> nat \<Rightarrow> bytes \<Rightarrow> downloader \<Rightarrow> downloader" where
  "accept_block SHA1 now pid p off data dl =
     (let b = off div block_size;
          dl1 = writePiece p off data dl;
          dl2 = dl1\<lparr>dl_downloaded := dl_downloaded dl1 + int (length data)\<rparr>;
          dl3 = upd_stats pid (updateSpeed now (int (length data))) dl2;
          dl4 = upd_piece p (\<lambda>st. st\<lparr>ps_received := (ps_received st)[b := True],
                                    ps_count := ps_count st + 1\<rparr>) dl3 in
      if ps_total (dl_pieces dl4 ! p) \<le> ps_count (dl_pieces dl4 ! p)
      then finish_piece SHA1 p dl4 else dl4)"

definition handle_block :: "(bytes \<Rightarrow> bytes) \<Rightarrow> int \<Rightarrow> nat \<Rightarrow> bytes \<Rightarrow> downloader \<Rightarrow> downloader" where
  "handle_block SHA1 now pid payload dl =
     (if length payload < 8 then dl
      else let p = unat (bytesToInt_raw (take 4 payload));
               off = unat (bytesToInt_raw (take 4 (drop 4 payload)));
               match = (\<lambda>r. rq_piece r = p \<and> rq_offset r = off \<and> rq_peer r = pid) in
        (case find match (dl_pending dl) of
           None \<Rightarrow> dl
         | Some r \<Rightarrow>
             let data = drop 8 payload; b = off div block_size;
                 dl1 = dl\<lparr>dl_pending := remove_first match (dl_pending dl)\<rparr> in
             if length data \<noteq> rq_length r then upd_stats pid count_failure (release r dl1)
             else if ps_total (dl_pieces dl ! p) \<le> int b \<or> ps_received (dl_pieces dl ! p) ! b
               then upd_stats pid count_failure dl1
             else cancelDuplicateRequests p off pid (accept_block SHA1 now pid p off data dl1)))"

definition handle_message :: "(bytes \<Rightarrow> bytes) \<Rightarrow> int \<Rightarrow> nat \<Rightarrow> peer_message \<Rightarrow> downloader \<Rightarrow> downloader" where
  "handle_message SHA1 now pid msg dl =
     (case pm_id msg of
        Choke \<Rightarrow> upd_stats pid count_failure (cancelRequestsForPeer pid dl)
      | Unchoke \<Rightarrow> upd_stats pid (\<lambda>s. s\<lparr>ss_lastUpdate := now, ss_bytes := 0\<rparr>) dl
      | Block \<Rightarrow> handle_block SHA1 now pid (pm_payload msg) dl
      | _ \<Rightarrow> dl)"

text \<open>
  The loop over one peer's messages. Every message takes four bytes or more from what the
  socket still gives, so one turn more than that is enough fuel.
\<close>

fun message_loop :: "(bytes \<Rightarrow> bytes) \<Rightarrow> int \<Rightarrow> nat \<Rightarrow> nat \<Rightarrow> peer_message \<Rightarrow> downloader \<Rightarrow>
    (berror, downloader) outcome" where
  "message_loop SHA1 now pid 0 msg dl = Hang"
| "message_loop SHA1 now pid (Suc f) msg dl =
     (case conn_of dl pid of
        None \<Rightarrow> Ok dl
      | Some c \<Rightarrow>
          obind (receiveMessageNonBlocking c msg) (\<lambda>(ok, c1, msg1).
            let dl1 = set_conn pid c1 dl in
            if ok then message_loop SHA1 now pid f msg1 (handle_message SHA1 now pid msg1 dl1)
            else Ok dl1))"

definition no_message :: peer_message where
  "no_message = \<lparr>pm_length = 0, pm_id = KeepAlive, pm_payload = []\<rparr>"

definition process_peer :: "(bytes \<Rightarrow> bytes) \<Rightarrow> int \<Rightarrow> bytes \<Rightarrow> nat \<Rightarrow> downloader \<Rightarrow>
    (berror, peer list \<times> downloader) outcome" where
  "process_peer SHA1 now arrived pid dl =
     (case conn_of dl pid of
        None \<Rightarrow> Ok ([], dl)
      | Some c \<Rightarrow>
          if \<not> pc_connected c then Ok ([], dl)
          else let c1 = arrive arrived c in
            obind (message_loop SHA1 now pid (Suc (conn_weight c1)) no_message (set_conn pid c1 dl))
              (\<lambda>dl1. case conn_of dl1 pid of
                 None \<Rightarrow> Ok ([], dl1)
               | Some c2 \<Rightarrow>
                   (case takeDiscoveredPeers c2 of (ps, c3) \<Rightarrow> Ok (ps, set_conn pid c3 dl1))))"

fun process_peers :: "(bytes \<Rightarrow> bytes) \<Rightarrow> int \<Rightarrow> (nat \<Rightarrow> bytes) \<Rightarrow> nat list \<Rightarrow> peer list \<Rightarrow> downloader \<Rightarrow>
    (berror, peer list \<times> downloader) outcome" where
  "process_peers SHA1 now arrived [] pex dl = Ok (pex, dl)"
| "process_peers SHA1 now arrived (pid # pids) pex dl =
     obind (process_peer SHA1 now (arrived pid) pid dl)
       (\<lambda>(ps, dl1). process_peers SHA1 now arrived pids (pex @ ps) dl1)"

definition processPeerMessages :: "(bytes \<Rightarrow> bytes) \<Rightarrow> int \<Rightarrow> (nat \<Rightarrow> bytes) \<Rightarrow> downloader \<Rightarrow>
    (berror, downloader) outcome" where
  "processPeerMessages SHA1 now arrived dl =
     obind (process_peers SHA1 now arrived (map fst (dl_peers dl)) [] dl)
       (\<lambda>(pex, dl1). Ok (addPeers now pex dl1))"

section \<open>Statistics\<close>

definition updateSpeedStats :: "int \<Rightarrow> downloader \<Rightarrow> downloader" where
  "updateSpeedStats now dl =
     (let elapsed = tdiv (now - dl_lastSpeedTime dl) 1000000000 in
      if 1 \<le> elapsed
      then dl\<lparr>dl_speed := of_int (dl_downloaded dl - dl_lastDownloaded dl) / of_int elapsed,
              dl_lastSpeedTime := now, dl_lastDownloaded := dl_downloaded dl\<rparr>
      else dl)"

definition getProgress :: "downloader \<Rightarrow> rat" where
  "getProgress dl =
     (let tot = totalLength (dl_torrent dl) in
      if tot \<le> 0 then 0 else min 1 (of_int (dl_downloaded dl) / of_int tot))"

record download_stats =
  st_downloaded :: int
  st_uploaded :: int
  st_totalLength :: int
  st_downloadSpeed :: rat
  st_currentSpeed :: rat
  st_connectedPeers :: int
  st_activePeers :: int
  st_progress :: rat

definition getStats :: "downloader \<Rightarrow> download_stats" where
  "getStats dl =
     \<lparr>st_downloaded = dl_downloaded dl, st_uploaded = dl_uploaded dl,
      st_totalLength = totalLength (dl_torrent dl), st_downloadSpeed = dl_speed dl,
      st_currentSpeed = dl_speed dl, st_connectedPeers = int (length (dl_peers dl)),
      st_activePeers = connected_count dl, st_progress = getProgress dl\<rparr>"

definition remaining_blocks :: "downloader \<Rightarrow> int" where
  "remaining_blocks dl =
     sum_list (map (\<lambda>i. ps_total (dl_pieces dl ! i) - ps_count (dl_pieces dl ! i))
       (filter (\<lambda>i. \<not> dl_completed dl ! i) [0..<numPieces (dl_torrent dl)]))"

definition update_endgame :: "downloader \<Rightarrow> downloader" where
  "update_endgame dl = dl\<lparr>dl_endgame := (remaining_blocks dl \<le> 64)\<rparr>"

section \<open>The download loop\<close>

fun merge_trackers :: "string list \<Rightarrow> string set \<Rightarrow> downloader \<Rightarrow> downloader" where
  "merge_trackers [] existing dl = dl"
| "merge_trackers (t # ts) existing dl =
     (if t \<in> existing then merge_trackers ts existing dl
      else merge_trackers ts (insert t existing)
        (dl\<lparr>dl_torrent := (dl_torrent dl)\<lparr>tAnnounceList := tAnnounceList (dl_torrent dl) @ [t]\<rparr>,
            dl_trackers := tm_add t (dl_trackers dl)\<rparr>))"

definition fetchLatestTrackers :: "(string \<Rightarrow> (int \<times> string) option) \<Rightarrow> downloader \<Rightarrow> downloader" where
  "fetchLatestTrackers http dl =
     (let new = fetchTrackersFromMultipleSources http [TRACKERSLIST_ALL, NGOSANG_ALL] in
      if new = [] then dl else merge_trackers new (set (tAnnounceList (dl_torrent dl))) dl)"

text \<open>
  What one turn of the loop meets (whether the signal handler requests a stop during it, last),
  and the variables it keeps. \<open>te_now\<close> is the clock as each part of the turn reads it: connecting (0),
  messages (1), requests (2), clean-up (3), speed (4), the check whether to prune (5), pruning (6), the
  tracker times (7), and the peers of a tracker (8).
\<close>

record turn_env =
  te_now :: "nat \<Rightarrow> int"
  te_connect :: "nat \<Rightarrow> connect_env"
  te_arrived :: "nat \<Rightarrow> bytes"
  te_http :: "string \<Rightarrow> (int \<times> string) option"
  te_clk :: "nat \<Rightarrow> int"
  te_tracker :: "nat \<Rightarrow> tracker_env"
  te_stop :: bool

record loop_vars =
  lv_lastTime :: int
  lv_lastFetch :: int
  lv_lastPrune :: int
  lv_idle :: int
  lv_sample :: int
  lv_response :: tracker_response

definition contact_trackers :: "(nat \<Rightarrow> int) \<Rightarrow> (nat \<Rightarrow> tracker_env) \<Rightarrow> string \<Rightarrow> downloader \<Rightarrow>
    (berror, tracker_response \<times> downloader) outcome" where
  "contact_trackers clk env event dl =
     obind (tm_contact clk env (dl_torrent dl) (dl_peerId dl) (dl_downloaded dl) (dl_uploaded dl)
              (totalLength (dl_torrent dl) - dl_downloaded dl) event 3 (dl_trackers dl))
       (\<lambda>(resp, tm, _). Ok (resp, dl\<lparr>dl_trackers := tm\<rparr>))"

text \<open>The first half of a turn, up to the check for completion.\<close>

definition turn_work :: "(bytes \<Rightarrow> bytes) \<Rightarrow> turn_env \<Rightarrow> downloader \<Rightarrow> (berror, downloader) outcome" where
  "turn_work SHA1 env dl =
     obind (processPeerMessages SHA1 (te_now env 1) (te_arrived env)
              (snd (connectToPeers (te_now env 0) (te_connect env) dl)))
       (\<lambda>dl1. Ok (update_endgame (updateSpeedStats (te_now env 4)
                (cleanupTimedOutRequests (te_now env 3) (requestPieces (te_now env 2) dl1)))))"

definition turn_prune :: "turn_env \<Rightarrow> loop_vars \<Rightarrow> downloader \<Rightarrow> loop_vars \<times> downloader" where
  "turn_prune env lv dl =
     (if 10 \<le> tdiv (te_now env 5 - lv_lastPrune lv) 1000000000
      then (lv\<lparr>lv_lastPrune := te_now env 5\<rparr>, pruneBadPeers (te_now env 6) dl) else (lv, dl))"

definition tracker_due :: "turn_env \<Rightarrow> loop_vars \<Rightarrow> downloader \<Rightarrow> bool" where
  "tracker_due env lv dl =
     (let elapsed = tdiv (te_now env 7 - lv_lastTime lv) 1000000000 in
      trInterval (lv_response lv) \<le> elapsed \<and> response_ok (lv_response lv) \<or>
      connected_count dl < 10 \<and> 30 \<le> elapsed \<or> 10 \<le> lv_idle lv)"

definition turn_trackers :: "turn_env \<Rightarrow> loop_vars \<Rightarrow> downloader \<Rightarrow> (berror, loop_vars \<times> downloader) outcome" where
  "turn_trackers env lv dl =
     (let now = te_now env 7;
          due = tracker_due env lv dl;
          refresh = (op_refreshTrackers (dl_options dl) \<and> 300 \<le> tdiv (now - lv_lastFetch lv) 1000000000);
          dl1 = (if refresh then fetchLatestTrackers (te_http env) dl else dl);
          lv1 = (if refresh then lv\<lparr>lv_lastFetch := now\<rparr> else lv) in
      if \<not> due then Ok (lv1, dl1)
      else obind (contact_trackers (te_clk env) (te_tracker env) [] dl1) (\<lambda>(resp, dl2).
        Ok (lv1\<lparr>lv_response := resp, lv_lastTime := now, lv_idle := 0\<rparr>,
            if response_ok resp then addPeers (te_now env 8) (trPeers resp) dl2 else dl2)))"

definition turn_idle :: "loop_vars \<Rightarrow> downloader \<Rightarrow> loop_vars" where
  "turn_idle lv dl =
     lv\<lparr>lv_idle := (if dl_downloaded dl = lv_sample lv then lv_idle lv + 1 else 0),
        lv_sample := dl_downloaded dl\<rparr>"

definition stop_if :: "bool \<Rightarrow> downloader \<Rightarrow> downloader" where
  "stop_if requested dl = (if requested then requestStop dl else dl)"

text \<open>The loop, over the environments of its turns; \<open>Hang\<close> if it needs more of them.\<close>

fun download_turns :: "(bytes \<Rightarrow> bytes) \<Rightarrow> turn_env list \<Rightarrow> loop_vars \<Rightarrow> downloader \<Rightarrow>
    (berror, loop_vars \<times> downloader) outcome" where
  "download_turns SHA1 [] lv dl = (if \<not> dl_running dl \<or> dl_stop dl then Ok (lv, dl) else Hang)"
| "download_turns SHA1 (env # envs) lv dl =
     (if \<not> dl_running dl \<or> dl_stop dl then Ok (lv, dl)
      else obind (turn_work SHA1 env dl) (\<lambda>dl1.
        case turn_prune env lv dl1 of (lv2, dl2) \<Rightarrow>
          if isComplete dl2 then Ok (lv2, dl2)
          else obind (turn_trackers env lv2 dl2) (\<lambda>(lv3, dl3).
            download_turns SHA1 envs (turn_idle lv3 dl3) (stop_if (te_stop env) dl3))))"

text \<open>
  \<open>le_stop\<close> tells whether a stop is requested while the trackers are fetched (0) or contacted
  (1), and while the DHT is searched (2).
\<close>

record loop_env =
  le_now :: int
  le_http :: "string \<Rightarrow> (int \<times> string) option"
  le_clk :: "nat \<Rightarrow> int"
  le_tracker :: "nat \<Rightarrow> tracker_env"
  le_dht :: dht_net
  le_stop :: "nat \<Rightarrow> bool"
  le_turns :: "turn_env list"
  le_final :: "string \<Rightarrow> tracker_env"

text \<open>
  The part before the loop: trackers, then the DHT when no peer is known. Without loop
  variables the function returns here, after a stop.
\<close>

definition loop_start :: "loop_env \<Rightarrow> downloader \<Rightarrow> (berror, loop_vars option \<times> downloader) outcome" where
  "loop_start env dl =
     (let dl1 = stop_if (le_stop env 0)
                  (if op_refreshTrackers (dl_options dl) then fetchLatestTrackers (le_http env) dl else dl) in
      if dl_stop dl1 then Ok (None, dl1)
      else obind (contact_trackers (le_clk env) (le_tracker env) ''started'' dl1) (\<lambda>(resp, dl').
        let dl2 = stop_if (le_stop env 1) dl' in
        if dl_stop dl2 then Ok (None, dl2)
        else let dl3 = (if response_ok resp then addPeers (le_now env) (trPeers resp) dl2 else dl2);
                 lv = \<lparr>lv_lastTime = le_now env, lv_lastFetch = le_now env, lv_lastPrune = le_now env,
                       lv_idle = 0, lv_sample = dl_downloaded dl3, lv_response = resp\<rparr> in
          if dl_peers dl3 \<noteq> [] then Ok (Some lv, dl3)
          else obind (discoverDhtPeers (le_dht env) (tInfoHash (dl_torrent dl3)) []
                        \<lparr>do_queryTimeoutMs = 600, do_maxQueries = 16,
                         do_maxPeers = to_unsigned 64 (op_maxPeers (dl_options dl3)) * 2 mod 2 ^ 64\<rparr>)
                 (\<lambda>ps. let dl4 = stop_if (le_stop env 2) dl3 in
                    if dl_stop dl4 then Ok (None, dl4) else Ok (Some lv, addPeers (le_now env) ps dl4))))"

fun announce_stopped :: "(string \<Rightarrow> tracker_env) \<Rightarrow> string list \<Rightarrow> downloader \<Rightarrow> (berror, unit) outcome" where
  "announce_stopped env [] dl = Ok ()"
| "announce_stopped env (u # us) dl =
     obind (contactTracker (env u) u (dl_torrent dl) (dl_peerId dl) (dl_downloaded dl) (dl_uploaded dl)
              (totalLength (dl_torrent dl) - dl_downloaded dl) ''stopped'')
       (\<lambda>_. announce_stopped env us dl)"

definition downloadLoop :: "(bytes \<Rightarrow> bytes) \<Rightarrow> loop_env \<Rightarrow> downloader \<Rightarrow> (berror, downloader) outcome" where
  "downloadLoop SHA1 env dl =
     (if dl_stop dl then Ok (dl\<lparr>dl_running := False\<rparr>)
      else obind (loop_start env dl) (\<lambda>(started, dl1).
        case started of
          None \<Rightarrow> Ok (dl1\<lparr>dl_running := False\<rparr>)
        | Some lv \<Rightarrow>
            obind (download_turns SHA1 (le_turns env) lv dl1) (\<lambda>(_, dl2).
              obind (announce_stopped (le_final env) (tAnnounceList (dl_torrent dl2)) dl2)
                (\<lambda>_. Ok (dl2\<lparr>dl_running := False\<rparr>)))))"

end
