(* ===== verification/Pieces.thy ===== *)
theory Pieces
  imports Downloader
begin

text \<open>
  The arithmetic of pieces and blocks of \<open>src/downloader.cpp\<close>, and the books the downloader
  keeps about them: which blocks and pieces it has, how many, and how many bytes that makes.
\<close>

named_theorems dl_frame \<open>what the small state changes leave alone\<close>

section \<open>Pieces and blocks of a torrent\<close>

text \<open>
  The torrents the books are right for: valid ones, with pieces below 4 GiB (offsets in a
  piece are 32-bit) and fewer than \<open>2 ^ 32\<close> pieces (piece numbers are 32-bit).
\<close>

definition geometry :: "torrent_info \<Rightarrow> bool" where
  "geometry t \<longleftrightarrow> valid_torrent t \<and> tPieceLength t < 2 ^ 32 \<and> numPieces t < 2 ^ 32"

abbreviation blocks_of :: "torrent_info \<Rightarrow> nat \<Rightarrow> nat" where
  "blocks_of t i \<equiv> nat (calculateBlocksForPiece t i)"

lemma geometry_announce [simp]:
  "geometry (t\<lparr>tAnnounceList := l\<rparr>) = geometry t"
  "pieceSize (t\<lparr>tAnnounceList := l\<rparr>) = pieceSize t"
  "totalLength (t\<lparr>tAnnounceList := l\<rparr>) = totalLength t"
  "numPieces (t\<lparr>tAnnounceList := l\<rparr>) = numPieces t"
  "calculateBlocksForPiece (t\<lparr>tAnnounceList := l\<rparr>) = calculateBlocksForPiece t"
  "block_length (t\<lparr>tAnnounceList := l\<rparr>) = block_length t"
  by (simp_all add: geometry_def valid_torrent_def pieceSize_def totalLength_def isMultiFile_def
      numPieces_def calculateBlocksForPiece_def block_length_def fun_eq_iff)

lemma geometry_pieceLength: "geometry t \<Longrightarrow> 0 < tPieceLength t \<and> tPieceLength t < 2 ^ 32"
  by (simp add: geometry_def valid_torrent_def)

lemma geometry_cover:
  assumes "geometry t"
  shows "totalLength t \<le> int (numPieces t) * tPieceLength t"
    and "i < numPieces t \<Longrightarrow> int i * tPieceLength t < totalLength t"
proof -
  have v: "0 \<le> totalLength t" "0 < tPieceLength t"
    "numPieces t = expectedPieces (totalLength t) (tPieceLength t)"
    using assms by (auto simp: geometry_def valid_torrent_def)
  show "totalLength t \<le> int (numPieces t) * tPieceLength t"
    using expectedPieces_cover(1) [OF v(1,2)] v(3) by simp
  assume i: "i < numPieces t"
  have "int i * tPieceLength t \<le> (int (numPieces t) - 1) * tPieceLength t"
    using i v(2) by (intro mult_right_mono) auto
  also have "\<dots> < totalLength t" using expectedPieces_cover(2) [OF v(1,2)] v(3) i by simp
  finally show "int i * tPieceLength t < totalLength t" .
qed

lemma pieceSize_bounds:
  assumes "geometry t" "i < numPieces t"
  shows "0 < pieceSize t i" "pieceSize t i \<le> tPieceLength t" "pieceSize t i < 2 ^ 32"
    and "int i * tPieceLength t + pieceSize t i \<le> totalLength t"
  using geometry_cover(2) [OF assms] geometry_pieceLength [OF assms(1)] by (auto simp: pieceSize_def)

lemma pieces_tile:
  assumes "geometry t"
  shows "n \<le> numPieces t \<Longrightarrow> (\<Sum>i < n. pieceSize t i) = min (int n * tPieceLength t) (totalLength t)"
proof (induction n)
  case 0
  then show ?case using assms by (simp add: geometry_def valid_torrent_def)
next
  case (Suc n)
  then have "int n * tPieceLength t < totalLength t" by (intro geometry_cover(2) [OF assms]) simp
  with Suc show ?case by (simp add: pieceSize_def algebra_simps min_def)
qed

lemma sum_pieceSize: "geometry t \<Longrightarrow> (\<Sum>i < numPieces t. pieceSize t i) = totalLength t"
  using pieces_tile [of t "numPieces t"] geometry_cover(1) [of t] by simp

lemma calculateBlocks_eq:
  assumes "geometry t" "i < numPieces t"
  shows "calculateBlocksForPiece t i = (pieceSize t i + 16383) div 16384"
proof -
  have b: "0 < pieceSize t i" "pieceSize t i < 2 ^ 32" using pieceSize_bounds [OF assms] by auto
  then have "0 \<le> (pieceSize t i + 16383) div 16384" "(pieceSize t i + 16383) div 16384 < 2 ^ 31"
    by auto
  with b show ?thesis
    by (simp add: calculateBlocksForPiece_def block_size_def to_signed_id)
qed

lemma blocks_bounds:
  assumes "geometry t" "i < numPieces t"
  shows "0 < calculateBlocksForPiece t i"
    and "(int (blocks_of t i) - 1) * 16384 < pieceSize t i"
    and "pieceSize t i \<le> int (blocks_of t i) * 16384"
  using pieceSize_bounds(1) [OF assms] unfolding calculateBlocks_eq [OF assms] by auto

lemma block_lt:
  assumes "geometry t" "i < numPieces t" "b < blocks_of t i"
  shows "int b * 16384 < pieceSize t i"
proof -
  have "int b * 16384 < s" if "b < n" "(int n - 1) * 16384 < s" for n :: nat and s
  proof -
    from that(1) have "int b + 1 \<le> int n" by simp
    with that(2) show ?thesis by simp
  qed
  from this [OF assms(3) blocks_bounds(2) [OF assms(1,2)]] show ?thesis .
qed

lemma block_offset_eq:
  assumes "geometry t" "i < numPieces t" "b < blocks_of t i"
  shows "block_offset b = b * 16384"
  using block_lt [OF assms] pieceSize_bounds(3) [OF assms(1,2)] by (simp add: block_offset_def block_size_def)

lemma block_length_eq:
  assumes "geometry t" "i < numPieces t" "b < blocks_of t i"
  shows "int (block_length t i b) = min 16384 (pieceSize t i - int b * 16384)"
  using block_lt [OF assms] block_offset_eq [OF assms]
  by (simp add: block_length_def block_size_def to_unsigned_id min_def)

lemma block_length_bounds:
  assumes "geometry t" "i < numPieces t" "b < blocks_of t i"
  shows "0 < block_length t i b" "block_length t i b \<le> 16384"
    and "int (b * 16384 + block_length t i b) \<le> pieceSize t i"
  using block_length_eq [OF assms] block_lt [OF assms] by auto

lemma blocks_tile:
  assumes "geometry t" "i < numPieces t"
  shows "n \<le> blocks_of t i \<Longrightarrow>
    (\<Sum>b < n. int (block_length t i b)) = min (int n * 16384) (pieceSize t i)"
proof (induction n)
  case 0
  then show ?case using pieceSize_bounds(1) [OF assms] by simp
next
  case (Suc n)
  then have "n < blocks_of t i" by simp
  with Suc block_lt [OF assms this] block_length_eq [OF assms this] show ?case
    by (simp add: algebra_simps min_def)
qed

lemma sum_block_length:
  assumes "geometry t" "i < numPieces t"
  shows "(\<Sum>b < blocks_of t i. int (block_length t i b)) = pieceSize t i"
  using blocks_tile [OF assms, of "blocks_of t i"] blocks_bounds(3) [OF assms] by simp

section \<open>Counting\<close>

definition count_true :: "bool list \<Rightarrow> nat" where
  "count_true bs = length (filter id bs)"

lemma count_true_replicate [simp]: "count_true (replicate n b) = (if b then n else 0)"
  by (simp add: count_true_def)

lemma count_true_Nil [simp]: "count_true [] = 0"
  by (simp add: count_true_def)

lemma count_true_append [simp]: "count_true (xs @ ys) = count_true xs + count_true ys"
  by (simp add: count_true_def)

lemma count_true_Cons [simp]: "count_true (b # bs) = (if b then Suc (count_true bs) else count_true bs)"
  by (simp add: count_true_def)

lemma count_true_set: "i < length bs \<Longrightarrow> \<not> bs ! i \<Longrightarrow> count_true (bs[i := True]) = Suc (count_true bs)"
  by (induction bs arbitrary: i) (auto split: nat.splits simp: count_true_def)

lemma count_true_le: "count_true bs \<le> length bs"
  by (simp add: count_true_def)

lemma count_true_full: "count_true bs = length bs \<longleftrightarrow> (\<forall>i < length bs. bs ! i)"
proof (induction bs)
  case (Cons b bs)
  then show ?case using count_true_le [of bs] by (cases b) (auto simp: All_less_Suc2)
qed (simp add: count_true_def)

section \<open>The books\<close>

definition piece_ok :: "torrent_info \<Rightarrow> nat \<Rightarrow> piece_state \<Rightarrow> bool" where
  "piece_ok t i st \<longleftrightarrow>
     ps_total st = calculateBlocksForPiece t i \<and>
     length (ps_requested st) = blocks_of t i \<and> length (ps_received st) = blocks_of t i \<and>
     ps_count st = int (count_true (ps_received st))"

definition received_bytes :: "torrent_info \<Rightarrow> nat \<Rightarrow> piece_state \<Rightarrow> int" where
  "received_bytes t i st =
     (\<Sum>b < blocks_of t i. if ps_received st ! b then int (block_length t i b) else 0)"

definition request_ok :: "torrent_info \<Rightarrow> block_request \<Rightarrow> bool" where
  "request_ok t r \<longleftrightarrow> rq_piece r < numPieces t \<and>
     (\<exists>b < blocks_of t (rq_piece r). rq_offset r = b * 16384 \<and> rq_length r = block_length t (rq_piece r) b)"

text \<open>
  Every piece's record is right, \<open>piecesCompletedCount_\<close> and \<open>downloadedBytes_\<close> are what
  they stand for, a piece is marked complete exactly when all its blocks are there, and the
  requests in flight are for blocks of the torrent.
\<close>

definition books :: "downloader \<Rightarrow> bool" where
  "books dl \<longleftrightarrow>
     (let t = dl_torrent dl; n = numPieces t in
      geometry t \<and> length (dl_completed dl) = n \<and> length (dl_pieces dl) = n \<and>
      (\<forall>i < n. piece_ok t i (dl_pieces dl ! i)) \<and>
      (\<forall>i < n. dl_completed dl ! i = (ps_count (dl_pieces dl ! i) = ps_total (dl_pieces dl ! i))) \<and>
      dl_completedCount dl = count_true (dl_completed dl) \<and>
      dl_downloaded dl = (\<Sum>i < n. received_bytes t i (dl_pieces dl ! i)) \<and>
      (\<forall>r \<in> set (dl_pending dl). request_ok t r))"

lemma booksD:
  assumes "books dl"
  shows "geometry (dl_torrent dl)" "length (dl_completed dl) = numPieces (dl_torrent dl)"
    "length (dl_pieces dl) = numPieces (dl_torrent dl)"
    "i < numPieces (dl_torrent dl) \<Longrightarrow> piece_ok (dl_torrent dl) i (dl_pieces dl ! i)"
    "i < numPieces (dl_torrent dl) \<Longrightarrow>
       dl_completed dl ! i = (ps_count (dl_pieces dl ! i) = ps_total (dl_pieces dl ! i))"
    "dl_completedCount dl = count_true (dl_completed dl)"
    "dl_downloaded dl = (\<Sum>i < numPieces (dl_torrent dl). received_bytes (dl_torrent dl) i (dl_pieces dl ! i))"
    "r \<in> set (dl_pending dl) \<Longrightarrow> request_ok (dl_torrent dl) r"
  using assms by (auto simp: books_def Let_def)

text \<open>The books are a matter of six fields only.\<close>

lemma books_cong:
  assumes "dl_torrent dl' = dl_torrent dl" "dl_completed dl' = dl_completed dl"
    "dl_pieces dl' = dl_pieces dl" "dl_completedCount dl' = dl_completedCount dl"
    "dl_downloaded dl' = dl_downloaded dl" "dl_pending dl' = dl_pending dl"
  shows "books dl' = books dl"
  using assms by (simp add: books_def)

lemma received_bytes_bounds:
  assumes "geometry t" "i < numPieces t"
  shows "0 \<le> received_bytes t i st" "received_bytes t i st \<le> pieceSize t i"
  unfolding received_bytes_def sum_block_length [OF assms, symmetric]
  by (intro sum_nonneg sum_mono; simp)+

lemma received_bytes_full:
  assumes "geometry t" "i < numPieces t" "piece_ok t i st" "ps_count st = ps_total st"
  shows "received_bytes t i st = pieceSize t i"
proof -
  have "count_true (ps_received st) = length (ps_received st)"
    using assms(3,4) by (metis nat_int piece_ok_def)
  then have "b < blocks_of t i \<Longrightarrow> ps_received st ! b" for b
    using assms(3) unfolding count_true_full by (simp add: piece_ok_def)
  then show ?thesis
    unfolding received_bytes_def sum_block_length [OF assms(1,2), symmetric] by (intro sum.cong) auto
qed

lemma received_bytes_set:
  assumes "b < blocks_of t i" "length (ps_received st) = blocks_of t i" "\<not> ps_received st ! b"
  shows "received_bytes t i (st\<lparr>ps_received := (ps_received st)[b := True], ps_count := c\<rparr>)
    = received_bytes t i st + int (block_length t i b)"
proof -
  let ?f = "\<lambda>bs x. if bs ! x then int (block_length t i x) else 0"
  have "(\<Sum>x < blocks_of t i. ?f ((ps_received st)[b := True]) x)
      = int (block_length t i b) + (\<Sum>x \<in> {..< blocks_of t i} - {b}. ?f (ps_received st) x)"
    using assms(1,2) by (subst sum.remove [of _ b]) (auto intro!: sum.cong)
  also have "(\<Sum>x \<in> {..< blocks_of t i} - {b}. ?f (ps_received st) x) = (\<Sum>x < blocks_of t i. ?f (ps_received st) x)"
    using assms(1,3) by (subst (2) sum.remove [of _ b]) auto
  finally show ?thesis by (simp add: received_bytes_def)
qed

lemma received_bytes_none:
  "length (ps_received st) = blocks_of t i \<Longrightarrow> ps_received st = replicate n False \<Longrightarrow> received_bytes t i st = 0"
  by (auto simp: received_bytes_def)

lemma books_downloaded:
  assumes "books dl"
  shows "0 \<le> dl_downloaded dl" "dl_downloaded dl \<le> totalLength (dl_torrent dl)"
proof -
  note g = booksD(1) [OF assms]
  show "0 \<le> dl_downloaded dl"
    unfolding booksD(7) [OF assms] by (intro sum_nonneg received_bytes_bounds(1) [OF g]) simp
  show "dl_downloaded dl \<le> totalLength (dl_torrent dl)"
    unfolding booksD(7) [OF assms] sum_pieceSize [OF g, symmetric]
    by (intro sum_mono received_bytes_bounds(2) [OF g]) simp
qed

lemma isComplete_iff:
  assumes "books dl"
  shows "isComplete dl \<longleftrightarrow> (\<forall>i < numPieces (dl_torrent dl). dl_hasPiece dl i)"
proof -
  have "isComplete dl \<longleftrightarrow> count_true (dl_completed dl) = length (dl_completed dl)"
    using count_true_le [of "dl_completed dl"] booksD(2,6) [OF assms] by (auto simp: isComplete_def)
  also have "\<dots> \<longleftrightarrow> (\<forall>i < length (dl_completed dl). dl_completed dl ! i)" by (rule count_true_full)
  finally show ?thesis using booksD(2) [OF assms] by (simp add: dl_hasPiece_def)
qed

lemma isComplete_downloaded:
  assumes "books dl" "isComplete dl"
  shows "dl_downloaded dl = totalLength (dl_torrent dl)"
proof -
  have "received_bytes (dl_torrent dl) i (dl_pieces dl ! i) = pieceSize (dl_torrent dl) i"
    if "i < numPieces (dl_torrent dl)" for i
    using that assms(2) unfolding isComplete_iff [OF assms(1)]
    by (intro received_bytes_full booksD [OF assms(1)])
       (auto simp: dl_hasPiece_def booksD(5) [OF assms(1), symmetric])
  then show ?thesis unfolding booksD(7) [OF assms(1)] sum_pieceSize [OF booksD(1) [OF assms(1)], symmetric]
    by (intro sum.cong) auto
qed

end
