(* ===== verification/Bookkeeping.thy ===== *)
theory Bookkeeping
  imports Pieces
begin

text \<open>
  Every operation of \<open>src/downloader.cpp\<close> keeps the books of \<open>Pieces\<close> right, and keeps the
  completed pieces verified on disk.
\<close>

section \<open>The part of the state the books are about\<close>

definition core :: "downloader \<Rightarrow> torrent_info \<times> bool list \<times> piece_state list \<times> nat \<times> int \<times>
    block_request list \<times> output_file list \<times> fs" where
  "core dl = (dl_torrent dl, dl_completed dl, dl_pieces dl, dl_completedCount dl, dl_downloaded dl,
     dl_pending dl, dl_files dl, dl_fs dl)"

lemma core_fields:
  assumes "core dl' = core dl"
  shows "dl_torrent dl' = dl_torrent dl" "dl_completed dl' = dl_completed dl"
    "dl_pieces dl' = dl_pieces dl" "dl_completedCount dl' = dl_completedCount dl"
    "dl_downloaded dl' = dl_downloaded dl" "dl_pending dl' = dl_pending dl"
    "dl_files dl' = dl_files dl" "dl_fs dl' = dl_fs dl"
  using assms by (simp_all add: core_def)

lemma core_set_conn [simp]: "core (set_conn pid c dl) = core dl"
  by (simp add: core_def set_conn_def)

lemma core_upd_stats [simp]: "core (upd_stats pid f dl) = core dl"
  by (simp add: core_def upd_stats_def)

lemma core_rejectPeer [simp]: "core (rejectPeer now ip port dl) = core dl"
  by (simp add: core_def rejectPeer_def)

lemma core_isPeerRejected: "isPeerRejected now ip port dl = (b, dl') \<Longrightarrow> core dl' = core dl"
  by (auto simp: isPeerRejected_def core_def Let_def split: option.splits if_splits)

lemma core_send_cancel [simp]: "core (send_cancel r dl) = core dl"
  by (simp add: send_cancel_def split: option.splits)

lemma core_addPeers [simp]: "core (addPeers now ps dl) = core dl"
proof (induction now ps dl rule: addPeers.induct)
  case (2 now p ps dl)
  then show ?case
    by (auto simp: core_def dest!: core_isPeerRejected split: prod.splits bool.splits)
qed simp

lemma core_connect_loop: "connect_loop now env pids n dl = (m, dl') \<Longrightarrow> core dl' = core dl"
proof (induction now env pids n dl rule: connect_loop.induct)
  case (2 now env pid pids count dl)
  then show ?case
    by (auto split: option.splits if_splits prod.splits bool.splits dest!: core_isPeerRejected)
qed simp

lemma core_connectToPeers [simp]: "core (snd (connectToPeers now env dl)) = core dl"
  by (auto simp: connectToPeers_def Let_def core_def split: prod.splits dest!: core_connect_loop)

lemma core_prune_loop [simp]: "core (prune_loop now pids dl) = core dl"
  by (induction now pids dl rule: prune_loop.induct) (auto simp: Let_def split: option.splits)

lemma core_pruneBadPeers [simp]: "core (pruneBadPeers now dl) = core dl"
  by (simp add: pruneBadPeers_def)

lemma core_updateSpeedStats [simp]: "core (updateSpeedStats now dl) = core dl"
  by (simp add: updateSpeedStats_def core_def Let_def)

lemma core_update_endgame [simp]: "core (update_endgame dl) = core dl"
  by (simp add: update_endgame_def core_def)

lemma core_contact_trackers: "contact_trackers clk env e dl = Ok (r, dl') \<Longrightarrow> core dl' = core dl"
  by (auto simp: contact_trackers_def core_def)

lemma books_core: "core dl' = core dl \<Longrightarrow> books dl' = books dl"
  by (rule books_cong) (erule core_fields)+

section \<open>What is on disk\<close>

definition disk_inv :: "(bytes \<Rightarrow> bytes) \<Rightarrow> downloader \<Rightarrow> bool" where
  "disk_inv SHA1 dl \<longleftrightarrow>
     store_ok (dl_files dl) (dl_fs dl) \<and>
     sum_list (map out_length (dl_files dl)) = totalLength (dl_torrent dl) \<and>
     (\<forall>i < numPieces (dl_torrent dl). dl_hasPiece dl i \<longrightarrow> verifyPiece SHA1 dl i)"

lemma verifyPiece_read:
  assumes "readPieceFromDisk dl' i = readPieceFromDisk dl i" "dl_torrent dl' = dl_torrent dl"
  shows "verifyPiece SHA1 dl' i = verifyPiece SHA1 dl i"
  unfolding verifyPiece_def assms by (rule refl)

lemma verifyPiece_cong:
  assumes "dl_torrent dl' = dl_torrent dl" "dl_files dl' = dl_files dl" "dl_fs dl' = dl_fs dl"
  shows "verifyPiece SHA1 dl' i = verifyPiece SHA1 dl i"
  unfolding verifyPiece_def readPieceFromDisk_def assms by (rule refl)

lemma disk_inv_cong:
  assumes "dl_torrent dl' = dl_torrent dl" "dl_files dl' = dl_files dl" "dl_fs dl' = dl_fs dl"
    "dl_completed dl' = dl_completed dl"
  shows "disk_inv SHA1 dl' = disk_inv SHA1 dl"
  unfolding disk_inv_def dl_hasPiece_def verifyPiece_cong [OF assms(1-3)] assms by (rule refl)

lemma disk_inv_core: "core dl' = core dl \<Longrightarrow> disk_inv SHA1 dl' = disk_inv SHA1 dl"
  by (rule disk_inv_cong) (erule core_fields)+

lemma disk_inv_length:
  assumes "disk_inv SHA1 dl"
  shows "int (length (flat (dl_files dl) (dl_fs dl))) = totalLength (dl_torrent dl)"
  using assms length_flat by (auto simp: disk_inv_def store_ok_def)

lemma writePiece_fields [simp]:
  "dl_torrent (writePiece p off data dl) = dl_torrent dl"
  "dl_files (writePiece p off data dl) = dl_files dl"
  "dl_completed (writePiece p off data dl) = dl_completed dl"
  "dl_pieces (writePiece p off data dl) = dl_pieces dl"
  "dl_completedCount (writePiece p off data dl) = dl_completedCount dl"
  "dl_downloaded (writePiece p off data dl) = dl_downloaded dl"
  "dl_pending (writePiece p off data dl) = dl_pending dl"
  by (simp_all add: writePiece_def)

text \<open>A write inside a piece changes no other piece.\<close>

lemma piece_ranges_disjoint:
  assumes "geometry t" "i < numPieces t" "p < numPieces t" "i \<noteq> p"
  shows "int i * tPieceLength t + pieceSize t i \<le> int p * tPieceLength t \<or>
    int p * tPieceLength t + pieceSize t p \<le> int i * tPieceLength t"
proof -
  have *: "int a * tPieceLength t + pieceSize t a \<le> int b * tPieceLength t"
    if "a < b" "a < numPieces t" for a b
  proof -
    have "int a * tPieceLength t + pieceSize t a \<le> (int a + 1) * tPieceLength t"
      using pieceSize_bounds(2) [OF assms(1) that(2)] by (simp add: algebra_simps)
    also have "\<dots> \<le> int b * tPieceLength t"
      using that(1) geometry_pieceLength [OF assms(1)] by (intro mult_right_mono) auto
    finally show ?thesis .
  qed
  show ?thesis using *[of i p] *[of p i] assms by (cases "i < p") auto
qed

text \<open>The flat array of the files, and what the two operations on pieces do to it.\<close>

abbreviation dl_flat :: "downloader \<Rightarrow> bytes" where
  "dl_flat dl \<equiv> flat (dl_files dl) (dl_fs dl)"

abbreviation piece_start :: "torrent_info \<Rightarrow> nat \<Rightarrow> nat" where
  "piece_start t p \<equiv> nat (int p * tPieceLength t)"

lemma piece_start_bounds:
  assumes "geometry t" "p < numPieces t"
  shows "int (piece_start t p) = int p * tPieceLength t"
    and "int (piece_start t p) + pieceSize t p \<le> totalLength t" and "0 \<le> int p * tPieceLength t"
  using geometry_pieceLength [OF assms(1)] pieceSize_bounds(4) [OF assms] by simp_all

lemma readPiece_flat:
  assumes "geometry (dl_torrent dl)" "store_ok (dl_files dl) (dl_fs dl)"
    "int (length (dl_flat dl)) = totalLength (dl_torrent dl)" "i < numPieces (dl_torrent dl)"
  shows "readPieceFromDisk dl i = Some (take (nat (pieceSize (dl_torrent dl) i))
    (drop (piece_start (dl_torrent dl) i) (dl_flat dl)))"
proof -
  let ?t = "dl_torrent dl"
  have pos: "0 < pieceSize ?t i" by (rule pieceSize_bounds(1) [OF assms(1,4)])
  note st = piece_start_bounds [OF assms(1,4)]
  have "dl_files dl \<noteq> []" using st pos assms(3) by auto
  moreover have "read_range (dl_files dl) (int i * tPieceLength ?t) (nat (pieceSize ?t i)) (dl_fs dl)
      = Some (take (nat (pieceSize ?t i)) (drop (nat (int i * tPieceLength ?t - 0)) (dl_flat dl)))"
    by (rule read_range_flat) (use assms(2,3) st pos in \<open>auto simp: store_ok_def\<close>)
  ultimately show ?thesis using pos by (simp add: readPieceFromDisk_def)
qed

lemma writePiece_flat:
  assumes "books dl" "disk_inv SHA1 dl" "p < numPieces (dl_torrent dl)"
    "int (off + length data) \<le> pieceSize (dl_torrent dl) p"
  shows "\<exists>d'. length d' = length data \<and> (disk_healthy (dl_files dl, dl_fs dl) \<longrightarrow> d' = data) \<and>
    dl_flat (writePiece p off data dl) = splice (piece_start (dl_torrent dl) p + off) d' (dl_flat dl) \<and>
    sized (dl_files dl) (dl_fs (writePiece p off data dl)) \<and>
    faulty (dl_fs (writePiece p off data dl)) = faulty (dl_fs dl) \<and>
    piece_start (dl_torrent dl) p + off + length data \<le> length (dl_flat dl)"
proof -
  let ?t = "dl_torrent dl" and ?a = "int p * tPieceLength (dl_torrent dl) + int off"
  note st = piece_start_bounds [OF booksD(1) [OF assms(1)] assms(3)]
  have ly: "layout 0 (dl_files dl)" "sized (dl_files dl) (dl_fs dl)"
    using assms(2) by (auto simp: disk_inv_def store_ok_def)
  have a: "nat (?a - 0) = piece_start ?t p + off" "0 \<le> ?a" using st(3) by simp_all
  have len: "piece_start ?t p + off + length data \<le> length (dl_flat dl)"
    using st assms(4) disk_inv_length [OF assms(2)] by simp
  show ?thesis
    using write_range_flat [OF ly a(2), of data, unfolded a(1)] len
    by (auto simp: writePiece_def disk_healthy_def)
qed

lemma writePiece_disk:
  assumes "books dl" "disk_inv SHA1 dl" "p < numPieces (dl_torrent dl)"
    "int (off + length data) \<le> pieceSize (dl_torrent dl) p"
  shows "store_ok (dl_files dl) (dl_fs (writePiece p off data dl))"
    and "i < numPieces (dl_torrent dl) \<Longrightarrow> i \<noteq> p \<Longrightarrow>
      readPieceFromDisk (writePiece p off data dl) i = readPieceFromDisk dl i"
proof -
  let ?t = "dl_torrent dl" and ?dl' = "writePiece p off data dl"
  have g: "geometry ?t" by (rule booksD(1) [OF assms(1)])
  obtain d' where d': "length d' = length data"
    "dl_flat ?dl' = splice (piece_start ?t p + off) d' (dl_flat dl)" "sized (dl_files dl) (dl_fs ?dl')"
    "piece_start ?t p + off + length data \<le> length (dl_flat dl)"
    using writePiece_flat [OF assms] by blast
  show ok: "store_ok (dl_files dl) (dl_fs ?dl')" using assms(2) d'(3) by (simp add: disk_inv_def store_ok_def)
  assume i: "i < numPieces ?t" "i \<noteq> p"
  note len = disk_inv_length [OF assms(2)]
  have len': "int (length (dl_flat ?dl')) = totalLength ?t" using d' len by simp
  note sp = piece_start_bounds [OF g assms(3)] and si = piece_start_bounds [OF g i(1)]
  have pos: "0 < pieceSize ?t i" by (rule pieceSize_bounds(1) [OF g i(1)])
  have "piece_start ?t i + nat (pieceSize ?t i) \<le> piece_start ?t p + off \<or>
      piece_start ?t p + off + length d' \<le> piece_start ?t i"
    using piece_ranges_disjoint [OF g i(1) assms(3) i(2)] sp(3) si(3) assms(4) d'(1) pos by auto
  moreover have "piece_start ?t i + nat (pieceSize ?t i) \<le> length (dl_flat dl)" using si len pos by simp
  ultimately have "take (nat (pieceSize ?t i)) (drop (piece_start ?t i) (dl_flat ?dl'))
      = take (nat (pieceSize ?t i)) (drop (piece_start ?t i) (dl_flat dl))"
    unfolding d'(2) using d'(1,4) by (intro take_drop_splice_disjoint) auto
  then show "readPieceFromDisk ?dl' i = readPieceFromDisk dl i"
    using readPiece_flat [of ?dl' i] readPiece_flat [of dl i] g ok len len' i(1) assms(2)
    by (simp add: disk_inv_def)
qed

section \<open>Small changes\<close>

text \<open>Only the flags of requested blocks change.\<close>

definition same_but_requested :: "piece_state \<Rightarrow> piece_state \<Rightarrow> bool" where
  "same_but_requested st st' \<longleftrightarrow>
     (\<exists>rq. st' = st\<lparr>ps_requested := rq\<rparr> \<and> length rq = length (ps_requested st))"

lemma same_but_requested_refl [simp]: "same_but_requested st st"
  unfolding same_but_requested_def by (rule exI [of _ "ps_requested st"]) simp

lemma same_but_requested_set [simp]:
  "length rq = length (ps_requested st) \<Longrightarrow> same_but_requested st (st\<lparr>ps_requested := rq\<rparr>)"
  unfolding same_but_requested_def by blast

lemma same_but_requested_ok:
  assumes "same_but_requested st st'"
  shows "piece_ok t i st' = piece_ok t i st" "received_bytes t i st' = received_bytes t i st"
    "ps_count st' = ps_count st" "ps_total st' = ps_total st" "ps_received st' = ps_received st"
  using assms by (auto simp: same_but_requested_def piece_ok_def received_bytes_def)

lemma books_requested:
  assumes "books dl" "\<And>st. same_but_requested st (f st)"
  shows "books (upd_piece p f dl)"
proof -
  let ?ps = "dl_pieces dl" and ?ps' = "(dl_pieces dl)[p := f (dl_pieces dl ! p)]"
  have *: "same_but_requested (?ps ! i) (?ps' ! i) \<or> ?ps' ! i = ?ps ! i" for i
    using assms(2) by (cases "p < length ?ps"; cases "i = p") (auto simp: list_update_beyond)
  have "piece_ok t i (?ps' ! i) = piece_ok t i (?ps ! i)"
    "received_bytes t i (?ps' ! i) = received_bytes t i (?ps ! i)"
    "ps_count (?ps' ! i) = ps_count (?ps ! i)" "ps_total (?ps' ! i) = ps_total (?ps ! i)" for t i
    using *[of i] same_but_requested_ok by (metis (no_types))+
  then show ?thesis using assms(1) by (simp add: books_def Let_def upd_piece_def)
qed

lemma disk_inv_upd_piece [simp]: "disk_inv SHA1 (upd_piece p f dl) = disk_inv SHA1 dl"
  by (rule disk_inv_cong) (simp_all add: upd_piece_def)

lemma disk_inv_pending [simp]: "disk_inv SHA1 (dl\<lparr>dl_pending := rs\<rparr>) = disk_inv SHA1 dl"
  by (rule disk_inv_cong) simp_all

lemma books_pending:
  "books dl \<Longrightarrow> \<forall>r \<in> set rs. request_ok (dl_torrent dl) r \<Longrightarrow> books (dl\<lparr>dl_pending := rs\<rparr>)"
  by (simp add: books_def Let_def)

lemma upd_piece_fields [simp]:
  "dl_torrent (upd_piece p f dl) = dl_torrent dl" "dl_completed (upd_piece p f dl) = dl_completed dl"
  "dl_pending (upd_piece p f dl) = dl_pending dl" "dl_files (upd_piece p f dl) = dl_files dl"
  "dl_fs (upd_piece p f dl) = dl_fs dl" "dl_options (upd_piece p f dl) = dl_options dl"
  "dl_peers (upd_piece p f dl) = dl_peers dl"
  by (simp_all add: upd_piece_def)

text \<open>Operations that give requests up or make them: the rest of the books stays.\<close>

definition keeps :: "downloader \<Rightarrow> downloader \<Rightarrow> bool" where
  "keeps dl dl' \<longleftrightarrow>
     dl_torrent dl' = dl_torrent dl \<and> dl_completed dl' = dl_completed dl \<and>
     dl_files dl' = dl_files dl \<and> dl_fs dl' = dl_fs dl \<and>
     (books dl \<longrightarrow> books dl') \<and> (\<forall>SHA1. disk_inv SHA1 dl \<longrightarrow> disk_inv SHA1 dl')"

lemma keeps_refl [simp, intro]: "keeps dl dl"
  by (simp add: keeps_def)

lemma keeps_trans [trans]: "keeps a b \<Longrightarrow> keeps b c \<Longrightarrow> keeps a c"
  by (simp add: keeps_def)

lemma keeps_core: "core dl' = core dl \<Longrightarrow> keeps dl dl'"
  unfolding keeps_def using core_fields(1,2,7,8) [of dl' dl] books_core [of dl' dl] disk_inv_core [of dl' dl]
  by blast

lemma keeps_upd_piece: "(\<And>st. same_but_requested st (f st)) \<Longrightarrow> keeps dl (upd_piece p f dl)"
  by (simp add: keeps_def books_requested)

lemma keeps_release: "keeps dl (release r dl)"
  unfolding release_def Let_def by (rule keeps_upd_piece) simp

lemma keeps_pending_subset: "set rs \<subseteq> set (dl_pending dl) \<Longrightarrow> keeps dl (dl\<lparr>dl_pending := rs\<rparr>)"
  by (auto simp: keeps_def intro!: books_pending dest: booksD(8))

lemma keeps_drop_requests: "keeps dl (drop_requests gone dl)"
  unfolding drop_requests_def by (rule keeps_pending_subset) auto

lemma keeps_fold: "(\<And>r dl. keeps dl (f r dl)) \<Longrightarrow> keeps dl (fold f rs dl)"
  by (induction rs arbitrary: dl) (auto intro: keeps_trans)

lemma keeps_cancelRequestsForPeer: "keeps dl (cancelRequestsForPeer pid dl)"
  unfolding cancelRequestsForPeer_def Let_def
  by (rule keeps_trans [OF keeps_drop_requests keeps_fold]) (rule keeps_release)

lemma keeps_cleanupTimedOutRequests: "keeps dl (cleanupTimedOutRequests now dl)"
  unfolding cleanupTimedOutRequests_def
  by (rule keeps_trans [OF keeps_drop_requests keeps_fold])
     (simp add: keeps_trans [OF keeps_release keeps_core])

lemma keeps_cancelDuplicateRequests: "keeps dl (cancelDuplicateRequests p off keep dl)"
  unfolding cancelDuplicateRequests_def Let_def
  by (rule keeps_trans [OF keeps_drop_requests keeps_fold])
     (simp add: keeps_trans [OF keeps_core keeps_release])

section \<open>Requesting blocks\<close>

lemma keeps_new_request:
  assumes "p < numPieces (dl_torrent dl)" "i < blocks_of (dl_torrent dl) p"
    "rq_piece r = p" "rq_offset r = block_offset i" "rq_length r = block_length (dl_torrent dl) p i"
  shows "keeps dl (dl\<lparr>dl_pending := dl_pending dl @ [r]\<rparr>)"
proof -
  have "request_ok (dl_torrent dl) r" if "books dl"
    unfolding request_ok_def assms(3-5) using assms(1,2) block_offset_eq [OF booksD(1) [OF that] assms(1,2)]
    by auto
  then show ?thesis using booksD(8) [of dl] books_pending [of dl "dl_pending dl @ [r]"]
    by (auto simp: keeps_def)
qed

lemma keeps_request_loop:
  "p < numPieces (dl_torrent dl) \<Longrightarrow> \<forall>i \<in> set is. i < blocks_of (dl_torrent dl) p \<Longrightarrow>
   keeps dl (request_loop now pid p is n dl)"
proof (induction "is" arbitrary: n dl)
  case (Cons i "is")
  have step: "keeps dl (request_loop now pid p is (n + 1)
      ((upd_piece p (\<lambda>st. st\<lparr>ps_requested := (ps_requested st)[i := True]\<rparr>) (set_conn pid c dl))
        \<lparr>dl_pending := dl_pending dl @ [r]\<rparr>))" (is "keeps dl (request_loop now pid p is (n + 1) ?d)")
    if "rq_piece r = p" "rq_offset r = block_offset i" "rq_length r = block_length (dl_torrent dl) p i" for c r
  proof -
    let ?u = "upd_piece p (\<lambda>st. st\<lparr>ps_requested := (ps_requested st)[i := True]\<rparr>) (set_conn pid c dl)"
    have "keeps dl (set_conn pid c dl)" by (rule keeps_core) simp
    also have "keeps (set_conn pid c dl) ?u"
      by (rule keeps_upd_piece) simp
    also have "keeps ?u ?d"
      using keeps_new_request [of p ?u i r] Cons.prems that by (simp add: set_conn_def)
    finally have k: "keeps dl ?d" .
    then have "dl_torrent ?d = dl_torrent dl" by (simp add: keeps_def)
    with Cons.prems k show ?thesis by (intro keeps_trans [OF k] Cons.IH) simp_all
  qed
  show ?case
    using Cons.prems step
    by (auto simp: Let_def intro: Cons.IH keeps_core split: option.splits prod.splits bool.splits)
qed simp

lemma needed_pieces_bound: "set (needed_pieces dl c) \<subseteq> {..< numPieces (dl_torrent dl)}"
  by (auto simp: needed_pieces_def)

lemma best_partial_in: "best_partial dl is b s = Some p \<Longrightarrow> p \<in> set is \<or> b = Some p"
  by (induction "is" arbitrary: b s) (auto simp: Let_def split: if_splits)

lemma rarest_in: "rarest dl is b m = Some p \<Longrightarrow> p \<in> set is \<or> b = Some p"
  by (induction "is" arbitrary: b m) (auto split: if_splits)

lemma selectNextPiece_bound: "selectNextPiece dl = Some p \<Longrightarrow> p < numPieces (dl_torrent dl)"
  by (auto simp: selectNextPiece_def Let_def split: option.splits dest: best_partial_in rarest_in)

lemma chosen_piece_bound:
  "needed_pieces dl c \<noteq> [] \<Longrightarrow> chosen_piece dl c < numPieces (dl_torrent dl)"
proof -
  assume "needed_pieces dl c \<noteq> []"
  then have "hd (needed_pieces dl c) < numPieces (dl_torrent dl)"
    using hd_in_set needed_pieces_bound [of dl c] by blast
  then show ?thesis by (auto simp: chosen_piece_def dest: selectNextPiece_bound split: option.splits)
qed

text \<open>
  The blocks of the chosen piece are those its record counts; when the books are right these
  are the blocks the piece has.
\<close>

definition good :: "(bytes \<Rightarrow> bytes) \<Rightarrow> downloader \<Rightarrow> bool" where
  "good SHA1 dl \<longleftrightarrow> books dl \<and> disk_inv SHA1 dl"

lemma keeps_good: "keeps dl dl' \<Longrightarrow> good SHA1 dl \<Longrightarrow> good SHA1 dl'"
  by (simp add: keeps_def good_def)

lemma good_core: "core dl' = core dl \<Longrightarrow> good SHA1 dl' = good SHA1 dl"
  unfolding good_def using books_core [of dl' dl] disk_inv_core [of dl' dl] by blast

lemma keeps_requestBlocksFromPeer:
  assumes "books dl"
  shows "keeps dl (requestBlocksFromPeer now pid dl)"
proof -
  have "keeps dl (request_loop now pid (chosen_piece dl c)
      [0..<nat (ps_total (dl_pieces dl ! chosen_piece dl c))] n dl)"
    if "needed_pieces dl c \<noteq> []" for c n
  proof (rule keeps_request_loop)
    show "chosen_piece dl c < numPieces (dl_torrent dl)" using that by (rule chosen_piece_bound)
    then show "\<forall>i \<in> set [0..<nat (ps_total (dl_pieces dl ! chosen_piece dl c))].
        i < blocks_of (dl_torrent dl) (chosen_piece dl c)"
      using booksD(4) [OF assms, of "chosen_piece dl c"] by (auto simp: piece_ok_def)
  qed
  then show ?thesis by (simp add: requestBlocksFromPeer_def Let_def split: option.splits)
qed

lemma keeps_request_peers: "books dl \<Longrightarrow> keeps dl (request_peers now n pids dl)"
proof (induction pids arbitrary: dl)
  case (Cons pid pids)
  have k: "keeps dl (requestBlocksFromPeer now pid dl)" by (rule keeps_requestBlocksFromPeer [OF Cons.prems])
  then have "books (requestBlocksFromPeer now pid dl)" using Cons.prems by (simp add: keeps_def)
  from keeps_trans [OF k Cons.IH [OF this]] Cons.IH [OF Cons.prems] show ?case by simp
qed simp

lemma keeps_requestPieces: "books dl \<Longrightarrow> keeps dl (requestPieces now dl)"
  unfolding requestPieces_def Let_def by (rule keeps_request_peers)

lemma good_requestPieces: "good SHA1 dl \<Longrightarrow> good SHA1 (requestPieces now dl)"
  by (rule keeps_good [OF keeps_requestPieces]) (simp_all add: good_def)

section \<open>A block arrives\<close>

lemma sum_list_update:
  fixes f :: "nat \<Rightarrow> 'a \<Rightarrow> int"
  assumes "p < n" "length xs = n"
  shows "(\<Sum>i < n. f i (xs[p := x] ! i)) = (\<Sum>i < n. f i (xs ! i)) - f p (xs ! p) + f p x"
proof -
  have "(\<Sum>i \<in> {..<n} - {p}. f i (xs[p := x] ! i)) = (\<Sum>i \<in> {..<n} - {p}. f i (xs ! i))"
    by (intro sum.cong) auto
  then show ?thesis using assms by (simp add: sum.remove [of _ p])
qed

lemma books_replace:
  assumes "books dl" "p < numPieces (dl_torrent dl)" "piece_ok (dl_torrent dl) p st"
    "c = (ps_count st = ps_total st)"
    "dl_torrent dl' = dl_torrent dl" "set (dl_pending dl') \<subseteq> set (dl_pending dl)"
    "dl_completed dl' = (dl_completed dl)[p := c]" "dl_pieces dl' = (dl_pieces dl)[p := st]"
    "dl_completedCount dl' = count_true ((dl_completed dl)[p := c])"
    "dl_downloaded dl' = dl_downloaded dl - received_bytes (dl_torrent dl) p (dl_pieces dl ! p)
       + received_bytes (dl_torrent dl) p st"
  shows "books dl'"
  unfolding books_def Let_def
proof (intro conjI allI impI ballI)
  note b = booksD [OF assms(1)]
  show "dl_downloaded dl' =
      (\<Sum>i < numPieces (dl_torrent dl'). received_bytes (dl_torrent dl') i (dl_pieces dl' ! i))"
    unfolding assms(5,8,10) b(7) using sum_list_update [OF assms(2) b(3)] by simp
  show "piece_ok (dl_torrent dl') i (dl_pieces dl' ! i)"
    if "i < numPieces (dl_torrent dl')" for i
    using that b(3,4) assms(2,3,5,8) by (auto simp: nth_list_update)
  show "dl_completed dl' ! i = (ps_count (dl_pieces dl' ! i) = ps_total (dl_pieces dl' ! i))"
    if "i < numPieces (dl_torrent dl')" for i
    using that b(2,3,5) assms(2,4,5,7,8) by (auto simp: nth_list_update)
  show "request_ok (dl_torrent dl') r" if "r \<in> set (dl_pending dl')" for r
    using that b(8) assms(5,6) by auto
qed (use booksD(1-3) [OF assms(1)] assms in auto)

lemma disk_inv_replace:
  assumes "books dl" "disk_inv SHA1 dl" "p < numPieces (dl_torrent dl)"
    "int (off + length data) \<le> pieceSize (dl_torrent dl) p"
    "dl_torrent dl' = dl_torrent dl" "dl_files dl' = dl_files dl"
    "dl_fs dl' = dl_fs (writePiece p off data dl)"
    "dl_completed dl' = (dl_completed dl)[p := c]" "c \<Longrightarrow> verifyPiece SHA1 dl' p"
  shows "disk_inv SHA1 dl'"
proof -
  note w = writePiece_disk [OF assms(1-4)]
  have v: "verifyPiece SHA1 dl' i = verifyPiece SHA1 (writePiece p off data dl) i" for i
    by (rule verifyPiece_cong) (simp_all add: assms)
  have "verifyPiece SHA1 dl' i" if "i < numPieces (dl_torrent dl)" "dl_hasPiece dl' i" for i
  proof (cases "i = p")
    case True
    with that assms(3,8,9) booksD(2) [OF assms(1)] show ?thesis by (simp add: dl_hasPiece_def)
  next
    case False
    with that(2) assms(8) have "dl_hasPiece dl i" by (simp add: dl_hasPiece_def)
    with assms(2) that(1) False verifyPiece_read [OF w(2) [OF that(1) False]] show ?thesis by (simp add: disk_inv_def v)
  qed
  with assms(2) w(1) show ?thesis by (simp add: disk_inv_def assms(5-7))
qed

lemma upd_stats_fields [simp]:
  "dl_torrent (upd_stats pid f dl) = dl_torrent dl" "dl_completed (upd_stats pid f dl) = dl_completed dl"
  "dl_pieces (upd_stats pid f dl) = dl_pieces dl" "dl_pending (upd_stats pid f dl) = dl_pending dl"
  "dl_completedCount (upd_stats pid f dl) = dl_completedCount dl"
  "dl_downloaded (upd_stats pid f dl) = dl_downloaded dl"
  "dl_files (upd_stats pid f dl) = dl_files dl" "dl_fs (upd_stats pid f dl) = dl_fs dl"
  by (simp_all add: upd_stats_def)

text \<open>The state when a block has been written and recorded, before the piece is looked at.\<close>

definition block_recorded :: "int \<Rightarrow> nat \<Rightarrow> nat \<Rightarrow> nat \<Rightarrow> bytes \<Rightarrow> downloader \<Rightarrow> downloader" where
  "block_recorded now pid p off data dl =
     upd_piece p (\<lambda>st. st\<lparr>ps_received := (ps_received st)[off div block_size := True],
                          ps_count := ps_count st + 1\<rparr>)
       (upd_stats pid (updateSpeed now (int (length data)))
         ((writePiece p off data dl)\<lparr>dl_downloaded := dl_downloaded dl + int (length data)\<rparr>))"

lemma accept_block_eq:
  "accept_block SHA1 now pid p off data dl =
     (let dl4 = block_recorded now pid p off data dl in
      if ps_total (dl_pieces dl4 ! p) \<le> ps_count (dl_pieces dl4 ! p) then finish_piece SHA1 p dl4 else dl4)"
  by (simp add: accept_block_def block_recorded_def Let_def)

lemma block_recorded_fields [simp]:
  "dl_torrent (block_recorded now pid p off data dl) = dl_torrent dl"
  "dl_completed (block_recorded now pid p off data dl) = dl_completed dl"
  "dl_completedCount (block_recorded now pid p off data dl) = dl_completedCount dl"
  "dl_pending (block_recorded now pid p off data dl) = dl_pending dl"
  "dl_files (block_recorded now pid p off data dl) = dl_files dl"
  "dl_fs (block_recorded now pid p off data dl) = dl_fs (writePiece p off data dl)"
  "dl_downloaded (block_recorded now pid p off data dl) = dl_downloaded dl + int (length data)"
  "dl_pieces (block_recorded now pid p off data dl) = (dl_pieces dl)[p := (dl_pieces dl ! p)
     \<lparr>ps_received := (ps_received (dl_pieces dl ! p))[off div block_size := True],
      ps_count := ps_count (dl_pieces dl ! p) + 1\<rparr>]"
  by (simp_all add: block_recorded_def) (simp_all add: upd_piece_def)

text \<open>A request for a block that has not come yet.\<close>

definition awaited :: "downloader \<Rightarrow> nat \<Rightarrow> nat \<Rightarrow> nat \<Rightarrow> bool" where
  "awaited dl p b n \<longleftrightarrow>
     p < numPieces (dl_torrent dl) \<and> b < blocks_of (dl_torrent dl) p \<and>
     \<not> ps_received (dl_pieces dl ! p) ! b \<and> n = block_length (dl_torrent dl) p b"

lemma awaited_piece:
  assumes "books dl" "awaited dl p b n"
  shows "ps_count (dl_pieces dl ! p) < ps_total (dl_pieces dl ! p)" "\<not> dl_completed dl ! p"
    "int (b * 16384 + n) \<le> pieceSize (dl_torrent dl) p"
proof -
  have p: "p < numPieces (dl_torrent dl)" "b < blocks_of (dl_torrent dl) p"
    using assms(2) by (auto simp: awaited_def)
  have ok: "piece_ok (dl_torrent dl) p (dl_pieces dl ! p)" by (rule booksD(4) [OF assms(1) p(1)])
  have "count_true (ps_received (dl_pieces dl ! p)) \<noteq> length (ps_received (dl_pieces dl ! p))"
    unfolding count_true_full using assms(2) ok by (auto simp: awaited_def piece_ok_def)
  with count_true_le [of "ps_received (dl_pieces dl ! p)"] ok
  show "ps_count (dl_pieces dl ! p) < ps_total (dl_pieces dl ! p)" by (auto simp: piece_ok_def)
  then show "\<not> dl_completed dl ! p" using booksD(5) [OF assms(1) p(1)] by simp
  show "int (b * 16384 + n) \<le> pieceSize (dl_torrent dl) p"
    using block_length_bounds(3) [OF booksD(1) [OF assms(1)] p] assms(2) by (simp add: awaited_def)
qed

lemma recorded_piece:
  assumes "piece_ok t p st" "b < blocks_of t p" "\<not> ps_received st ! b"
  shows "piece_ok t p (st\<lparr>ps_received := (ps_received st)[b := True], ps_count := ps_count st + 1\<rparr>)"
  using assms by (simp add: piece_ok_def count_true_set)

abbreviation cleared :: "piece_state \<Rightarrow> piece_state" where
  "cleared st \<equiv> st\<lparr>ps_requested := replicate (nat (ps_total st)) False,
     ps_received := replicate (nat (ps_total st)) False, ps_count := 0\<rparr>"

lemma cleared_piece:
  assumes "piece_ok t p st"
  shows "piece_ok t p (cleared st)" "received_bytes t p (cleared st) = 0"
  using assms by (auto simp: piece_ok_def received_bytes_def)

lemma finish_piece_fields [simp]:
  "dl_torrent (finish_piece SHA1 p dl) = dl_torrent dl" "dl_files (finish_piece SHA1 p dl) = dl_files dl"
  "dl_fs (finish_piece SHA1 p dl) = dl_fs dl"
  "dl_completed (finish_piece SHA1 p dl) =
     (if verifyPiece SHA1 dl p then (dl_completed dl)[p := True] else dl_completed dl)"
  "set (dl_pending (finish_piece SHA1 p dl)) \<subseteq> set (dl_pending dl)"
  by (auto simp: finish_piece_def drop_requests_def)

abbreviation marked :: "nat \<Rightarrow> piece_state \<Rightarrow> piece_state" where
  "marked b st \<equiv> st\<lparr>ps_received := (ps_received st)[b := True], ps_count := ps_count st + 1\<rparr>"

text \<open>The piece after its block has been recorded.\<close>

lemma awaited_recorded:
  assumes "books dl" "awaited dl p b (length data)" "off = b * 16384"
  shows "dl_pieces (block_recorded now pid p off data dl) = (dl_pieces dl)[p := marked b (dl_pieces dl ! p)]"
    "piece_ok (dl_torrent dl) p (marked b (dl_pieces dl ! p))"
    "received_bytes (dl_torrent dl) p (marked b (dl_pieces dl ! p)) =
       received_bytes (dl_torrent dl) p (dl_pieces dl ! p) + int (length data)"
    "p < numPieces (dl_torrent dl)" "p < length (dl_pieces dl)" "p < length (dl_completed dl)"
    "(dl_completed dl)[p := False] = dl_completed dl" "int (off + length data) \<le> pieceSize (dl_torrent dl) p"
proof -
  show p: "p < numPieces (dl_torrent dl)" using assms(2) by (simp add: awaited_def)
  have b: "b < blocks_of (dl_torrent dl) p" "\<not> ps_received (dl_pieces dl ! p) ! b"
    "length data = block_length (dl_torrent dl) p b"
    using assms(2) by (auto simp: awaited_def)
  have ok: "piece_ok (dl_torrent dl) p (dl_pieces dl ! p)" by (rule booksD(4) [OF assms(1) p])
  show "dl_pieces (block_recorded now pid p off data dl) = (dl_pieces dl)[p := marked b (dl_pieces dl ! p)]"
    by (simp add: assms(3) block_size_def)
  show "piece_ok (dl_torrent dl) p (marked b (dl_pieces dl ! p))" by (rule recorded_piece [OF ok b(1,2)])
  show "received_bytes (dl_torrent dl) p (marked b (dl_pieces dl ! p)) =
      received_bytes (dl_torrent dl) p (dl_pieces dl ! p) + int (length data)"
    using received_bytes_set [OF b(1) _ b(2)] ok b(3) by (simp add: piece_ok_def)
  show "p < length (dl_pieces dl)" "p < length (dl_completed dl)" using p booksD(2,3) [OF assms(1)] by auto
  show "(dl_completed dl)[p := False] = dl_completed dl"
    using awaited_piece(2) [OF assms(1,2)] by (metis list_update_id)
  show "int (off + length data) \<le> pieceSize (dl_torrent dl) p"
    using awaited_piece(3) [OF assms(1,2)] by (simp add: assms(3))
qed

text \<open>With its last block a piece is complete if it verifies, and empty again otherwise.\<close>

lemma books_finished:
  assumes "books dl" "awaited dl p b (length data)" "off = b * 16384"
    "ps_total (dl_pieces dl ! p) \<le> ps_count (dl_pieces dl ! p) + 1"
  shows "books (finish_piece SHA1 p (block_recorded now pid p off data dl))"
proof -
  let ?t = "dl_torrent dl" and ?st = "dl_pieces dl ! p" and ?d4 = "block_recorded now pid p off data dl"
  note ar = awaited_recorded [OF assms(1-3)] and aw = awaited_piece [OF assms(1,2)]
  have full: "ps_count (marked b ?st) = ps_total (marked b ?st)" using aw(1) assms(4) by simp
  have blk: "off div block_size = b" by (simp add: assms(3) block_size_def)
  show ?thesis
  proof (cases "verifyPiece SHA1 ?d4 p")
    case True
    show ?thesis
      by (rule books_replace [OF assms(1) ar(4,2), where c = True])
         (use True full ar(3,5,6) aw(2) booksD(6) [OF assms(1)] in \<open>auto simp: finish_piece_def count_true_set blk\<close>)
  next
    case False
    have tot: "0 < ps_total ?st"
      using blocks_bounds(1) [OF booksD(1) [OF assms(1)] ar(4)] booksD(4) [OF assms(1) ar(4)] by (simp add: piece_ok_def)
    have c: "received_bytes ?t p (marked b ?st) = pieceSize ?t p"
      by (rule received_bytes_full [OF booksD(1) [OF assms(1)] ar(4,2) full])
    have le: "received_bytes ?t p ?st \<le> dl_downloaded dl"
      unfolding booksD(7) [OF assms(1)] using ar(4)
      by (intro member_le_sum) (auto intro: received_bytes_bounds(1) [OF booksD(1) [OF assms(1)]])
    show ?thesis
      by (rule books_replace [OF assms(1) ar(4) cleared_piece(1) [OF ar(2)], where c = False])
         (use False tot full aw ar(3,5,7) c le cleared_piece(2) [OF ar(2)] booksD(6) [OF assms(1)] in
           \<open>auto simp: finish_piece_def drop_requests_def blk upd_piece_def\<close>)
  qed
qed

lemma good_accept_block:
  assumes "good SHA1 dl" "awaited dl p b (length data)" "off = b * 16384"
  shows "good SHA1 (accept_block SHA1 now pid p off data dl)"
proof -
  let ?d4 = "block_recorded now pid p off data dl"
  have bk: "books dl" and dk: "disk_inv SHA1 dl" using assms(1) by (auto simp: good_def)
  note ar = awaited_recorded [OF bk assms(2,3)]
  show ?thesis
  proof (cases "ps_total (dl_pieces dl ! p) \<le> ps_count (dl_pieces dl ! p) + 1")
    case False
    have "books ?d4"
      by (rule books_replace [OF bk ar(4,2), where c = False])
         (use False ar(1,3,7) booksD(6) [OF bk] in \<open>auto simp del: block_recorded_fields(8)\<close>)
    moreover have "disk_inv SHA1 ?d4"
      by (rule disk_inv_replace [OF bk dk ar(4,8), where c = False]) (simp_all add: ar(7))
    moreover have "accept_block SHA1 now pid p off data dl = ?d4"
      using False ar(1,5) by (simp add: accept_block_eq del: block_recorded_fields(8))
    ultimately show ?thesis by (simp add: good_def)
  next
    case True
    have "disk_inv SHA1 (finish_piece SHA1 p ?d4)"
      by (rule disk_inv_replace [OF bk dk ar(4,8), where c = "verifyPiece SHA1 ?d4 p"])
         (auto simp: ar(7) verifyPiece_cong [of "finish_piece SHA1 p ?d4" ?d4])
    moreover have "accept_block SHA1 now pid p off data dl = finish_piece SHA1 p ?d4"
      using True ar(1,5) by (simp add: accept_block_eq del: block_recorded_fields(8))
    ultimately show ?thesis using books_finished [OF bk assms(2,3) True] by (simp add: good_def)
  qed
qed

lemma remove_first_subset: "set (remove_first P xs) \<subseteq> set xs"
  by (induction xs) auto

lemma good_pending_subset:
  "set rs \<subseteq> set (dl_pending dl) \<Longrightarrow> good SHA1 dl \<Longrightarrow> good SHA1 (dl\<lparr>dl_pending := rs\<rparr>)"
  by (rule keeps_good [OF keeps_pending_subset])

text \<open>
  The outcomes of \<open>handle_block\<close>: the block was not asked for, it has the wrong length, it is
  there already, or it is taken. (An asked block is always one of its piece.)
\<close>

lemma handle_block_cases:
  assumes "books dl"
  obtains (ignored) "handle_block SHA1 now pid payload dl = dl"
    | (refused) r P where "r \<in> set (dl_pending dl)"
      "\<And>s. P s \<Longrightarrow> rq_piece s = rq_piece r \<and> rq_offset s = rq_offset r"
      "handle_block SHA1 now pid payload dl =
         upd_stats pid count_failure (release r (dl\<lparr>dl_pending := remove_first P (dl_pending dl)\<rparr>))"
    | (known) r P where "r \<in> set (dl_pending dl)"
      "\<And>s. P s \<Longrightarrow> rq_piece s = rq_piece r \<and> rq_offset s = rq_offset r"
      "ps_received (dl_pieces dl ! rq_piece r) ! (rq_offset r div block_size)"
      "handle_block SHA1 now pid payload dl =
         upd_stats pid count_failure (dl\<lparr>dl_pending := remove_first P (dl_pending dl)\<rparr>)"
    | (taken) p b off data where "awaited dl p b (length data)" "off = b * 16384"
      "handle_block SHA1 now pid payload dl =
         cancelDuplicateRequests p off pid (accept_block SHA1 now pid p off data
           (dl\<lparr>dl_pending := remove_first (\<lambda>r. rq_piece r = p \<and> rq_offset r = off \<and> rq_peer r = pid) (dl_pending dl)\<rparr>))"
proof -
  define p where "p = unat (bytesToInt_raw (take 4 payload))"
  define off where "off = unat (bytesToInt_raw (take 4 (drop 4 payload)))"
  let ?m = "\<lambda>r. rq_piece r = p \<and> rq_offset r = off \<and> rq_peer r = pid"
  let ?dl1 = "dl\<lparr>dl_pending := remove_first ?m (dl_pending dl)\<rparr>" and ?h = "handle_block SHA1 now pid payload dl"
  note h = handle_block_def [of SHA1 now pid payload dl, unfolded Let_def, folded p_def off_def]
  show thesis
  proof (cases "length payload < 8 \<or> find ?m (dl_pending dl) = None")
    case True
    then show thesis by (intro ignored) (auto simp: h)
  next
    case False
    then obtain r where f: "find ?m (dl_pending dl) = Some r" and l: "\<not> length payload < 8" by auto
    then have r: "r \<in> set (dl_pending dl)" "?m r" by (auto simp: find_Some_iff)
    from booksD(8) [OF assms r(1)] r(2) obtain b where b: "p < numPieces (dl_torrent dl)"
      "b < blocks_of (dl_torrent dl) p" "off = b * 16384" "rq_length r = block_length (dl_torrent dl) p b"
      by (auto simp: request_ok_def)
    have blk: "off div block_size = b" using b(3) by (simp add: block_size_def)
    have tot: "\<not> ps_total (dl_pieces dl ! p) \<le> int b" using booksD(4) [OF assms b(1)] b(2) by (simp add: piece_ok_def)
    have eq: "?h = (if length (drop 8 payload) \<noteq> rq_length r then upd_stats pid count_failure (release r ?dl1)
        else if ps_received (dl_pieces dl ! p) ! b then upd_stats pid count_failure ?dl1
        else cancelDuplicateRequests p off pid (accept_block SHA1 now pid p off (drop 8 payload) ?dl1))"
      using f l tot by (simp add: h blk)
    consider "length (drop 8 payload) \<noteq> rq_length r" | "length (drop 8 payload) = rq_length r" "ps_received (dl_pieces dl ! p) ! b"
      | "length (drop 8 payload) = rq_length r" "\<not> ps_received (dl_pieces dl ! p) ! b" by blast
    then show thesis
    proof cases
      case 1
      then show thesis using r by (intro refused [of r ?m]) (simp_all add: eq)
    next
      case 2
      then show thesis using r blk by (intro known [of r ?m]) (simp_all add: eq)
    next
      case 3
      then show thesis using b by (intro taken [of p b "drop 8 payload" off]) (simp_all add: eq awaited_def)
    qed
  qed
qed

lemma good_handle_block:
  assumes "good SHA1 dl"
  shows "good SHA1 (handle_block SHA1 now pid payload dl)"
proof -
  have bk: "books dl" using assms by (simp add: good_def)
  have g1: "good SHA1 (dl\<lparr>dl_pending := remove_first P (dl_pending dl)\<rparr>)" for P
    by (rule good_pending_subset [OF remove_first_subset assms])
  show ?thesis
  proof (cases rule: handle_block_cases [OF bk, of SHA1 now pid payload, case_names ignored refused known taken])
    case ignored
    with assms show ?thesis by simp
  next
    case (refused r P)
    show ?thesis unfolding refused(3)
      using keeps_good [OF keeps_release g1] by (simp add: good_core [OF core_upd_stats])
  next
    case (known r P)
    show ?thesis unfolding known(4) using g1 by (simp add: good_core [OF core_upd_stats])
  next
    case (taken p b off data)
    show ?thesis unfolding taken(3)
      by (rule keeps_good [OF keeps_cancelDuplicateRequests good_accept_block [OF g1 _ taken(2)]])
         (use taken(1) in \<open>simp add: awaited_def\<close>)
  qed
qed

lemma good_handle_message:
  assumes "good SHA1 dl"
  shows "good SHA1 (handle_message SHA1 now pid msg dl)"
  using assms keeps_good [OF keeps_cancelRequestsForPeer assms] good_handle_block [OF assms]
  by (cases "pm_id msg") (simp_all add: handle_message_def good_core [OF core_upd_stats])

lemma good_message_loop:
  "good SHA1 dl \<Longrightarrow> message_loop SHA1 now pid f msg dl = Ok dl' \<Longrightarrow> good SHA1 dl'"
proof (induction f arbitrary: msg dl)
  case (Suc f)
  then show ?case
    by (auto simp: Let_def good_core [OF core_set_conn] split: option.splits if_splits
        dest!: Suc.IH [rotated] intro: good_handle_message)
qed simp

lemma good_process_peer:
  "good SHA1 dl \<Longrightarrow> process_peer SHA1 now a pid dl = Ok (ps, dl') \<Longrightarrow> good SHA1 dl'"
  by (auto simp: process_peer_def Let_def takeDiscoveredPeers_def good_core [OF core_set_conn]
      simp del: message_loop.simps
      split: option.splits if_splits prod.splits dest!: good_message_loop [rotated])

lemma good_process_peers:
  "good SHA1 dl \<Longrightarrow> process_peers SHA1 now a pids pex dl = Ok (ps, dl') \<Longrightarrow> good SHA1 dl'"
  by (induction pids arbitrary: pex dl) (auto dest: good_process_peer)

lemma good_processPeerMessages:
  "good SHA1 dl \<Longrightarrow> processPeerMessages SHA1 now a dl = Ok dl' \<Longrightarrow> good SHA1 dl'"
  by (auto simp: processPeerMessages_def good_core [OF core_addPeers] dest: good_process_peers)

lemma good_cleanup: "good SHA1 dl \<Longrightarrow> good SHA1 (cleanupTimedOutRequests now dl)"
  by (rule keeps_good [OF keeps_cleanupTimedOutRequests])

lemma good_turn_work:
  assumes "good SHA1 dl" "turn_work SHA1 env dl = Ok dl'"
  shows "good SHA1 dl'"
proof -
  have "good SHA1 (snd (connectToPeers (te_now env 0) (te_connect env) dl))"
    using assms(1) by (simp add: good_core [OF core_connectToPeers])
  then show ?thesis using assms(2)
    by (auto simp: turn_work_def Let_def good_core [OF core_update_endgame] good_core [OF core_updateSpeedStats]
        intro!: good_cleanup good_requestPieces dest: good_processPeerMessages)
qed

section \<open>Trackers\<close>

text \<open>New trackers go to the torrent's announce list, which nothing else depends on.\<close>

lemma good_announce:
  assumes "good SHA1 dl"
  shows "good SHA1 (dl\<lparr>dl_torrent := (dl_torrent dl)\<lparr>tAnnounceList := l\<rparr>, dl_trackers := tm\<rparr>)"
proof -
  have r: "received_bytes (t\<lparr>tAnnounceList := l\<rparr>) = received_bytes t" "piece_ok (t\<lparr>tAnnounceList := l\<rparr>) = piece_ok t"
    "request_ok (t\<lparr>tAnnounceList := l\<rparr>) = request_ok t" for t
    by (simp_all add: fun_eq_iff received_bytes_def piece_ok_def request_ok_def cong: if_cong)
  have v: "verifyPiece SHA1 (dl\<lparr>dl_torrent := (dl_torrent dl)\<lparr>tAnnounceList := l\<rparr>, dl_trackers := tm\<rparr>) i
      = verifyPiece SHA1 dl i" for i
    by (simp add: verifyPiece_def readPieceFromDisk_def Let_def cong: option.case_cong)
  from assms show ?thesis
    by (simp add: good_def books_def Let_def disk_inv_def r v) (simp add: dl_hasPiece_def)
qed

lemma good_merge_trackers: "good SHA1 dl \<Longrightarrow> good SHA1 (merge_trackers ts ex dl)"
proof (induction ts ex dl rule: merge_trackers.induct)
  case (2 t ts ex dl)
  then show ?case by (auto intro: good_announce)
qed simp

lemma good_fetchLatestTrackers: "good SHA1 dl \<Longrightarrow> good SHA1 (fetchLatestTrackers http dl)"
  by (simp add: fetchLatestTrackers_def Let_def good_merge_trackers)

end
