(* ===== verification/Peer_Pool.thy ===== *)
theory Peer_Pool
  imports Downloader Transition
begin

text \<open>
  The downloader's list of peers: every operation of \<open>src/downloader.cpp\<close> keeps one connection
  per endpoint and the invariant of each connection, and changes the connections only the way
  \<open>src/peer.cpp\<close> does.
\<close>

section \<open>How a connection evolves\<close>

text \<open>Whom a connection is to, and for which torrent, never changes.\<close>

definition evolves :: "peer_conn \<Rightarrow> peer_conn \<Rightarrow> bool" where
  "evolves c c' \<longleftrightarrow>
     pc_ip c' = pc_ip c \<and> pc_port c' = pc_port c \<and> pc_torrent c' = pc_torrent c \<and>
     (conn_inv c \<longrightarrow> conn_inv c')"

lemma evolves_refl [simp, intro]: "evolves c c"
  by (simp add: evolves_def)

lemma evolves_trans [trans]: "evolves a b \<Longrightarrow> evolves b c \<Longrightarrow> evolves a c"
  by (simp add: evolves_def)

lemma evolves_flags [simp]:
  "evolves c (c\<lparr>pc_amChoking := b\<rparr>)" "evolves c (c\<lparr>pc_amInterested := b\<rparr>)"
  "evolves c (c\<lparr>pc_peerChoking := b\<rparr>)" "evolves c (c\<lparr>pc_peerInterested := b\<rparr>)"
  "evolves c (c\<lparr>pc_supportsExt := b\<rparr>)" "evolves c (c\<lparr>pc_supportsPex := b\<rparr>)"
  "evolves c (c\<lparr>pc_sock := Some s\<rparr>)" "evolves c (disconnect c)"
  by (simp_all add: evolves_def conn_inv_def disconnect_def)

lemma evolves_bitfield:
  "length bf = numPieces (pc_torrent c) \<or> length bf = length (pc_bitfield c) \<Longrightarrow> evolves c (c\<lparr>pc_bitfield := bf\<rparr>)"
  by (auto simp: evolves_def conn_inv_def)

lemma evolves_conn_recv: "conn_recv n c = (r, c') \<Longrightarrow> evolves c c'"
  by (auto simp: conn_recv_def split: option.splits prod.splits)

lemma evolves_conn_send: "conn_send d c = (r, c') \<Longrightarrow> evolves c c'"
  by (auto simp: conn_send_def split: option.splits prod.splits)

lemma evolves_sendMessage: "sendMessage m c = (ok, c') \<Longrightarrow> evolves c c'"
  by (auto simp: sendMessage_def split: if_splits prod.splits bool.splits dest: evolves_conn_send
      intro: evolves_trans [OF evolves_conn_send])

lemma evolves_send:
  "sendUnchoke c = (ok, c') \<Longrightarrow> evolves c c'" "sendInterested c = (ok, c') \<Longrightarrow> evolves c c'"
  "sendRequest p off len c = (ok, c') \<Longrightarrow> evolves c c'" "sendCancel p off len c = (ok, c') \<Longrightarrow> evolves c c'"
  "sendChoke c = (ok, c') \<Longrightarrow> evolves c c'"
  by (auto simp: sendUnchoke_def sendInterested_def sendChoke_def sendRequest_def sendCancel_def
      dest!: evolves_sendMessage intro: evolves_trans [rotated])

lemma evolves_sendExtensionHandshake: "sendExtensionHandshake c = (ok, c') \<Longrightarrow> evolves c c'"
  by (auto simp: sendExtensionHandshake_def Let_def dest: evolves_sendMessage split: if_splits)

lemma pex_add_keeps:
  "pc_ip (pex_add ps c) = pc_ip c \<and> pc_port (pex_add ps c) = pc_port c \<and>
   pc_torrent (pex_add ps c) = pc_torrent c"
  by (induction ps c rule: pex_add.induct) auto

lemma evolves_pex_add: "evolves c (pex_add ps c)"
  by (simp add: evolves_def pex_add_keeps pex_add_inv)

lemma evolves_apply_message: "apply_message m c = Ok c' \<Longrightarrow> evolves c c'"
  by (auto simp: apply_message_def updateBitfield_def processExtendedMessage_def process_extended_dict_def Let_def
      intro: evolves_pex_add intro!: evolves_bitfield
      split: message_id.splits if_splits outcome.splits bval.splits option.splits)

lemma evolves_read_body:
  assumes "read_body c m = Ok (ok, c', m')"
  shows "evolves c c'"
  using assms
  by (auto simp: read_body_def Let_def split: if_splits prod.splits bool.splits
      dest!: evolves_conn_recv evolves_apply_message intro: evolves_trans)

lemma evolves_receiveMessageNonBlocking:
  assumes "receiveMessageNonBlocking c m = Ok (ok, c', m')"
  shows "evolves c c'"
  using assms
  by (auto simp: receiveMessageNonBlocking_def Let_def split: if_splits prod.splits bool.splits
      dest!: evolves_conn_recv evolves_read_body intro: evolves_trans)

lemma evolves_receiveMessage:
  assumes "receiveMessage c m = Ok (ok, c', m')"
  shows "evolves c c'"
  using assms
  by (auto simp: receiveMessage_def Let_def split: if_splits prod.splits bool.splits
      dest!: evolves_conn_recv evolves_read_body intro: evolves_trans)

lemma evolves_performHandshake:
  assumes "performHandshake c = (ok, c')"
  shows "evolves c c'"
proof -
  have "evolves c2 (c2\<lparr>pc_supportsExt := e, pc_bitfield := replicate (numPieces (pc_torrent c)) False\<rparr>)"
    if "evolves c c2" for c2 e
    using that by (auto simp: evolves_def conn_inv_def)
  with assms show ?thesis
    by (auto simp: performHandshake_def Let_def split: if_splits prod.splits bool.splits
        dest!: evolves_conn_send evolves_conn_recv evolves_send(2) evolves_sendExtensionHandshake)
       (meson evolves_trans)+
qed

lemma evolves_connect:
  assumes "connect env c = (ok, c')"
  shows "evolves c c'"
proof (cases "pc_connected c")
  case True
  with assms show ?thesis by (simp add: connect_def)
next
  case False
  let ?c1 = "c\<lparr>pc_sock := Some (ce_sock env), pc_connected := True\<rparr>"
  have "evolves c ?c1" "evolves c (c\<lparr>pc_sock := None\<rparr>)"
    using False by (auto simp: evolves_def conn_inv_def)
  moreover have "evolves ?c1 c'" if "performHandshake ?c1 = (ok, c')" for c' ok
    using that by (rule evolves_performHandshake)
  moreover have "evolves c (disconnect (c\<lparr>pc_sock := Some (ce_sock env)\<rparr>))"
    by (rule evolves_trans [of _ "c\<lparr>pc_sock := Some (ce_sock env)\<rparr>"]) simp_all
  ultimately show ?thesis using assms False
    by (auto simp: connect_def Let_def split: if_splits prod.splits bool.splits)
       (meson evolves_trans evolves_flags(8))+
qed

lemma evolves_arrive [simp]: "evolves c (arrive b c)"
  by (auto simp: evolves_def arrive_def conn_inv_def)

lemma evolves_takeDiscovered [simp]: "evolves c (c\<lparr>pc_discovered := []\<rparr>)"
  by (simp add: evolves_def conn_inv_def)

lemma evolves_skip: "skip n c = (ok, c') \<Longrightarrow> evolves c c'"
  by (auto simp: skip_def split: prod.splits dest: evolves_conn_recv)

lemma evolves_snd_skip: "evolves c (snd (skip n c))"
  by (cases "skip n c") (simp add: evolves_skip)

lemma evolves_readBlock_step:
  "readBlock_step p off len c t data = Stop ok c' d' \<Longrightarrow> evolves c c'"
  "readBlock_step p off len c t data = Continue c' t' d' \<Longrightarrow> evolves c c'"
  by (auto simp: readBlock_step_def Let_def split: prod.splits bool.splits if_splits
      dest!: evolves_conn_recv evolves_skip)
     (simp_all add: evolves_def evolves_snd_skip [unfolded evolves_def])

lemma evolves_readBlock_loop: "readBlock_loop p off len c t data = (ok, c', d') \<Longrightarrow> evolves c c'"
proof (induction p off len c t data rule: readBlock_loop.induct)
  case (1 p off len c t data)
  from "1.prems" show ?case
    by (subst (asm) readBlock_loop.simps)
       (auto split: if_splits block_step.splits dest: evolves_readBlock_step "1.IH" intro: evolves_trans)
qed

lemma evolves_readBlock: "readBlock p off len data c = (ok, c', d') \<Longrightarrow> evolves c c'"
  by (auto simp: readBlock_def split: if_splits dest: evolves_readBlock_loop)

text \<open>
  The life of a connection: what its owner and its peer may do with it. \<open>sendHave\<close>, \<open>sendRequest\<close> and
  the like are instances of \<open>sendMessage\<close>.
\<close>

inductive conn_step :: "peer_conn \<Rightarrow> peer_conn \<Rightarrow> bool" where
  conn_connecting: "connect env c = (ok, c') \<Longrightarrow> conn_step c c'"
| conn_sending: "sendMessage m c = (ok, c') \<Longrightarrow> conn_step c c'"
| conn_choking: "sendChoke c = (ok, c') \<Longrightarrow> conn_step c c'"
| conn_unchoking: "sendUnchoke c = (ok, c') \<Longrightarrow> conn_step c c'"
| conn_interested: "sendInterested c = (ok, c') \<Longrightarrow> conn_step c c'"
| conn_set_choking: "conn_step c (setAmChoking b c)"
| conn_set_interested: "conn_step c (setAmInterested b c)"
| conn_arriving: "conn_step c (arrive b c)"
| conn_polling: "receiveMessageNonBlocking c m = Ok (ok, c', m') \<Longrightarrow> conn_step c c'"
| conn_receiving: "receiveMessage c m = Ok (ok, c', m') \<Longrightarrow> conn_step c c'"
| conn_reading: "readBlock p off len data c = (ok, c', data') \<Longrightarrow> conn_step c c'"
| conn_closing: "conn_step c (disconnect c)"
| conn_taking: "takeDiscoveredPeers c = (ps, c') \<Longrightarrow> conn_step c c'"

inductive_cases conn_stepE: "conn_step c c'"

lemma evolves_inv: "evolves c c' \<Longrightarrow> conn_inv c \<Longrightarrow> conn_inv c'"
  by (simp add: evolves_def)

lemma evolves_step:
  assumes "conn_step c c'"
  shows "evolves c c'"
  using assms
  by (rule conn_stepE)
     (auto simp: takeDiscoveredPeers_def setAmChoking_def setAmInterested_def
       intro: evolves_connect evolves_sendMessage evolves_send evolves_receiveMessageNonBlocking
         evolves_receiveMessage evolves_readBlock)

interpretation connection_path: preserved_relation conn_step evolves
  by unfold_locales (auto intro: evolves_trans evolves_step)

lemma conn_inv_step: "conn_inv c \<Longrightarrow> conn_step c c' \<Longrightarrow> conn_inv c'"
  using evolves_inv evolves_step by blast

definition conn_initial :: "peer_conn \<Rightarrow> bool" where
  "conn_initial c \<longleftrightarrow> (\<exists>ip port t pid. c = new_conn ip port t pid)"

interpretation connection: invariant_system conn_initial conn_step conn_inv
  by unfold_locales (auto simp: conn_initial_def intro: conn_inv_new conn_inv_step)

section \<open>The pool\<close>

definition conn_endpoint :: "nat \<times> peer_conn \<Rightarrow> string \<times> 16 word" where
  "conn_endpoint x = (pc_ip (snd x), pc_port (snd x))"

text \<open>Every connection has a number of its own and an endpoint of its own.\<close>

definition pool_inv :: "downloader \<Rightarrow> bool" where
  "pool_inv dl \<longleftrightarrow>
     distinct (map fst (dl_peers dl)) \<and> distinct (map conn_endpoint (dl_peers dl)) \<and>
     (\<forall>(pid, c) \<in> set (dl_peers dl). pid < dl_nextPeer dl \<and> conn_inv c)"

text \<open>The connections evolve one by one: none comes, goes or moves.\<close>

definition slot_evolves :: "nat \<times> peer_conn \<Rightarrow> nat \<times> peer_conn \<Rightarrow> bool" where
  "slot_evolves x y \<longleftrightarrow> fst y = fst x \<and> evolves (snd x) (snd y)"

definition pool_evolves :: "downloader \<Rightarrow> downloader \<Rightarrow> bool" where
  "pool_evolves dl dl' \<longleftrightarrow> dl_nextPeer dl' = dl_nextPeer dl \<and>
     list_all2 slot_evolves (dl_peers dl) (dl_peers dl')"

lemma pool_evolves_refl [simp, intro]: "pool_evolves dl dl"
  by (auto simp: pool_evolves_def slot_evolves_def intro: list.rel_refl)

lemma pool_evolves_trans [trans]:
  assumes "pool_evolves a b" "pool_evolves b c"
  shows "pool_evolves a c"
proof -
  have "list_all2 slot_evolves (dl_peers a) (dl_peers c)"
    by (rule list_all2_trans [of slot_evolves slot_evolves slot_evolves "dl_peers a" "dl_peers b"])
       (use assms in \<open>auto simp: pool_evolves_def slot_evolves_def intro: evolves_trans\<close>)
  with assms show ?thesis by (simp add: pool_evolves_def)
qed

lemma pool_inv_evolves:
  assumes "pool_evolves dl dl'" "pool_inv dl"
  shows "pool_inv dl'"
proof -
  have rel: "list_all2 slot_evolves (dl_peers dl) (dl_peers dl')"
    and n: "dl_nextPeer dl' = dl_nextPeer dl"
    using assms(1) by (auto simp: pool_evolves_def)
  from rel have "map fst (dl_peers dl') = map fst (dl_peers dl)"
    "map conn_endpoint (dl_peers dl') = map conn_endpoint (dl_peers dl)"
    by (induction rule: list_all2_induct) (auto simp: conn_endpoint_def slot_evolves_def evolves_def)
  moreover have "\<forall>(pid, c) \<in> set (dl_peers dl'). pid < m \<and> conn_inv c"
    if "\<forall>(pid, c) \<in> set (dl_peers dl). pid < m \<and> conn_inv c" for m
    using rel that by (induction rule: list_all2_induct) (auto simp: slot_evolves_def evolves_def)
  ultimately show ?thesis using assms(2) n by (simp add: pool_inv_def)
qed

lemma pool_evolves_same:
  "dl_peers dl' = dl_peers dl \<Longrightarrow> dl_nextPeer dl' = dl_nextPeer dl \<Longrightarrow> pool_evolves dl dl'"
  by (auto simp: pool_evolves_def slot_evolves_def intro: list.rel_refl)

lemma pool_evolves_set_conn:
  assumes "conn_of dl pid = Some c" "evolves c c'" "pool_inv dl"
  shows "pool_evolves dl (set_conn pid c' dl)"
proof -
  have "evolves d c'" if "(pid, d) \<in> set (dl_peers dl)" for d
    using that assms by (auto simp: pool_inv_def conn_of_def map_of_is_SomeI dest: map_of_is_SomeI)
  then have "list_all2 slot_evolves (dl_peers dl)
      (map (\<lambda>(q, d). (q, if q = pid then c' else d)) (dl_peers dl))"
    by (auto simp: list_all2_conv_all_nth slot_evolves_def split: prod.splits)
       (metis nth_mem)
  then show ?thesis by (simp add: pool_evolves_def set_conn_def)
qed

text \<open>The output files stay the same, and so does the torrent but for its announce list.\<close>

abbreviation announce_free :: "torrent_info \<Rightarrow> torrent_info" where
  "announce_free t \<equiv> t\<lparr>tAnnounceList := []\<rparr>"

definition steady :: "downloader \<Rightarrow> downloader \<Rightarrow> bool" where
  "steady dl dl' \<longleftrightarrow> dl_files dl' = dl_files dl \<and> announce_free (dl_torrent dl') = announce_free (dl_torrent dl)"

lemma steady_refl [simp, intro]: "steady dl dl"
  by (simp add: steady_def)

lemma steady_trans [trans]: "steady a b \<Longrightarrow> steady b c \<Longrightarrow> steady a c"
  by (simp add: steady_def)

text \<open>Operations keep the pool's invariant and let its connections evolve.\<close>

definition tends :: "downloader \<Rightarrow> downloader \<Rightarrow> bool" where
  "tends dl dl' \<longleftrightarrow> steady dl dl' \<and> (pool_inv dl \<longrightarrow> pool_evolves dl dl')"

lemma tends_refl [simp, intro]: "tends dl dl"
  by (simp add: tends_def)

lemma tends_trans [trans]: "tends a b \<Longrightarrow> tends b c \<Longrightarrow> tends a c"
  unfolding tends_def using pool_inv_evolves pool_evolves_trans steady_trans by blast

lemma tends_steady: "tends dl dl' \<Longrightarrow> steady dl dl'"
  by (simp add: tends_def)

lemma tends_inv: "tends dl dl' \<Longrightarrow> pool_inv dl \<Longrightarrow> pool_inv dl'"
  unfolding tends_def using pool_inv_evolves by blast

lemma tends_same:
  "dl_peers dl' = dl_peers dl \<Longrightarrow> dl_nextPeer dl' = dl_nextPeer dl \<Longrightarrow> dl_files dl' = dl_files dl \<Longrightarrow>
   announce_free (dl_torrent dl') = announce_free (dl_torrent dl) \<Longrightarrow> tends dl dl'"
  by (simp add: tends_def pool_evolves_same steady_def)

lemma tends_set_conn: "conn_of dl pid = Some c \<Longrightarrow> evolves c c' \<Longrightarrow> tends dl (set_conn pid c' dl)"
  by (simp add: tends_def pool_evolves_set_conn steady_def) (simp add: set_conn_def)

lemma tends_fold: "(\<And>r dl. tends dl (f r dl)) \<Longrightarrow> tends dl (fold f rs dl)"
  by (induction rs arbitrary: dl) (auto intro: tends_trans)

lemma tends_upd_stats: "tends dl (upd_stats pid f dl)"
  by (rule tends_same) (simp_all add: upd_stats_def)

lemma tends_rejectPeer: "tends dl (rejectPeer now ip port dl)"
  by (rule tends_same) (simp_all add: rejectPeer_def)

lemma isPeerRejected_peers:
  "isPeerRejected now ip port dl = (b, dl') \<Longrightarrow> dl_peers dl' = dl_peers dl \<and>
     dl_nextPeer dl' = dl_nextPeer dl \<and> dl_files dl' = dl_files dl \<and> dl_torrent dl' = dl_torrent dl"
  by (auto simp: isPeerRejected_def Let_def split: option.splits if_splits)

lemma tends_upd_piece: "tends dl (upd_piece p f dl)"
  by (rule tends_same) (simp_all add: upd_piece_def)

lemma tends_release: "tends dl (release r dl)"
  by (simp add: release_def Let_def tends_upd_piece)

lemma tends_pending: "tends dl (dl\<lparr>dl_pending := rs\<rparr>)"
  by (rule tends_same) simp_all

section \<open>Requests and messages\<close>

lemma tends_drop_requests: "tends dl (drop_requests gone dl)"
  unfolding drop_requests_def by (rule tends_pending)

lemma tends_send_cancel: "tends dl (send_cancel r dl)"
  unfolding send_cancel_def
  by (auto split: option.splits intro!: tends_set_conn simp: evolves_send(4) [OF surjective_pairing])

lemma tends_cancelRequestsForPeer: "tends dl (cancelRequestsForPeer pid dl)"
  unfolding cancelRequestsForPeer_def Let_def
  by (rule tends_trans [OF tends_drop_requests tends_fold]) (rule tends_release)

lemma tends_cleanupTimedOutRequests: "tends dl (cleanupTimedOutRequests now dl)"
  unfolding cleanupTimedOutRequests_def
  by (rule tends_trans [OF tends_drop_requests tends_fold])
     (simp add: tends_trans [OF tends_release tends_upd_stats])

lemma tends_cancelDuplicateRequests: "tends dl (cancelDuplicateRequests p off keep dl)"
  unfolding cancelDuplicateRequests_def Let_def
  by (rule tends_trans [OF tends_drop_requests tends_fold])
     (simp add: tends_trans [OF tends_send_cancel tends_release])

lemma tends_request_loop: "tends dl (request_loop now pid p is n dl)"
proof (induction "is" arbitrary: n dl)
  case (Cons i "is")
  show ?case
  proof (cases "conn_of dl pid")
    case None
    with Cons.IH show ?thesis by (simp add: Let_def)
  next
    case (Some c)
    obtain ok c' where s: "sendRequest (of_nat p) (of_nat (block_offset i))
        (of_nat (block_length (dl_torrent dl) p i)) c = (ok, c')"
      by (metis surj_pair)
    have t: "tends dl (set_conn pid c' dl)" by (rule tends_set_conn [OF Some evolves_send(3) [OF s]])
    have "tends dl (request_loop now pid p is (n + 1)
      ((upd_piece p (\<lambda>st. st\<lparr>ps_requested := (ps_requested st)[i := True]\<rparr>) (set_conn pid c' dl))
        \<lparr>dl_pending := rs\<rparr>))" for rs
      by (rule tends_trans [OF t tends_trans [OF tends_upd_piece tends_trans [OF tends_pending Cons.IH]]])
    with t Cons.IH show ?thesis by (cases ok) (simp_all add: Let_def Some s)
  qed
qed simp

lemma tends_requestBlocksFromPeer: "tends dl (requestBlocksFromPeer now pid dl)"
  by (auto simp: requestBlocksFromPeer_def Let_def intro: tends_request_loop split: option.splits)

lemma tends_request_peers: "tends dl (request_peers now n pids dl)"
  by (induction pids arbitrary: dl) (auto intro: tends_trans [OF tends_requestBlocksFromPeer])

lemma tends_requestPieces: "tends dl (requestPieces now dl)"
  unfolding requestPieces_def Let_def by (rule tends_request_peers)

lemma tends_finish_piece: "tends dl (finish_piece SHA1 p dl)"
  by (rule tends_same) (simp_all add: finish_piece_def drop_requests_def upd_piece_def)

lemma tends_accept_block: "tends dl (accept_block SHA1 now pid p off data dl)"
proof -
  let ?d4 = "upd_piece p (\<lambda>st. st\<lparr>ps_received := (ps_received st)[off div block_size := True],
      ps_count := ps_count st + 1\<rparr>) (upd_stats pid (updateSpeed now (int (length data)))
        ((writePiece p off data dl)\<lparr>dl_downloaded := dl_downloaded dl + int (length data)\<rparr>))"
  have d4: "tends dl ?d4"
    by (rule tends_same) (simp_all add: writePiece_def upd_piece_def upd_stats_def)
  moreover have "tends dl (finish_piece SHA1 p ?d4)" by (rule tends_trans [OF d4 tends_finish_piece])
  ultimately show ?thesis by (simp add: accept_block_def Let_def writePiece_def)
qed

lemma tends_handle_block: "tends dl (handle_block SHA1 now pid payload dl)"
proof -
  have "tends dl (upd_stats pid count_failure (release r (dl\<lparr>dl_pending := rs\<rparr>)))"
    "tends dl (upd_stats pid count_failure (dl\<lparr>dl_pending := rs\<rparr>))"
    "tends dl (cancelDuplicateRequests p off pid (accept_block SHA1 now pid p off data (dl\<lparr>dl_pending := rs\<rparr>)))"
    for r rs p off data
    by (rule tends_trans [OF tends_trans [OF tends_pending tends_release] tends_upd_stats]
          tends_trans [OF tends_pending tends_upd_stats]
          tends_trans [OF tends_trans [OF tends_pending tends_accept_block] tends_cancelDuplicateRequests])+
  then show ?thesis by (auto simp: handle_block_def Let_def split: option.splits)
qed

lemma tends_handle_message: "tends dl (handle_message SHA1 now pid m dl)"
  by (cases "pm_id m")
     (auto simp: handle_message_def intro: tends_handle_block tends_upd_stats
       tends_trans [OF tends_cancelRequestsForPeer])

lemma tends_message_loop: "message_loop SHA1 now pid f m dl = Ok dl' \<Longrightarrow> tends dl dl'"
proof (induction f arbitrary: m dl)
  case (Suc f)
  show ?case
  proof (cases "conn_of dl pid")
    case None
    with Suc.prems show ?thesis by simp
  next
    case (Some c)
    with Suc.prems obtain ok c' m' where rc: "receiveMessageNonBlocking c m = Ok (ok, c', m')"
      and rest: "(if ok then message_loop SHA1 now pid f m' (handle_message SHA1 now pid m' (set_conn pid c' dl))
         else Ok (set_conn pid c' dl)) = Ok dl'"
      by (auto simp: Let_def)
    have t: "tends dl (set_conn pid c' dl)"
      by (rule tends_set_conn [OF Some evolves_receiveMessageNonBlocking [OF rc]])
    show ?thesis
    proof (cases ok)
      case True
      with rest have "message_loop SHA1 now pid f m' (handle_message SHA1 now pid m' (set_conn pid c' dl)) = Ok dl'"
        by simp
      from tends_trans [OF tends_trans [OF t tends_handle_message] Suc.IH [OF this]] show ?thesis .
    next
      case False
      with rest t show ?thesis by simp
    qed
  qed
qed simp

lemma tends_process_peer:
  assumes "process_peer SHA1 now a pid dl = Ok (ps, dl')"
  shows "tends dl dl'"
proof (cases "conn_of dl pid")
  case None
  with assms show ?thesis by (simp add: process_peer_def)
next
  case (Some c)
  have "tends dl dl1"
    if "message_loop SHA1 now pid f no_message (set_conn pid (arrive a c) dl) = Ok dl1" for f dl1
    using tends_trans [OF tends_set_conn [OF Some evolves_arrive] tends_message_loop [OF that]] .
  with assms Some show ?thesis
    by (auto simp: process_peer_def Let_def takeDiscoveredPeers_def simp del: message_loop.simps
        split: option.splits if_splits) (blast intro: tends_trans tends_set_conn evolves_takeDiscovered)+
qed

lemma tends_process_peers: "process_peers SHA1 now a pids pex dl = Ok (ps, dl') \<Longrightarrow> tends dl dl'"
  by (induction pids arbitrary: pex dl) (auto dest!: tends_process_peer intro: tends_trans)

section \<open>Connecting, evicting, adding\<close>

lemma tends_connect_loop: "connect_loop now env pids n dl = (m, dl') \<Longrightarrow> tends dl dl'"
proof (induction pids arbitrary: n dl)
  case (Cons pid pids)
  show ?case
  proof (cases "conn_of dl pid")
    case None
    with Cons show ?thesis by simp
  next
    case (Some c)
    obtain rej dl1 where r: "isPeerRejected now (pc_ip c) (pc_port c) dl = (rej, dl1)"
      by (metis surj_pair)
    note same = isPeerRejected_peers [OF r]
    have t1: "tends dl dl1" using same by (intro tends_same) auto
    have c1: "conn_of dl1 pid = Some c" using Some same by (simp add: conn_of_def)
    have "tends dl (upd_stats pid f (set_conn pid (snd (sendUnchoke c')) dl1))" if "evolves c c'" for f c'
      by (rule tends_trans [OF t1 tends_trans [OF tends_set_conn [OF c1] tends_upd_stats]])
         (rule evolves_trans [OF that evolves_send(1) [OF surjective_pairing]])
    moreover have "tends dl (rejectPeer now ip port (set_conn pid c' dl1))" if "evolves c c'" for c' ip port
      by (rule tends_trans [OF t1 tends_trans [OF tends_set_conn [OF c1 that] tends_rejectPeer]])
    moreover obtain ok c' where cn: "connect (env pid) c = (ok, c')" by (metis surj_pair)
    note ev = evolves_connect [OF cn]
    ultimately show ?thesis using Cons.prems Some r t1 cn ev
      by (cases rej; cases ok) (auto split: if_splits dest!: Cons.IH elim: tends_trans [rotated])
  qed
qed simp

lemma tends_prune_loop: "tends dl (prune_loop now pids dl)"
proof (induction pids arbitrary: dl)
  case (Cons pid pids)
  have "tends dl (rejectPeer now ip port (set_conn pid (disconnect c) (upd_stats pid f dl)))"
    if "conn_of dl pid = Some c" for c ip port f
    by (rule tends_trans [OF tends_upd_stats tends_trans [OF tends_set_conn tends_rejectPeer]])
       (use that in \<open>auto simp: conn_of_def upd_stats_def intro: evolves_flags(8)\<close>)
  then show ?case
    by (auto simp: Let_def split: option.splits intro: Cons.IH tends_trans [OF _ Cons.IH] tends_upd_stats)
qed simp

lemma tends_pruneBadPeers: "tends dl (pruneBadPeers now dl)"
  unfolding pruneBadPeers_def by (rule tends_prune_loop)

text \<open>Sorting the pool keeps its invariant, though not its order.\<close>

lemma pool_inv_sort:
  assumes "pool_inv dl"
  shows "pool_inv (dl\<lparr>dl_peers := std_sort lt (dl_peers dl)\<rparr>)"
  using assms by (simp add: pool_inv_def distinct_map ssort.srt_set ssort.srt_distinct)

lemma pool_inv_connectToPeers:
  assumes "pool_inv dl"
  shows "pool_inv (snd (connectToPeers now env dl))"
  using pool_inv_sort [OF assms]
  by (auto simp: connectToPeers_def Let_def split: prod.splits dest: tends_connect_loop intro: tends_inv)

lemma pool_inv_addPeers: "pool_inv dl \<Longrightarrow> pool_inv (addPeers now ps dl)"
proof (induction now ps dl rule: addPeers.induct)
  case (2 now p ps dl)
  obtain rej dl1 where r: "isPeerRejected now (pr_ip p) (pr_port p) dl = (rej, dl1)"
    by (metis surj_pair)
  have p1: "pool_inv dl1" using 2(4) isPeerRejected_peers [OF r] by (simp add: pool_inv_def)
  have "pool_inv (dl1\<lparr>dl_peers := dl_peers dl1 @
      [(dl_nextPeer dl1, new_conn (pr_ip p) (pr_port p) (dl_torrent dl1) (dl_peerId dl1))],
      dl_nextPeer := dl_nextPeer dl1 + 1\<rparr>)"
    if "\<not> list_ex (\<lambda>(_, c). pc_ip c = pr_ip p \<and> pc_port c = pr_port p) (dl_peers dl1)"
    using that p1 conn_inv_new
    by (fastforce simp: pool_inv_def list_ex_iff conn_endpoint_def new_conn_def)
  with 2 r p1 show ?case by (auto split: bool.splits)
qed simp

lemma pool_inv_processPeerMessages:
  "pool_inv dl \<Longrightarrow> processPeerMessages SHA1 now a dl = Ok dl' \<Longrightarrow> pool_inv dl'"
  by (auto simp: processPeerMessages_def intro!: pool_inv_addPeers dest: tends_process_peers tends_inv)

lemma pool_inv_turn_work:
  assumes "pool_inv dl" "turn_work SHA1 env dl = Ok dl'"
  shows "pool_inv dl'"
proof -
  have "tends d (update_endgame (updateSpeedStats n3 (cleanupTimedOutRequests n2 (requestPieces n1 d))))"
    for d n1 n2 n3
    by (rule tends_trans [OF tends_requestPieces tends_trans [OF tends_cleanupTimedOutRequests tends_same]])
       (simp_all add: update_endgame_def updateSpeedStats_def Let_def)
  note after = tends_inv [OF this]
  from assms(2) obtain dl1 where "processPeerMessages SHA1 (te_now env 1) (te_arrived env)
      (snd (connectToPeers (te_now env 0) (te_connect env) dl)) = Ok dl1"
    and dl': "dl' = update_endgame (updateSpeedStats (te_now env 4)
      (cleanupTimedOutRequests (te_now env 3) (requestPieces (te_now env 2) dl1)))"
    by (auto simp: turn_work_def Let_def)
  then have "pool_inv dl1" using pool_inv_processPeerMessages [OF pool_inv_connectToPeers [OF assms(1)]] by blast
  then show ?thesis unfolding dl' by (rule after)
qed

lemma merge_trackers_peers:
  "dl_peers (merge_trackers ts ex dl) = dl_peers dl \<and> dl_nextPeer (merge_trackers ts ex dl) = dl_nextPeer dl \<and>
   dl_files (merge_trackers ts ex dl) = dl_files dl \<and>
   announce_free (dl_torrent (merge_trackers ts ex dl)) = announce_free (dl_torrent dl)"
  by (induction ts ex dl rule: merge_trackers.induct) auto

lemma tends_fetchLatestTrackers: "tends dl (fetchLatestTrackers http dl)"
  by (rule tends_same) (simp_all add: fetchLatestTrackers_def Let_def merge_trackers_peers)

end
