(* ===== verification/Downloader_Inv.thy ===== *)
theory Downloader_Inv
  imports Bookkeeping Peer_Pool Transition
begin

text \<open>
  The life of a downloader as a step relation over the operations of \<open>src/downloader.cpp\<close>, in any
  order: what its caller does, and what its thread does; the invariant of both; and the download
  loop as a path of the thread's steps.
\<close>

section \<open>Resuming\<close>

text \<open>The books of the first \<open>k\<close> pieces, while \<open>restoreCompletedPieces\<close> goes through them.\<close>

definition partial_books :: "(bytes \<Rightarrow> bytes) \<Rightarrow> nat \<Rightarrow> downloader \<Rightarrow> bool" where
  "partial_books SHA1 k dl \<longleftrightarrow>
     (let t = dl_torrent dl; n = numPieces t in
      geometry t \<and> length (dl_completed dl) = n \<and> length (dl_pieces dl) = n \<and>
      (\<forall>i < n. ps_total (dl_pieces dl ! i) = calculateBlocksForPiece t i) \<and>
      (\<forall>i < k. piece_ok t i (dl_pieces dl ! i)) \<and>
      (\<forall>i < k. dl_completed dl ! i = (ps_count (dl_pieces dl ! i) = ps_total (dl_pieces dl ! i))) \<and>
      (\<forall>i < k. dl_completed dl ! i = verifyPiece SHA1 dl i) \<and>
      dl_completedCount dl = count_true (take k (dl_completed dl)) \<and>
      dl_downloaded dl = (\<Sum>i < k. received_bytes t i (dl_pieces dl ! i)) \<and>
      (\<forall>r \<in> set (dl_pending dl). request_ok t r))"

lemma restore_piece_fields [simp]:
  "dl_torrent (restore_piece SHA1 i dl) = dl_torrent dl" "dl_files (restore_piece SHA1 i dl) = dl_files dl"
  "dl_fs (restore_piece SHA1 i dl) = dl_fs dl" "dl_pending (restore_piece SHA1 i dl) = dl_pending dl"
  "dl_peers (restore_piece SHA1 i dl) = dl_peers dl" "dl_nextPeer (restore_piece SHA1 i dl) = dl_nextPeer dl"
  "dl_completed (restore_piece SHA1 i dl) = (dl_completed dl)[i := verifyPiece SHA1 dl i]"
  "dl_pieces (restore_piece SHA1 i dl) = (dl_pieces dl)[i := (dl_pieces dl ! i)
     \<lparr>ps_requested := replicate (nat (ps_total (dl_pieces dl ! i))) False,
      ps_received := replicate (nat (ps_total (dl_pieces dl ! i))) (verifyPiece SHA1 dl i),
      ps_count := (if verifyPiece SHA1 dl i then ps_total (dl_pieces dl ! i) else 0)\<rparr>]"
  by (simp_all add: restore_piece_def Let_def)

lemma restored_piece:
  fixes v :: bool
  assumes "geometry t" "i < numPieces t" "ps_total st = calculateBlocksForPiece t i"
  defines "st' \<equiv> st\<lparr>ps_requested := replicate (nat (ps_total st)) False,
     ps_received := replicate (nat (ps_total st)) v, ps_count := (if v then ps_total st else 0)\<rparr>"
  shows "piece_ok t i st'" "v = (ps_count st' = ps_total st')"
    "received_bytes t i st' = (if v then pieceSize t i else 0)"
proof -
  note b = blocks_bounds(1) [OF assms(1,2)]
  show ok: "piece_ok t i st'" using assms(3) b by (simp add: piece_ok_def st'_def)
  show "v = (ps_count st' = ps_total st')" using assms(3) b by (simp add: st'_def)
  show "received_bytes t i st' = (if v then pieceSize t i else 0)"
    using received_bytes_full [OF assms(1,2) ok] assms(3) by (auto simp: st'_def received_bytes_def)
qed

lemma partial_booksD:
  assumes "partial_books SHA1 k dl"
  shows "geometry (dl_torrent dl)" "length (dl_completed dl) = numPieces (dl_torrent dl)"
    "length (dl_pieces dl) = numPieces (dl_torrent dl)"
    "i < numPieces (dl_torrent dl) \<Longrightarrow> ps_total (dl_pieces dl ! i) = calculateBlocksForPiece (dl_torrent dl) i"
    "i < k \<Longrightarrow> piece_ok (dl_torrent dl) i (dl_pieces dl ! i)"
    "i < k \<Longrightarrow> dl_completed dl ! i = (ps_count (dl_pieces dl ! i) = ps_total (dl_pieces dl ! i))"
    "i < k \<Longrightarrow> dl_completed dl ! i = verifyPiece SHA1 dl i"
    "dl_completedCount dl = count_true (take k (dl_completed dl))"
    "dl_downloaded dl = (\<Sum>i < k. received_bytes (dl_torrent dl) i (dl_pieces dl ! i))"
    "r \<in> set (dl_pending dl) \<Longrightarrow> request_ok (dl_torrent dl) r"
  using assms by (auto simp: partial_books_def Let_def)

lemma partial_books_step:
  assumes "partial_books SHA1 k dl" "k < numPieces (dl_torrent dl)"
  shows "partial_books SHA1 (Suc k) (restore_piece SHA1 k dl)"
proof -
  let ?t = "dl_torrent dl" and ?dl' = "restore_piece SHA1 k dl"
  note D = partial_booksD [OF assms(1)]
  note pb = D(1,2,3) D(4) [OF assms(2)] D(8,9)
  note r = restored_piece [OF pb(1) assms(2) pb(4), where v = "verifyPiece SHA1 dl k"]
  have v: "verifyPiece SHA1 ?dl' i = verifyPiece SHA1 dl i" for i by (rule verifyPiece_cong) simp_all
  have old: "dl_pieces ?dl' ! i = dl_pieces dl ! i" "dl_completed ?dl' ! i = dl_completed dl ! i" if "i < k" for i
    using that by simp_all
  have new: "piece_ok ?t k (dl_pieces ?dl' ! k)"
    "verifyPiece SHA1 dl k = (ps_count (dl_pieces ?dl' ! k) = ps_total (dl_pieces ?dl' ! k))"
    "received_bytes ?t k (dl_pieces ?dl' ! k) = (if verifyPiece SHA1 dl k then pieceSize ?t k else 0)"
    "dl_completed ?dl' ! k = verifyPiece SHA1 dl k"
    using assms(2) pb(2,3) unfolding restore_piece_fields(7,8)
    by (simp_all only: nth_list_update_eq r(1,3) r(2) [symmetric])
  have count: "dl_completedCount ?dl' = count_true (take (Suc k) (dl_completed ?dl'))"
    using assms(2) pb(2,5) by (simp add: take_Suc_conv_app_nth) (simp add: restore_piece_def Let_def)
  have "(\<Sum>i < k. received_bytes ?t i (dl_pieces ?dl' ! i)) = dl_downloaded dl"
    unfolding pb(6) by (intro sum.cong) (simp_all add: old)
  then have down: "dl_downloaded ?dl' = (\<Sum>i < Suc k. received_bytes ?t i (dl_pieces ?dl' ! i))"
    using new(3) by (simp add: restore_piece_def Let_def)
  have total: "ps_total (dl_pieces ?dl' ! i) = ps_total (dl_pieces dl ! i)" for i
    by (cases "k < length (dl_pieces dl)"; cases "i = k") (auto simp: list_update_beyond)
  note prev = D(4-7,10)
  show ?thesis
    unfolding partial_books_def Let_def restore_piece_fields(1,4) v total
  proof (intro conjI allI impI)
    fix i assume "i < Suc k"
    then consider "i < k" | "i = k" by linarith
    note c = this
    show "piece_ok ?t i (dl_pieces ?dl' ! i)"
      using c by cases (simp only: old prev(2), simp only: new(1))
    show "dl_completed ?dl' ! i = (ps_count (dl_pieces ?dl' ! i) = ps_total (dl_pieces dl ! i))"
      using c by cases (simp only: old prev(3), simp only: new(2,4) total [symmetric])
    show "dl_completed ?dl' ! i = verifyPiece SHA1 dl i"
      using c by cases (simp only: old prev(4), simp only: new(4))
  next
    show "length (dl_completed ?dl') = numPieces ?t" "length (dl_pieces ?dl') = numPieces ?t"
      using pb(2,3) by simp_all
  qed (use prev(1,5) count down pb(1) in simp_all)
qed

lemma restore_loop_no_stop:
  "\<forall>i \<in> set is. \<not> stopped i \<Longrightarrow> restore_loop SHA1 stopped is dl = fold (restore_piece SHA1) is dl"
  by (induction "is" arbitrary: dl) auto

lemma partial_books_loop:
  "partial_books SHA1 0 dl \<Longrightarrow> k \<le> numPieces (dl_torrent dl) \<Longrightarrow>
   partial_books SHA1 k (fold (restore_piece SHA1) [0..<k] dl) \<and>
   dl_torrent (fold (restore_piece SHA1) [0..<k] dl) = dl_torrent dl"
  by (induction k) (auto intro: partial_books_step)

lemma restore_fold_frame:
  "dl_files (fold (restore_piece SHA1) is dl) = dl_files dl \<and> dl_fs (fold (restore_piece SHA1) is dl) = dl_fs dl \<and>
   dl_torrent (fold (restore_piece SHA1) is dl) = dl_torrent dl \<and>
   dl_peers (fold (restore_piece SHA1) is dl) = dl_peers dl \<and>
   dl_nextPeer (fold (restore_piece SHA1) is dl) = dl_nextPeer dl"
  by (induction "is" arbitrary: dl) auto

lemma partial_books_all:
  assumes "partial_books SHA1 (numPieces (dl_torrent dl)) dl"
    "store_ok (dl_files dl) (dl_fs dl)" "sum_list (map out_length (dl_files dl)) = totalLength (dl_torrent dl)"
  shows "good SHA1 dl"
  using assms by (auto simp: partial_books_def Let_def good_def books_def disk_inv_def dl_hasPiece_def)

text \<open>
  \<open>restoreCompletedPieces\<close> puts the books right whatever the pieces' flags were before, and
  marks a piece complete exactly when its hash on disk is right.
\<close>

lemma restoreCompletedPieces_good:
  assumes "geometry (dl_torrent dl)" "length (dl_completed dl) = numPieces (dl_torrent dl)"
    "length (dl_pieces dl) = numPieces (dl_torrent dl)"
    "\<forall>i < numPieces (dl_torrent dl). ps_total (dl_pieces dl ! i) = calculateBlocksForPiece (dl_torrent dl) i"
    "\<forall>r \<in> set (dl_pending dl). request_ok (dl_torrent dl) r"
    "store_ok (dl_files dl) (dl_fs dl)" "sum_list (map out_length (dl_files dl)) = totalLength (dl_torrent dl)"
    "\<forall>i < numPieces (dl_torrent dl). \<not> stopped i"
  shows "good SHA1 (restoreCompletedPieces SHA1 stopped dl)"
    and "\<forall>i < numPieces (dl_torrent dl). dl_completed (restoreCompletedPieces SHA1 stopped dl) ! i
       = verifyPiece SHA1 dl i"
proof -
  let ?n = "numPieces (dl_torrent dl)"
  let ?dl0 = "dl\<lparr>dl_completedCount := 0, dl_downloaded := 0\<rparr>"
  let ?dl1 = "fold (restore_piece SHA1) [0..<?n] ?dl0"
  have "partial_books SHA1 0 ?dl0" using assms(1-5) by (simp add: partial_books_def Let_def)
  from partial_books_loop [OF this, of ?n]
  have pb: "partial_books SHA1 ?n ?dl1" by simp
  have fr: "dl_files ?dl1 = dl_files dl" "dl_fs ?dl1 = dl_fs dl" "dl_torrent ?dl1 = dl_torrent dl"
    using restore_fold_frame [of SHA1 "[0..<?n]" ?dl0] by simp_all
  have eq: "restoreCompletedPieces SHA1 stopped dl = ?dl1\<lparr>dl_lastDownloaded := dl_downloaded ?dl1\<rparr>"
    using assms(8) by (simp add: restoreCompletedPieces_def Let_def restore_loop_no_stop)
  have "good SHA1 ?dl1" by (rule partial_books_all) (use pb fr assms(6,7) in auto)
  then show "good SHA1 (restoreCompletedPieces SHA1 stopped dl)"
    unfolding eq by (subst good_core) (simp_all add: core_def)
  have "verifyPiece SHA1 ?dl1 i = verifyPiece SHA1 dl i" for i by (rule verifyPiece_cong) (simp_all add: fr)
  moreover have "\<forall>i < ?n. dl_completed ?dl1 ! i = verifyPiece SHA1 ?dl1 i"
    using partial_booksD(7) [OF pb] by blast
  moreover have "dl_completed (restoreCompletedPieces SHA1 stopped dl) = dl_completed ?dl1" by (simp add: eq)
  ultimately show "\<forall>i < ?n. dl_completed (restoreCompletedPieces SHA1 stopped dl) ! i = verifyPiece SHA1 dl i"
    by simp
qed

section \<open>Starting\<close>

lemma start_running:
  assumes "start SHA1 stopped dl = (True, dl')"
  obtains w ofs w' where "openOutputFiles (dl_torrent dl) (dl_savePath dl) (op_overwrite (dl_options dl)) w = (True, ofs, w')"
    "dl' = restoreCompletedPieces SHA1 stopped (dl\<lparr>dl_running := True, dl_stop := False, dl_files := ofs, dl_fs := w'\<rparr>)"
    "\<forall>i < numPieces (dl_torrent dl). \<not> stopped i" "\<not> isComplete dl'"
  using assms
  by (auto simp: start_def Let_def split: if_splits prod.splits bool.splits)

text \<open>What \<open>start\<close> needs of the downloader, and what it leaves when it does not launch the loop.\<close>

definition ready :: "downloader \<Rightarrow> bool" where
  "ready dl \<longleftrightarrow> geometry (dl_torrent dl) \<and> length (dl_completed dl) = numPieces (dl_torrent dl) \<and>
     length (dl_pieces dl) = numPieces (dl_torrent dl) \<and>
     (\<forall>i < numPieces (dl_torrent dl). ps_total (dl_pieces dl ! i) = calculateBlocksForPiece (dl_torrent dl) i) \<and>
     (\<forall>r \<in> set (dl_pending dl). request_ok (dl_torrent dl) r)"

lemma ready_new: "geometry t \<Longrightarrow> ready (dl_new t savePath opts w now)"
  by (simp add: ready_def dl_new_def new_piece_state_def)

lemma ready_books: "books dl \<Longrightarrow> ready dl"
  using booksD [of dl] by (auto simp: ready_def piece_ok_def)

lemma ready_core: "core dl' = core dl \<Longrightarrow> ready dl' = ready dl"
  by (simp add: ready_def core_def)

lemma ready_merge_trackers: "ready dl \<Longrightarrow> ready (merge_trackers ts ex dl)"
proof (induction ts ex dl rule: merge_trackers.induct)
  case (2 t ts ex dl)
  have "calculateBlocksForPiece (u\<lparr>tAnnounceList := l\<rparr>) i = calculateBlocksForPiece u i"
    "request_ok (u\<lparr>tAnnounceList := l\<rparr>) r = request_ok u r" for u l i r
    by (simp_all add: request_ok_def cong: if_cong)
  with 2 show ?case by (auto simp: ready_def)
qed simp

lemma restore_loop_fields:
  "dl_torrent (restore_loop SHA1 stopped is dl) = dl_torrent dl \<and>
   dl_files (restore_loop SHA1 stopped is dl) = dl_files dl \<and> dl_fs (restore_loop SHA1 stopped is dl) = dl_fs dl \<and>
   dl_peers (restore_loop SHA1 stopped is dl) = dl_peers dl \<and>
   dl_nextPeer (restore_loop SHA1 stopped is dl) = dl_nextPeer dl \<and>
   dl_pending (restore_loop SHA1 stopped is dl) = dl_pending dl \<and>
   length (dl_completed (restore_loop SHA1 stopped is dl)) = length (dl_completed dl) \<and>
   map ps_total (dl_pieces (restore_loop SHA1 stopped is dl)) = map ps_total (dl_pieces dl)"
proof (induction "is" arbitrary: dl)
  case (Cons i "is")
  have "map ps_total (dl_pieces (restore_piece SHA1 i dl)) = map ps_total (dl_pieces dl)"
    by (cases "i < length (dl_pieces dl)") (simp_all add: map_update list_update_beyond list_update_same_conv)
  with Cons show ?case by (simp del: restore_piece_fields(8))
qed simp

lemma restoreCompletedPieces_fields:
  "dl_torrent (restoreCompletedPieces SHA1 stopped dl) = dl_torrent dl"
  "dl_files (restoreCompletedPieces SHA1 stopped dl) = dl_files dl"
  "dl_peers (restoreCompletedPieces SHA1 stopped dl) = dl_peers dl"
  "dl_nextPeer (restoreCompletedPieces SHA1 stopped dl) = dl_nextPeer dl"
  "dl_pending (restoreCompletedPieces SHA1 stopped dl) = dl_pending dl"
  "length (dl_completed (restoreCompletedPieces SHA1 stopped dl)) = length (dl_completed dl)"
  "map ps_total (dl_pieces (restoreCompletedPieces SHA1 stopped dl)) = map ps_total (dl_pieces dl)"
  by (simp_all add: restoreCompletedPieces_def Let_def restore_loop_fields)

text \<open>Whether or not it launches the loop, \<open>start\<close> keeps the peers and leaves a downloader that can be started.\<close>

lemma start_keeps:
  assumes "start SHA1 stopped dl = (launched, dl')"
  shows "dl_torrent dl' = dl_torrent dl" "dl_peers dl' = dl_peers dl" "dl_nextPeer dl' = dl_nextPeer dl"
    "dl_pending dl' = dl_pending dl" "ready dl \<Longrightarrow> ready dl'"
proof -
  have f: "dl_torrent dl' = dl_torrent dl \<and> dl_peers dl' = dl_peers dl \<and> dl_nextPeer dl' = dl_nextPeer dl \<and>
      dl_pending dl' = dl_pending dl \<and> length (dl_completed dl') = length (dl_completed dl) \<and>
      map ps_total (dl_pieces dl') = map ps_total (dl_pieces dl)"
    using assms by (auto simp: start_def Let_def restoreCompletedPieces_fields split: if_splits prod.splits bool.splits)
  then show "dl_torrent dl' = dl_torrent dl" "dl_peers dl' = dl_peers dl" "dl_nextPeer dl' = dl_nextPeer dl"
    "dl_pending dl' = dl_pending dl" by blast+
  from f have l: "length (dl_pieces dl') = length (dl_pieces dl)" by (metis length_map)
  from f have "ps_total (dl_pieces dl' ! i) = ps_total (dl_pieces dl ! i)" if "i < length (dl_pieces dl)" for i
    using that l by (metis nth_map)
  with f l show "ready dl \<Longrightarrow> ready dl'" by (simp add: ready_def)
qed

lemma start_good:
  assumes "ready dl" "start SHA1 stopped dl = (True, dl')" "distinct (map out_key (dl_files dl'))"
  shows "good SHA1 dl'"
proof -
  obtain w1 ofs w2 where o: "openOutputFiles (dl_torrent dl) (dl_savePath dl) (op_overwrite (dl_options dl)) w1 = (True, ofs, w2)"
    and dl': "dl' = restoreCompletedPieces SHA1 stopped (dl\<lparr>dl_running := True, dl_stop := False, dl_files := ofs, dl_fs := w2\<rparr>)"
    and st: "\<forall>i < numPieces (dl_torrent dl). \<not> stopped i"
    by (rule start_running [OF assms(2)])
  have "dl_files dl' = ofs" by (simp add: dl' restoreCompletedPieces_fields)
  then have "store_ok ofs w2 \<and> sum_list (map out_length ofs) = totalLength (dl_torrent dl)"
    using openOutputFiles_ok [OF o] assms(1,3) by (simp add: ready_def geometry_def)
  then show ?thesis unfolding dl'
    by (intro restoreCompletedPieces_good(1)) (use assms(1) st in \<open>simp_all add: ready_def\<close>)
qed

text \<open>
  Whatever \<open>start\<close> returns, and also when a stop cuts the verification short, the downloader is
  complete only if every piece was verified.
\<close>

lemma restore_loop_prefix:
  "\<exists>k \<le> length is. restore_loop SHA1 stopped is dl = fold (restore_piece SHA1) (take k is) dl"
proof (induction "is" arbitrary: dl)
  case (Cons i "is")
  show ?case
  proof (cases "stopped i")
    case True
    then show ?thesis by (intro exI [of _ 0]) simp
  next
    case False
    obtain k where "k \<le> length is"
      "restore_loop SHA1 stopped is (restore_piece SHA1 i dl) = fold (restore_piece SHA1) (take k is) (restore_piece SHA1 i dl)"
      using Cons.IH by blast
    with False show ?thesis by (intro exI [of _ "Suc k"]) simp
  qed
qed simp

lemma restore_new_complete:
  assumes "geometry t" "dl1 = (dl_new t savePath opts w now)\<lparr>dl_running := True, dl_stop := False, dl_files := ofs, dl_fs := w2\<rparr>"
    "dl = restoreCompletedPieces SHA1 stopped dl1" "isComplete dl"
    "store_ok ofs w2" "sum_list (map out_length ofs) = totalLength t"
  shows "good SHA1 dl"
proof -
  let ?dl0 = "dl1\<lparr>dl_completedCount := 0, dl_downloaded := 0\<rparr>"
  have t: "dl_torrent dl1 = t" "dl_files dl1 = ofs" "dl_fs dl1 = w2" by (simp_all add: assms(2) dl_new_def)
  obtain k where k: "k \<le> numPieces t"
    "restore_loop SHA1 stopped [0..<numPieces t] ?dl0 = fold (restore_piece SHA1) [0..<k] ?dl0"
    using restore_loop_prefix [of "[0..<numPieces t]" SHA1 stopped ?dl0] by auto
  let ?r = "fold (restore_piece SHA1) [0..<k] ?dl0"
  have eq: "dl = ?r\<lparr>dl_lastDownloaded := dl_downloaded ?r\<rparr>"
    using assms(3) k(2) t by (simp add: restoreCompletedPieces_def Let_def)
  have "partial_books SHA1 0 ?dl0"
    using assms(1) by (simp add: partial_books_def Let_def assms(2) dl_new_def new_piece_state_def)
  then have pb: "partial_books SHA1 k ?r" using partial_books_loop [of SHA1 ?dl0 k] k(1) t by simp
  have fr: "dl_files ?r = ofs" "dl_fs ?r = w2" "dl_torrent ?r = t"
    using restore_fold_frame [of SHA1 "[0..<k]" ?dl0] t by simp_all
  have "numPieces t \<le> k"
    using assms(4) partial_booksD(8) [OF pb] count_true_le [of "take k (dl_completed ?r)"]
    unfolding eq isComplete_def by (auto simp: fr)
  then have "partial_books SHA1 (numPieces (dl_torrent ?r)) ?r" using k(1) pb fr by simp
  then have "good SHA1 ?r" by (rule partial_books_all) (use fr assms(5,6) in auto)
  then show ?thesis unfolding eq by (subst good_core) (simp_all add: core_def)
qed

lemma start_shape:
  assumes "start SHA1 stopped dl = (launched, dl')" "\<not> dl_running dl"
  shows "(\<exists>w1 ofs w2. openOutputFiles (dl_torrent dl) (dl_savePath dl) (op_overwrite (dl_options dl)) w1 = (True, ofs, w2) \<and>
      core dl' = core (restoreCompletedPieces SHA1 stopped
        (dl\<lparr>dl_running := True, dl_stop := False, dl_files := ofs, dl_fs := w2\<rparr>))) \<or>
    (dl_completedCount dl' = dl_completedCount dl \<and> dl_torrent dl' = dl_torrent dl)"
proof -
  obtain ok1 w1 where c: "createDirectories (dl_savePath dl) (dl_fs dl) = (ok1, w1)" by (metis surj_pair)
  obtain ok2 ofs w2 where o: "openOutputFiles (dl_torrent dl) (dl_savePath dl) (op_overwrite (dl_options dl)) w1 = (ok2, ofs, w2)"
    by (metis surj_pair)
  let ?d = "restoreCompletedPieces SHA1 stopped (dl\<lparr>dl_running := True, dl_stop := False, dl_files := ofs, dl_fs := w2\<rparr>)"
  have "core dl' = core ?d" if "ok1" "ok2"
    using assms c o that by (auto simp: start_def Let_def core_def split: if_splits)
  moreover have "dl_completedCount dl' = dl_completedCount dl \<and> dl_torrent dl' = dl_torrent dl" if "\<not> (ok1 \<and> ok2)"
    using assms c o that by (cases ok1; cases ok2) (auto simp: start_def)
  ultimately show ?thesis using o by (cases "ok1 \<and> ok2") (simp_all, blast)
qed

lemma start_complete:
  assumes "geometry t" "start SHA1 stopped (dl_new t savePath opts w now) = (launched, dl)"
    "isComplete dl" "0 < numPieces t" "distinct (map out_key (dl_files dl))"
  shows "good SHA1 dl"
proof -
  let ?new = "dl_new t savePath opts w now"
  have new: "dl_torrent ?new = t" "dl_savePath ?new = savePath" "dl_options ?new = opts"
    "\<not> dl_running ?new" "dl_completedCount ?new = 0" by (simp_all add: dl_new_def)
  show ?thesis
  proof (cases "\<exists>w1 ofs w2. openOutputFiles t savePath (op_overwrite opts) w1 = (True, ofs, w2) \<and>
      core dl = core (restoreCompletedPieces SHA1 stopped
        (?new\<lparr>dl_running := True, dl_stop := False, dl_files := ofs, dl_fs := w2\<rparr>))")
    case True
    then obtain w1 ofs w2 where o: "openOutputFiles t savePath (op_overwrite opts) w1 = (True, ofs, w2)"
      and c: "core dl = core (restoreCompletedPieces SHA1 stopped
        (?new\<lparr>dl_running := True, dl_stop := False, dl_files := ofs, dl_fs := w2\<rparr>))" (is "_ = core ?dl2")
      by blast
    have "dl_files ?dl2 = ofs"
      by (simp add: restoreCompletedPieces_fields)
    with core_fields(7) [OF c] assms(5) have "distinct (map out_key ofs)" by simp
    then have ok: "store_ok ofs w2 \<and> sum_list (map out_length ofs) = totalLength t"
      using openOutputFiles_ok [OF o] assms(1) by (simp add: geometry_def)
    have "isComplete ?dl2" using assms(3) core_fields(1,4) [OF c] by (simp add: isComplete_def)
    from restore_new_complete [OF assms(1) refl refl this] ok have "good SHA1 ?dl2" by blast
    then show ?thesis using good_core [OF c] by simp
  next
    case False
    with start_shape [OF assms(2)] new have "dl_completedCount dl = 0" "dl_torrent dl = t" by auto
    with assms(3,4) show ?thesis by (simp add: isComplete_def)
  qed
qed

section \<open>The step relation\<close>

text \<open>Each operation of the thread is a step, whatever the time, the peers, the trackers and the network give.\<close>

inductive dl_step :: "(bytes \<Rightarrow> bytes) \<Rightarrow> downloader \<Rightarrow> downloader \<Rightarrow> bool" for SHA1 where
  connecting: "dl_step SHA1 dl (snd (connectToPeers now env dl))"
| messages: "processPeerMessages SHA1 now arrived dl = Ok dl' \<Longrightarrow> dl_step SHA1 dl dl'"
| requesting: "dl_step SHA1 dl (requestPieces now dl)"
| cleaning: "dl_step SHA1 dl (cleanupTimedOutRequests now dl)"
| measuring: "dl_step SHA1 dl (updateSpeedStats now dl)"
| endgame: "dl_step SHA1 dl (update_endgame dl)"
| evicting: "dl_step SHA1 dl (pruneBadPeers now dl)"
| refreshing: "dl_step SHA1 dl (fetchLatestTrackers http dl)"
| announcing: "contact_trackers clk env event dl = Ok (resp, dl') \<Longrightarrow> dl_step SHA1 dl dl'"
| adding: "dl_step SHA1 dl (addPeers now ps dl)"
| stopping: "dl_step SHA1 dl (requestStop dl)"
| ending: "dl_step SHA1 dl (dl\<lparr>dl_running := False\<rparr>)"

inductive_cases dl_stepE: "dl_step SHA1 dl dl'"

definition dl_inv :: "(bytes \<Rightarrow> bytes) \<Rightarrow> downloader \<Rightarrow> bool" where
  "dl_inv SHA1 dl \<longleftrightarrow> good SHA1 dl \<and> pool_inv dl"

lemma contact_trackers_peers:
  "contact_trackers clk env e dl = Ok (r, dl') \<Longrightarrow> dl_peers dl' = dl_peers dl \<and>
     dl_nextPeer dl' = dl_nextPeer dl \<and> dl_files dl' = dl_files dl \<and> dl_torrent dl' = dl_torrent dl"
  by (auto simp: contact_trackers_def)

lemma dl_inv_tends: "good SHA1 dl' \<Longrightarrow> tends dl dl' \<Longrightarrow> dl_inv SHA1 dl \<Longrightarrow> dl_inv SHA1 dl'"
  by (auto simp: dl_inv_def intro: tends_inv)

lemma dl_inv_step:
  assumes "dl_inv SHA1 dl" "dl_step SHA1 dl dl'"
  shows "dl_inv SHA1 dl'"
proof -
  have g: "good SHA1 dl" and p: "pool_inv dl" using assms(1) by (auto simp: dl_inv_def)
  from assms(2) show ?thesis
  proof cases
    case (connecting now env)
    then show ?thesis using g p by (simp add: dl_inv_def good_core [OF core_connectToPeers] pool_inv_connectToPeers)
  next
    case (messages now arrived)
    then show ?thesis using g p by (auto simp: dl_inv_def intro: good_processPeerMessages pool_inv_processPeerMessages)
  next
    case (requesting now)
    show ?thesis unfolding requesting by (rule dl_inv_tends [OF good_requestPieces [OF g] tends_requestPieces assms(1)])
  next
    case (cleaning now)
    show ?thesis unfolding cleaning by (rule dl_inv_tends [OF good_cleanup [OF g] tends_cleanupTimedOutRequests assms(1)])
  next
    case (measuring now)
    have "tends dl dl'" unfolding measuring by (rule tends_same) (simp_all add: updateSpeedStats_def Let_def)
    with g show ?thesis unfolding measuring
      by (intro dl_inv_tends [OF _ _ assms(1)]) (simp_all add: good_core [OF core_updateSpeedStats])
  next
    case endgame
    have "tends dl dl'" unfolding endgame by (rule tends_same) (simp_all add: update_endgame_def)
    with g show ?thesis unfolding endgame
      by (intro dl_inv_tends [OF _ _ assms(1)]) (simp_all add: good_core [OF core_update_endgame])
  next
    case (evicting now)
    show ?thesis unfolding evicting
      by (rule dl_inv_tends [OF _ tends_pruneBadPeers assms(1)]) (simp add: g good_core [OF core_pruneBadPeers])
  next
    case (refreshing http)
    show ?thesis unfolding refreshing
      by (rule dl_inv_tends [OF good_fetchLatestTrackers [OF g] tends_fetchLatestTrackers assms(1)])
  next
    case (announcing clk env event resp)
    have "tends dl dl'" using contact_trackers_peers [OF announcing] by (intro tends_same) auto
    moreover have "good SHA1 dl'" using g good_core [OF core_contact_trackers [OF announcing]] by simp
    ultimately show ?thesis by (intro dl_inv_tends [OF _ _ assms(1)])
  next
    case (adding now ps)
    then show ?thesis using g p by (simp add: dl_inv_def good_core [OF core_addPeers] pool_inv_addPeers)
  next
    case stopping
    have "core dl' = core dl" "tends dl dl'" unfolding stopping
      by (simp add: requestStop_def core_def) (rule tends_same, simp_all add: requestStop_def)
    then show ?thesis using g good_core [of dl' dl SHA1] by (intro dl_inv_tends [OF _ _ assms(1)]) simp_all
  next
    case ending
    have "core dl' = core dl" "tends dl dl'" unfolding ending
      by (simp add: core_def) (rule tends_same, simp_all)
    then show ?thesis using g good_core [of dl' dl SHA1] by (intro dl_inv_tends [OF _ _ assms(1)]) simp_all
  qed
qed

lemma dl_step_steady:
  assumes "dl_step SHA1 dl dl'"
  shows "steady dl dl'"
proof -
  have c: "steady d d'" if "core d' = core d" for d d'
    using core_fields(1,7) [OF that] by (simp add: steady_def)
  from assms show ?thesis
  proof cases
    case (messages now arrived)
    then show ?thesis
      by (auto simp: processPeerMessages_def
          intro: steady_trans [OF tends_steady [OF tends_process_peers] c [OF core_addPeers]])
  next
    case (announcing clk env event resp)
    then show ?thesis by (intro c) (rule core_contact_trackers)
  next
    case stopping
    then show ?thesis by (intro c) (simp add: requestStop_def core_def)
  next
    case ending
    then show ?thesis by (intro c) (simp add: core_def)
  qed (auto intro: c tends_steady tends_requestPieces tends_cleanupTimedOutRequests tends_fetchLatestTrackers)
qed

interpretation download_path: preserved_relation "dl_step SHA1" steady for SHA1
  by unfold_locales (auto intro: steady_trans dl_step_steady)

lemma dl_path_steady: "(dl_step SHA1)\<^sup>*\<^sup>* dl dl' \<Longrightarrow> steady dl dl'"
  by (rule download_path.star_rel)

interpretation download: preserved_relation "dl_step SHA1" "\<lambda>dl dl'. dl_inv SHA1 dl \<longrightarrow> dl_inv SHA1 dl'" for SHA1
  by unfold_locales (auto intro: dl_inv_step)

section \<open>The life of a downloader\<close>

text \<open>
  A state is a downloader with a flag: whether its last \<open>start\<close> launched the thread. Before a launch
  the caller can add peers, refresh the trackers, request a stop, and start; a start that fails, is stopped
  while existing files are verified, or finds the download complete leaves the flag false. After a
  launch the thread works, and the caller can stop and start again, which reads everything back from disk.

  Two conditions are part of the steps. The output files a launched download has opened must be different ones:
  two names that \<open>sanitizePath\<close> maps to one path share their bytes. And \<open>start\<close> after a
  \<open>stop\<close> is a step only if no request was in flight: \<open>stop\<close> frees the peers but keeps
  \<open>pendingRequests_\<close>, whose pointers to them the next download would follow.
\<close>

definition life_init :: "bool \<times> downloader \<Rightarrow> bool" where
  "life_init s \<longleftrightarrow> (\<exists>t savePath opts w now. geometry t \<and> s = (False, dl_new t savePath opts w now))"

inductive life_step :: "(bytes \<Rightarrow> bytes) \<Rightarrow> bool \<times> downloader \<Rightarrow> bool \<times> downloader \<Rightarrow> bool" for SHA1 where
  peers_given: "life_step SHA1 (False, dl) (False, addPeers now ps dl)"
| trackers_given: "life_step SHA1 (False, dl) (False, fetchLatestTrackers http dl)"
| stop_given: "life_step SHA1 (False, dl) (False, requestStop dl)"
| starting: "start SHA1 stopped dl = (launched, dl') \<Longrightarrow> launched \<longrightarrow> distinct (map out_key (dl_files dl')) \<Longrightarrow>
    life_step SHA1 (False, dl) (launched, dl')"
| working: "dl_step SHA1 dl dl' \<Longrightarrow> life_step SHA1 (True, dl) (True, dl')"
| joining: "life_step SHA1 (launched, dl) (launched, stop dl)"
| restarting: "dl_pending dl = [] \<Longrightarrow> start SHA1 stopped (stop dl) = (launched, dl') \<Longrightarrow>
    launched \<longrightarrow> distinct (map out_key (dl_files dl')) \<Longrightarrow> life_step SHA1 (True, dl) (launched, dl')"

definition life_inv :: "(bytes \<Rightarrow> bytes) \<Rightarrow> bool \<times> downloader \<Rightarrow> bool" where
  "life_inv SHA1 s \<longleftrightarrow> ready (snd s) \<and> pool_inv (snd s) \<and> (fst s \<longrightarrow> good SHA1 (snd s))"

lemma core_stop: "core (stop dl) = core dl"
  by (simp add: stop_def core_def)

lemma pool_inv_stop: "pool_inv (stop dl)"
  by (simp add: stop_def pool_inv_def)

lemma pool_inv_same: "dl_peers dl' = dl_peers dl \<Longrightarrow> dl_nextPeer dl' = dl_nextPeer dl \<Longrightarrow> pool_inv dl' = pool_inv dl"
  by (simp add: pool_inv_def)

lemma life_inv_start:
  assumes "start SHA1 stopped dl = (launched, dl')" "launched \<longrightarrow> distinct (map out_key (dl_files dl'))"
    "ready dl" "pool_inv dl"
  shows "life_inv SHA1 (launched, dl')"
  using start_keeps [OF assms(1)] assms start_good [of dl SHA1 stopped dl'] pool_inv_same [of dl' dl]
  by (cases launched) (auto simp: life_inv_def)

lemma life_invI: "ready dl \<Longrightarrow> pool_inv dl \<Longrightarrow> (launched \<Longrightarrow> good SHA1 dl) \<Longrightarrow> life_inv SHA1 (launched, dl)"
  by (simp add: life_inv_def)

lemma life_invD:
  "life_inv SHA1 (launched, dl) \<Longrightarrow> ready dl" "life_inv SHA1 (launched, dl) \<Longrightarrow> pool_inv dl"
  "life_inv SHA1 (launched, dl) \<Longrightarrow> launched \<Longrightarrow> good SHA1 dl"
  by (simp_all add: life_inv_def)

lemma ready_fetchLatestTrackers: "ready dl \<Longrightarrow> ready (fetchLatestTrackers http dl)"
  by (simp add: fetchLatestTrackers_def Let_def ready_merge_trackers)

lemma core_requestStop: "core (requestStop dl) = core dl"
  by (simp add: requestStop_def core_def)

lemma pool_inv_requestStop: "pool_inv (requestStop dl) = pool_inv dl"
  by (rule pool_inv_same) (simp_all add: requestStop_def)

lemma life_inv_step:
  assumes "life_step SHA1 s s'" "life_inv SHA1 s"
  shows "life_inv SHA1 s'"
  using assms
proof (induction rule: life_step.induct)
  case (peers_given dl now ps)
  note i = life_invD(1,2) [OF this]
  show ?case by (rule life_invI) (simp_all add: i ready_core [OF core_addPeers] pool_inv_addPeers)
next
  case (trackers_given dl http)
  note i = life_invD(1,2) [OF this]
  show ?case by (rule life_invI) (simp_all add: i ready_fetchLatestTrackers tends_inv [OF tends_fetchLatestTrackers])
next
  case (stop_given dl)
  note i = life_invD(1,2) [OF this]
  show ?case by (rule life_invI) (simp_all add: i ready_core [OF core_requestStop] pool_inv_requestStop)
next
  case (starting stopped dl launched dl')
  show ?case by (rule life_inv_start [OF starting(1,2) life_invD(1,2) [OF starting(3)]])
next
  case (working dl dl')
  have "dl_inv SHA1 dl" using life_invD [OF working(2)] by (simp add: dl_inv_def)
  then have "dl_inv SHA1 dl'" using working(1) by (rule dl_inv_step)
  then show ?case by (intro life_invI) (simp_all add: dl_inv_def ready_books good_def)
next
  case (joining launched dl)
  note i = life_invD [OF this]
  show ?case by (rule life_invI) (simp_all add: i ready_core [OF core_stop] good_core [OF core_stop] pool_inv_stop)
next
  case (restarting dl stopped launched dl')
  have "ready (stop dl)" using life_invD(1) [OF restarting(4)] by (simp add: ready_core [OF core_stop])
  then show ?case by (rule life_inv_start [OF restarting(2,3) _ pool_inv_stop])
qed

lemma life_inv_init: "life_init s \<Longrightarrow> life_inv SHA1 s"
  unfolding life_init_def by (elim exE conjE) (simp add: life_inv_def ready_new, simp add: pool_inv_def dl_new_def)

interpretation life: invariant_system life_init "life_step SHA1" "life_inv SHA1" for SHA1
  by unfold_locales (rule life_inv_init, assumption, rule life_inv_step)

text \<open>The states of a downloader whose last start launched the thread.\<close>

abbreviation dl_reachable :: "(bytes \<Rightarrow> bytes) \<Rightarrow> downloader \<Rightarrow> bool" where
  "dl_reachable SHA1 dl \<equiv> reaches life_init (life_step SHA1) (True, dl)"

lemma reachable_dl_inv:
  assumes "dl_reachable SHA1 dl"
  shows "dl_inv SHA1 dl"
  using life_invD(2,3) [OF life.reachable_inv [OF assms]] by (simp only: dl_inv_def simp_thms)

lemma reachable_step: "dl_reachable SHA1 dl \<Longrightarrow> dl_step SHA1 dl dl' \<Longrightarrow> dl_reachable SHA1 dl'"
  by (rule reaches_step [where s = "(True, dl)"]) (assumption, rule working)

lemma reachable_star: "(dl_step SHA1)\<^sup>*\<^sup>* dl dl' \<Longrightarrow> dl_reachable SHA1 dl \<Longrightarrow> dl_reachable SHA1 dl'"
  by (induction rule: rtranclp_induct) (auto intro: reachable_step)

section \<open>The loop is a path\<close>

abbreviation dl_path :: "(bytes \<Rightarrow> bytes) \<Rightarrow> downloader \<Rightarrow> downloader \<Rightarrow> bool" where
  "dl_path SHA1 \<equiv> (dl_step SHA1)\<^sup>*\<^sup>*"

lemma turn_work_path:
  assumes "turn_work SHA1 env dl = Ok dl'"
  shows "dl_path SHA1 dl dl'"
proof -
  let ?d1 = "snd (connectToPeers (te_now env 0) (te_connect env) dl)"
  from assms obtain d2 where m: "processPeerMessages SHA1 (te_now env 1) (te_arrived env) ?d1 = Ok d2"
    and dl': "dl' = update_endgame (updateSpeedStats (te_now env 4)
      (cleanupTimedOutRequests (te_now env 3) (requestPieces (te_now env 2) d2)))"
    by (auto simp: turn_work_def)
  let ?d3 = "requestPieces (te_now env 2) d2"
  let ?d4 = "cleanupTimedOutRequests (te_now env 3) ?d3"
  have "dl_path SHA1 dl ?d1" by (intro r_into_rtranclp connecting)
  also have "dl_step SHA1 ?d1 d2" by (rule messages [OF m])
  also have "dl_step SHA1 d2 ?d3" by (rule requesting)
  also have "dl_step SHA1 ?d3 ?d4" by (rule cleaning)
  also have "dl_step SHA1 ?d4 (updateSpeedStats (te_now env 4) ?d4)" by (rule measuring)
  also have "dl_step SHA1 (updateSpeedStats (te_now env 4) ?d4) dl'" unfolding dl' by (rule endgame)
  finally show ?thesis .
qed

lemma turn_prune_path: "turn_prune env lv dl = (lv', dl') \<Longrightarrow> dl_path SHA1 dl dl'"
  by (auto simp: turn_prune_def split: if_splits intro: evicting)

lemma turn_trackers_path:
  assumes "turn_trackers env lv dl = Ok (lv', dl')"
  shows "dl_path SHA1 dl dl'"
proof -
  define dl1 where "dl1 = (if op_refreshTrackers (dl_options dl) \<and>
      300 \<le> tdiv (te_now env 7 - lv_lastFetch lv) 1000000000 then fetchLatestTrackers (te_http env) dl else dl)"
  have p1: "dl_path SHA1 dl dl1" by (auto simp: dl1_def intro: refreshing)
  have "dl_path SHA1 dl (addPeers now ps dl2)" "dl_path SHA1 dl dl2"
    if "contact_trackers clk te e dl1 = Ok (resp, dl2)" for clk te e resp dl2 now ps
  proof -
    show "dl_path SHA1 dl dl2" using p1 announcing [OF that] by (rule rtranclp.rtrancl_into_rtrancl)
    then show "dl_path SHA1 dl (addPeers now ps dl2)" by (rule rtranclp.rtrancl_into_rtrancl) (rule adding)
  qed
  with p1 assms show ?thesis
    unfolding turn_trackers_def Let_def dl1_def [symmetric] by (auto split: if_splits)
qed

lemma stop_if_path: "dl_path SHA1 dl (stop_if b dl)"
  by (auto simp: stop_if_def intro: stopping)

lemma download_turns_path: "download_turns SHA1 envs lv dl = Ok (lv', dl') \<Longrightarrow> dl_path SHA1 dl dl'"
proof (induction envs arbitrary: lv dl)
  case Nil
  then show ?case by (auto split: if_splits)
next
  case (Cons env envs)
  show ?case
  proof (cases "\<not> dl_running dl \<or> dl_stop dl")
    case True
    with Cons.prems show ?thesis by auto
  next
    case False
    with Cons.prems obtain dl1 where w: "turn_work SHA1 env dl = Ok dl1" by auto
    obtain lv2 dl2 where p: "turn_prune env lv dl1 = (lv2, dl2)" by (metis surj_pair)
    have p2: "dl_path SHA1 dl dl2"
      using rtranclp_trans [OF turn_work_path [OF w] turn_prune_path [OF p]] .
    show ?thesis
    proof (cases "isComplete dl2")
      case True
      with Cons.prems False w p p2 show ?thesis by auto
    next
      case nc: False
      with Cons.prems False w p obtain lv3 dl3 where t: "turn_trackers env lv2 dl2 = Ok (lv3, dl3)"
        and rest: "download_turns SHA1 envs (turn_idle lv3 dl3) (stop_if (te_stop env) dl3) = Ok (lv', dl')"
        by auto
      from rtranclp_trans [OF rtranclp_trans [OF rtranclp_trans [OF p2 turn_trackers_path [OF t]] stop_if_path]
          Cons.IH [OF rest]]
      show ?thesis .
    qed
  qed
qed

lemma loop_start_path:
  assumes "loop_start env dl = Ok (lv, dl')"
  shows "dl_path SHA1 dl dl'"
proof -
  define dl1 where "dl1 = stop_if (le_stop env 0)
    (if op_refreshTrackers (dl_options dl) then fetchLatestTrackers (le_http env) dl else dl)"
  have step: "dl_path SHA1 dl a \<Longrightarrow> dl_step SHA1 a b \<Longrightarrow> dl_path SHA1 dl b" for a b
    by (rule rtranclp.rtrancl_into_rtrancl)
  have stop: "dl_path SHA1 dl a \<Longrightarrow> dl_path SHA1 dl (stop_if b a)" for a b
    by (rule rtranclp_trans [OF _ stop_if_path])
  have add: "dl_path SHA1 dl a \<Longrightarrow> dl_path SHA1 dl (addPeers now ps a)" for a now ps
    by (rule step [OF _ adding])
  have p1: "dl_path SHA1 dl dl1" by (auto simp: dl1_def intro!: stop intro: refreshing)
  show ?thesis
  proof (cases "dl_stop dl1")
    case True
    with assms p1 show ?thesis by (simp add: loop_start_def dl1_def [symmetric])
  next
    case False
    then obtain resp d where c: "contact_trackers (le_clk env) (le_tracker env) ''started'' dl1 = Ok (resp, d)"
      using assms by (auto simp: loop_start_def dl1_def [symmetric] Let_def)
    define dl2 where "dl2 = stop_if (le_stop env 1) d"
    define dl3 where "dl3 = (if response_ok resp then addPeers (le_now env) (trPeers resp) dl2 else dl2)"
    have p2: "dl_path SHA1 dl dl2" unfolding dl2_def by (intro stop step [OF p1 announcing [OF c]])
    then have p3: "dl_path SHA1 dl dl3" by (simp add: dl3_def add)
    have "dl' \<in> {dl2, dl3, stop_if (le_stop env 2) dl3} \<union> range (\<lambda>ps. addPeers (le_now env) ps (stop_if (le_stop env 2) dl3))"
      using assms False c unfolding loop_start_def dl1_def [symmetric]
      by (auto simp: Let_def dl2_def dl3_def split: if_splits)
    with p2 p3 show ?thesis by (auto intro: stop add)
  qed
qed

lemma downloadLoop_path:
  assumes "downloadLoop SHA1 env dl = Ok dl'"
  shows "dl_path SHA1 dl dl'"
proof (cases "dl_stop dl")
  case True
  with assms show ?thesis by (auto simp: downloadLoop_def intro: ending)
next
  case False
  with assms obtain started dl1 where st: "loop_start env dl = Ok (started, dl1)"
    by (auto simp: downloadLoop_def)
  obtain dl2 where dl2: "dl_path SHA1 dl1 dl2" "dl' = dl2\<lparr>dl_running := False\<rparr>"
    using assms False st by (auto simp: downloadLoop_def split: option.splits dest: download_turns_path)
  from rtranclp_trans [OF loop_start_path [OF st] dl2(1)] ending show ?thesis
    unfolding dl2(2) by (rule rtranclp.rtrancl_into_rtrancl)
qed

text \<open>A stop requested during a turn makes it the last one.\<close>

lemma stop_if_stopped [simp]: "dl_stop (stop_if True dl)"
  by (simp add: stop_if_def requestStop_def)

lemma download_turns_stop:
  "te_stop e \<Longrightarrow> download_turns SHA1 (xs @ e # rest) lv dl = download_turns SHA1 (xs @ [e]) lv dl"
proof (induction xs arbitrary: lv dl)
  case Nil
  have "download_turns SHA1 es l (stop_if True d) = Ok (l, stop_if True d)" for es l d
    by (cases es) simp_all
  with Nil show ?case by (simp cong: if_cong prod.case_cong)
next
  case (Cons x xs)
  then show ?case by (simp cong: if_cong prod.case_cong)
qed

section \<open>What a download guarantees\<close>

lemma inv_progress:
  assumes "dl_inv SHA1 dl"
  shows "0 \<le> dl_downloaded dl \<and> dl_downloaded dl \<le> totalLength (dl_torrent dl)"
  using books_downloaded assms by (auto simp: dl_inv_def good_def)

lemma inv_verified:
  assumes "dl_inv SHA1 dl" "i < numPieces (dl_torrent dl)" "dl_hasPiece dl i"
  shows "verifyPiece SHA1 dl i"
  using assms by (simp add: dl_inv_def good_def disk_inv_def)

lemma inv_complete:
  assumes "dl_inv SHA1 dl" "isComplete dl"
  shows "\<forall>i < numPieces (dl_torrent dl). verifyPiece SHA1 dl i"
    and "dl_downloaded dl = totalLength (dl_torrent dl)"
    and "0 < totalLength (dl_torrent dl) \<Longrightarrow> getProgress dl = 1"
proof -
  have b: "books dl" using assms(1) by (simp add: dl_inv_def good_def)
  show "\<forall>i < numPieces (dl_torrent dl). verifyPiece SHA1 dl i"
    using assms(2) isComplete_iff [OF b] inv_verified [OF assms(1)] by blast
  show d: "dl_downloaded dl = totalLength (dl_torrent dl)" by (rule isComplete_downloaded [OF b assms(2)])
  then show "0 < totalLength (dl_torrent dl) \<Longrightarrow> getProgress dl = 1"
    by (simp add: getProgress_def)
qed

end
