(* ===== verification/Policy.thy ===== *)
theory Policy
  imports Downloader_Inv
begin

text \<open>
  The policies of \<open>src/downloader.cpp\<close>: which piece is fetched next, how many requests and
  connections there are, what becomes of requests given up, of blocks nobody asked for, and of
  pieces whose hash is wrong.
\<close>

section \<open>Choosing a piece\<close>

abbreviation partial_piece :: "downloader \<Rightarrow> nat \<Rightarrow> bool" where
  "partial_piece dl i \<equiv> \<not> dl_completed dl ! i \<and> ps_count (dl_pieces dl ! i) \<noteq> 0"

lemma best_partial_spec:
  "(case best_partial dl xs b s of
      None \<Rightarrow> b = None \<and> (\<forall>i \<in> set xs. partial_piece dl i \<longrightarrow> piece_score dl i \<le> s)
    | Some p \<Rightarrow> (b = Some p \<and> (\<forall>i \<in> set xs. partial_piece dl i \<longrightarrow> piece_score dl i \<le> s)) \<or>
        (p \<in> set xs \<and> partial_piece dl p \<and> s < piece_score dl p \<and>
         (\<forall>i \<in> set xs. partial_piece dl i \<longrightarrow> piece_score dl i \<le> piece_score dl p)))"
proof (induction xs arbitrary: b s)
  case Nil
  then show ?case by (cases b) auto
next
  case (Cons i xs)
  show ?case
  proof (cases "partial_piece dl i \<and> s < piece_score dl i")
    case True
    with Cons.IH [of "Some i" "piece_score dl i"] show ?thesis
      by (auto simp: Let_def split: option.splits)
  next
    case False
    with Cons.IH [of b s] show ?thesis
      by (auto simp: Let_def split: option.splits)
  qed
qed

lemma rarest_spec:
  "(case rarest dl xs b m of
      None \<Rightarrow> b = None \<and> (\<forall>i \<in> set xs. \<not> dl_completed dl ! i \<longrightarrow> m \<le> peer_count dl i)
    | Some p \<Rightarrow> (b = Some p \<and> (\<forall>i \<in> set xs. \<not> dl_completed dl ! i \<longrightarrow> m \<le> peer_count dl i)) \<or>
        (p \<in> set xs \<and> \<not> dl_completed dl ! p \<and> peer_count dl p < m \<and>
         (\<forall>i \<in> set xs. \<not> dl_completed dl ! i \<longrightarrow> peer_count dl p \<le> peer_count dl i)))"
proof (induction xs arbitrary: b m)
  case Nil
  then show ?case by (cases b) auto
next
  case (Cons i xs)
  show ?case
  proof (cases "\<not> dl_completed dl ! i \<and> peer_count dl i < m")
    case True
    with Cons.IH [of "Some i" "peer_count dl i"] show ?thesis by (auto split: option.splits)
  next
    case False
    with Cons.IH [of b m] show ?thesis by (auto split: option.splits)
  qed
qed

lemma piece_score_nonneg:
  assumes "books dl" "i < numPieces (dl_torrent dl)"
  shows "0 \<le> piece_score dl i"
proof -
  have "0 \<le> ps_count (dl_pieces dl ! i)" "0 < ps_total (dl_pieces dl ! i)"
    using booksD(4) [OF assms] blocks_bounds(1) [OF booksD(1) [OF assms(1)] assms(2)]
    by (auto simp: piece_ok_def)
  then have "0 \<le> ps_count (dl_pieces dl ! i) * 1000 div ps_total (dl_pieces dl ! i)"
    by (simp add: pos_imp_zdiv_nonneg_iff)
  moreover have "0 \<le> 1000 div peer_count dl i" by (simp add: peer_count_def div_int_pos_iff)
  ultimately show ?thesis
    using \<open>0 \<le> ps_count (dl_pieces dl ! i)\<close> \<open>0 < ps_total (dl_pieces dl ! i)\<close>
    by (simp add: piece_score_def Let_def)
qed

text \<open>
  The best partial piece first; with none, the piece fewest connected peers have. The second
  loop compares with \<open>INT32_MAX\<close>, so there must be fewer peers than that.
\<close>

lemma selectNextPiece_spec:
  assumes "books dl" "int (length (dl_peers dl)) < 2 ^ 31 - 1"
  shows "case selectNextPiece dl of
      None \<Rightarrow> \<forall>i < numPieces (dl_torrent dl). dl_completed dl ! i
    | Some p \<Rightarrow> p < numPieces (dl_torrent dl) \<and> \<not> dl_completed dl ! p \<and>
        (if \<exists>i < numPieces (dl_torrent dl). partial_piece dl i
         then partial_piece dl p \<and>
           (\<forall>i < numPieces (dl_torrent dl). partial_piece dl i \<longrightarrow> piece_score dl i \<le> piece_score dl p)
         else \<forall>i < numPieces (dl_torrent dl). \<not> dl_completed dl ! i \<longrightarrow> peer_count dl p \<le> peer_count dl i)"
proof -
  let ?n = "numPieces (dl_torrent dl)"
  have nn: "\<not> piece_score dl i \<le> - 1" if "i < ?n" for i using piece_score_nonneg [OF assms(1) that] by simp
  have pc: "\<not> 2 ^ 31 - 1 \<le> peer_count dl i" for i
    using assms(2) length_filter_le [of "\<lambda>(_, c). pc_connected c \<and> \<not> dl_completed dl ! i \<and> hasPiece c i" "dl_peers dl"]
    unfolding peer_count_def by linarith
  show ?thesis
  proof (cases "best_partial dl [0..<?n] None (- 1)")
    case (Some p)
    with best_partial_spec [where xs = "[0..<?n]" and dl = dl and b = None and s = "- 1"] show ?thesis
      by (auto simp: selectNextPiece_def Let_def)
  next
    case None
    with best_partial_spec [where xs = "[0..<?n]" and dl = dl and b = None and s = "- 1"] nn have "\<forall>i < ?n. \<not> partial_piece dl i" by auto
    with None rarest_spec [where xs = "[0..<?n]" and dl = dl and b = None and m = "2 ^ 31 - 1"] pc show ?thesis
      by (auto simp: selectNextPiece_def Let_def split: option.splits)
  qed
qed

text \<open>
  When an incomplete piece is at no connected peer, rarest-first picks such a piece, and every
  peer is asked for the first piece it has instead.
\<close>

lemma peer_count_zero:
  assumes "peer_count dl p = 0" "(pid, c) \<in> set (dl_peers dl)" "pc_connected c" "\<not> dl_completed dl ! p"
  shows "\<not> hasPiece c p"
  using assms by (auto simp: peer_count_def filter_empty_conv)

lemma rarest_unavailable:
  assumes "books dl" "int (length (dl_peers dl)) < 2 ^ 31 - 1"
    "\<forall>i < numPieces (dl_torrent dl). \<not> partial_piece dl i"
    "q < numPieces (dl_torrent dl)" "\<not> dl_completed dl ! q" "peer_count dl q = 0"
    "(pid, c) \<in> set (dl_peers dl)" "pc_connected c"
  shows "\<exists>p < numPieces (dl_torrent dl). selectNextPiece dl = Some p \<and> \<not> dl_completed dl ! p \<and> peer_count dl p = 0 \<and>
    chosen_piece dl c = hd (needed_pieces dl c)"
proof (cases "selectNextPiece dl")
  case None
  with selectNextPiece_spec [OF assms(1,2)] assms(4,5) show ?thesis by auto
next
  case (Some p)
  from selectNextPiece_spec [OF assms(1,2)] Some assms(3-6)
  have p: "p < numPieces (dl_torrent dl)" "\<not> dl_completed dl ! p" "peer_count dl p \<le> 0" by (auto split: if_splits)
  moreover have "0 \<le> peer_count dl p" by (simp add: peer_count_def)
  ultimately have z: "peer_count dl p = 0" by simp
  then have "\<not> hasPiece c p" using p(2) assms(7,8) by (intro peer_count_zero) auto
  with Some z p show ?thesis by (simp add: chosen_piece_def)
qed

section \<open>Limits\<close>

lemma requests_of_append:
  "requests_of (dl\<lparr>dl_pending := dl_pending dl @ [r]\<rparr>) q = requests_of dl q + (if rq_peer r = q then 1 else 0)"
  by (simp add: requests_of_def)

lemma requests_of_cong: "dl_pending dl' = dl_pending dl \<Longrightarrow> requests_of dl' q = requests_of dl q"
  by (simp add: requests_of_def)

lemma request_loop_limit:
  "n = requests_of dl pid \<Longrightarrow> n \<le> op_maxRequests (dl_options dl) \<Longrightarrow>
   requests_of (request_loop now pid p is n dl) pid \<le> op_maxRequests (dl_options dl) \<and>
   (\<forall>q. q \<noteq> pid \<longrightarrow> requests_of (request_loop now pid p is n dl) q = requests_of dl q) \<and>
   dl_options (request_loop now pid p is n dl) = dl_options dl"
proof (induction "is" arbitrary: n dl)
  case (Cons i "is")
  show ?case
  proof (cases "conn_of dl pid")
    case None
    with Cons show ?thesis by (simp add: Let_def)
  next
    case (Some c)
    obtain ok c' where s: "sendRequest (of_nat p) (of_nat (block_offset i))
        (of_nat (block_length (dl_torrent dl) p i)) c = (ok, c')"
      by (metis surj_pair)
    let ?d = "(upd_piece p (\<lambda>st. st\<lparr>ps_requested := (ps_requested st)[i := True]\<rparr>) (set_conn pid c' dl))
        \<lparr>dl_pending := dl_pending dl @ [\<lparr>rq_piece = p, rq_offset = block_offset i,
           rq_length = block_length (dl_torrent dl) p i, rq_peer = pid, rq_time = now\<rparr>]\<rparr>"
    have d: "requests_of ?d q = requests_of dl q + (if pid = q then 1 else 0)"
      "dl_options ?d = dl_options dl" for q
      by (simp_all add: requests_of_def) (simp_all add: set_conn_def)
    have "requests_of (set_conn pid c' dl) q = requests_of dl q" "dl_options (set_conn pid c' dl) = dl_options dl" for q
      by (simp_all add: set_conn_def requests_of_def)
    then show ?thesis using Cons.prems Cons.IH [of n dl] Cons.IH [of "n + 1" ?d] d
      by (cases ok) (auto simp: Let_def Some s)
  qed
qed simp

lemma requestBlocksFromPeer_limit:
  assumes "\<forall>q. requests_of dl q \<le> op_maxRequests (dl_options dl)"
  shows "(\<forall>q. requests_of (requestBlocksFromPeer now pid dl) q \<le> op_maxRequests (dl_options dl)) \<and>
    dl_options (requestBlocksFromPeer now pid dl) = dl_options dl"
proof -
  have "(\<forall>q. requests_of (request_loop now pid p is (requests_of dl pid) dl) q \<le> op_maxRequests (dl_options dl)) \<and>
    dl_options (request_loop now pid p is (requests_of dl pid) dl) = dl_options dl" for p "is"
    using request_loop_limit [of "requests_of dl pid" dl pid now p "is"] assms by metis
  with assms show ?thesis by (auto simp: requestBlocksFromPeer_def Let_def split: option.splits)
qed

lemma request_peers_limit:
  "\<forall>q. requests_of dl q \<le> op_maxRequests (dl_options dl) \<Longrightarrow>
   (\<forall>q. requests_of (request_peers now n pids dl) q \<le> op_maxRequests (dl_options dl)) \<and>
   dl_options (request_peers now n pids dl) = dl_options dl"
proof (induction pids arbitrary: dl)
  case (Cons pid pids)
  from requestBlocksFromPeer_limit [OF Cons.prems, of now pid] Cons.IH [of "requestBlocksFromPeer now pid dl"]
    Cons.IH [OF Cons.prems]
  show ?case by auto
qed simp

lemma requestPieces_limit:
  "\<forall>q. requests_of dl q \<le> op_maxRequests (dl_options dl) \<Longrightarrow>
   requests_of (requestPieces now dl) q \<le> op_maxRequests (dl_options dl)"
  unfolding requestPieces_def Let_def by (simp add: request_peers_limit)

section \<open>Requests given up\<close>

lemma release_pending [simp]: "dl_pending (release r dl) = dl_pending dl"
  by (simp add: release_def Let_def)

lemma fold_pending:
  "(\<And>r d. dl_pending (f r d) = dl_pending d) \<Longrightarrow> dl_pending (fold f rs dl) = dl_pending dl"
  by (induction rs arbitrary: dl) auto

lemma cancelRequestsForPeer_pending:
  "dl_pending (cancelRequestsForPeer pid dl) = filter (\<lambda>r. rq_peer r \<noteq> pid) (dl_pending dl)"
  unfolding cancelRequestsForPeer_def Let_def by (subst fold_pending) (simp_all add: drop_requests_def)

lemma cleanup_pending:
  "dl_pending (cleanupTimedOutRequests now dl) = filter (\<lambda>r. \<not> timed_out now r) (dl_pending dl)"
  unfolding cleanupTimedOutRequests_def by (subst fold_pending) (simp_all add: drop_requests_def)

text \<open>The block of a released request may be requested again.\<close>

lemma released_flag:
  assumes "request_ok (dl_torrent dl) r" "piece_ok (dl_torrent dl) (rq_piece r) (dl_pieces dl ! rq_piece r)"
    "rq_piece r < length (dl_pieces dl)"
  shows "\<not> ps_requested (dl_pieces (release r dl) ! rq_piece r) ! (rq_offset r div block_size)"
proof -
  from assms(1) obtain b where "b < blocks_of (dl_torrent dl) (rq_piece r)" "rq_offset r = b * 16384"
    by (auto simp: request_ok_def)
  with assms(2,3) show ?thesis by (simp add: release_def Let_def upd_piece_def block_size_def piece_ok_def
      zless_nat_eq_int_zless)
qed

section \<open>Blocks and pieces that are refused\<close>

lemma unsolicited_block:
  assumes "\<forall>r \<in> set (dl_pending dl). rq_peer r = pid \<longrightarrow>
    \<not> (rq_piece r = unat (bytesToInt_raw (take 4 payload)) \<and>
       rq_offset r = unat (bytesToInt_raw (take 4 (drop 4 payload))))"
  shows "handle_block SHA1 now pid payload dl = dl"
proof -
  have "find (\<lambda>r. rq_piece r = unat (bytesToInt_raw (take 4 payload)) \<and>
      rq_offset r = unat (bytesToInt_raw (take 4 (drop 4 payload))) \<and> rq_peer r = pid) (dl_pending dl) = None"
    using assms by (auto simp: find_None_iff)
  then show ?thesis by (simp add: handle_block_def Let_def)
qed

text \<open>A piece whose hash is wrong loses its blocks, its requests and its bytes.\<close>

lemma finish_piece_refused:
  assumes "\<not> verifyPiece SHA1 dl p" "p < length (dl_pieces dl)"
  shows "ps_count (dl_pieces (finish_piece SHA1 p dl) ! p) = 0"
    "True \<notin> set (ps_received (dl_pieces (finish_piece SHA1 p dl) ! p))"
    "True \<notin> set (ps_requested (dl_pieces (finish_piece SHA1 p dl) ! p))"
    "\<forall>r \<in> set (dl_pending (finish_piece SHA1 p dl)). rq_piece r \<noteq> p"
    "dl_completed (finish_piece SHA1 p dl) = dl_completed dl"
    "dl_downloaded (finish_piece SHA1 p dl) = max 0 (dl_downloaded dl - pieceSize (dl_torrent dl) p)"
    "q \<noteq> p \<Longrightarrow> dl_pieces (finish_piece SHA1 p dl) ! q = dl_pieces dl ! q"
    "length (dl_pieces (finish_piece SHA1 p dl)) = length (dl_pieces dl)"
    "dl_pending (finish_piece SHA1 p dl) = filter (\<lambda>r. rq_piece r \<noteq> p) (dl_pending dl)"
    "dl_completedCount (finish_piece SHA1 p dl) = dl_completedCount dl"
    "dl_fs (finish_piece SHA1 p dl) = dl_fs dl"
  using assms by (auto simp: finish_piece_def drop_requests_def upd_piece_def)

section \<open>Rejected peers\<close>

lemma rejected_for_a_while:
  "fst (isPeerRejected now ip port (rejectPeer since ip port dl)) \<longleftrightarrow>
     tdiv (now - since) 1000000000 \<le> reject_cooldown"
  by (auto simp: isPeerRejected_def rejectPeer_def Let_def)

lemma rejected_not_added:
  "fst (isPeerRejected now (pr_ip p) (pr_port p) dl) \<Longrightarrow> addPeers now [p] dl = dl"
proof -
  assume "fst (isPeerRejected now (pr_ip p) (pr_port p) dl)"
  then have "isPeerRejected now (pr_ip p) (pr_port p) dl = (True, dl)"
    by (auto simp: isPeerRejected_def Let_def split: option.splits if_splits)
  then show ?thesis by simp
qed

end
