(* ===== verification/Robustness.thy ===== *)
theory Robustness
  imports Policy
begin

text \<open>
  No exception leaves the download thread, where it would abort the program; and the fuel of
  the message loop of \<open>Downloader\<close> is enough.
\<close>

section \<open>Exceptions\<close>

lemma obind_eq_Throw [simp]: "obind m f = Throw e \<longleftrightarrow> m = Throw e \<or> (\<exists>a. m = Ok a \<and> f a = Throw e)"
  by (cases m) auto

lemma apply_message_no_throw [simp]: "apply_message m c \<noteq> Throw e"
  by (auto simp: apply_message_def processExtendedMessage_def Let_def
      split: message_id.splits if_splits outcome.splits bval.splits)

lemma read_body_no_throw [simp]: "read_body c m \<noteq> Throw e"
  by (auto simp: read_body_def Let_def split: if_splits prod.splits bool.splits)

lemma receiveMessageNonBlocking_no_throw [simp]: "receiveMessageNonBlocking c m \<noteq> Throw e"
  by (auto simp: receiveMessageNonBlocking_def Let_def split: if_splits prod.splits bool.splits)

lemma message_loop_no_throw [simp]: "message_loop SHA1 now pid f m dl \<noteq> Throw e"
proof (induction f arbitrary: m dl)
  case (Suc f)
  then show ?case by (auto simp: Let_def split: option.splits)
qed simp

lemma process_peer_no_throw [simp]: "process_peer SHA1 now a pid dl \<noteq> Throw e"
  by (auto simp: process_peer_def Let_def simp del: message_loop.simps split: option.splits prod.splits)

lemma process_peers_no_throw [simp]: "process_peers SHA1 now a pids pex dl \<noteq> Throw e"
  by (induction pids arbitrary: pex dl) (auto split: prod.splits)

lemma turn_work_no_throw [simp]: "turn_work SHA1 env dl \<noteq> Throw e"
  by (auto simp: turn_work_def processPeerMessages_def Let_def)

lemma contactTracker_no_throw [simp]: "contactTracker env url t pid d u r ev \<noteq> Throw e"
  by (auto simp: contactTracker_def contactHttpTracker_def parse_tracker_body_def Let_def
      split: curl_result.splits outcome.splits bval.splits)

lemma contact_loop_no_throw:
  "(\<And>n url. ask n url \<noteq> Throw e) \<Longrightarrow> contact_loop clk ask m urls n l tm asked \<noteq> Throw e"
  by (induction urls arbitrary: n l tm asked) (auto simp: Let_def)

lemma contact_trackers_no_throw [simp]: "contact_trackers clk env ev dl \<noteq> Throw e"
  by (auto simp: contact_trackers_def tm_contact_def contact_loop_no_throw)

lemma await_reply_no_throw [simp]: "await_reply node tr ds \<noteq> Throw e"
  by (induction ds) (auto split: outcome.splits)

lemma dht_loop_no_throw [simp]: "dht_loop net opts h n s \<noteq> Throw e"
proof (induction net opts h n s rule: dht_loop.induct)
  case (1 net opts h n s)
  then show ?case
    by (subst dht_loop.simps) (auto simp: Let_def queryNode_def split: outcome.splits option.splits if_splits)
qed

lemma discoverDhtPeers_no_throw [simp]: "discoverDhtPeers net h b opts \<noteq> Throw e"
  by (auto simp: discoverDhtPeers_def discoverDhtSearch_def Let_def simp del: dht_loop.simps split: prod.splits)

lemma turn_trackers_no_throw [simp]: "turn_trackers env lv dl \<noteq> Throw e"
  by (auto simp: turn_trackers_def Let_def)

lemma download_turns_no_throw [simp]: "download_turns SHA1 envs lv dl \<noteq> Throw e"
  by (induction envs arbitrary: lv dl) (auto split: prod.splits if_splits)

lemma loop_start_no_throw [simp]: "loop_start env dl \<noteq> Throw e"
  by (auto simp: loop_start_def Let_def)

lemma announce_stopped_no_throw [simp]: "announce_stopped env us dl \<noteq> Throw e"
  by (induction us) auto

lemma downloadLoop_no_throw: "downloadLoop SHA1 env dl \<noteq> Throw e"
  by (auto simp: downloadLoop_def split: prod.splits option.splits)

section \<open>The fuel of the message loop\<close>

lemma apply_message_weight: "apply_message m c = Ok c' \<Longrightarrow> conn_weight c' = conn_weight c"
  using apply_message_keeps [of m c c'] by (simp add: conn_weight_def)

lemma read_body_weight: "read_body c m = Ok (ok, c', m') \<Longrightarrow> conn_weight c' \<le> conn_weight c"
  by (auto simp: read_body_def Let_def split: if_splits prod.splits bool.splits
      dest!: conn_recv_weight apply_message_weight)

lemma receive_weight:
  "receiveMessageNonBlocking c m = Ok (True, c', m') \<Longrightarrow> conn_weight c' + 4 \<le> conn_weight c"
  by (auto simp: receiveMessageNonBlocking_def Let_def split: if_splits prod.splits bool.splits
      dest!: conn_recv_weight read_body_weight)

lemma sendCancel_weight: "conn_weight (snd (sendCancel p off len c)) \<le> conn_weight c"
proof (cases "pc_sock c")
  case None
  then show ?thesis
    by (auto simp: sendCancel_def sendMessage_def conn_send_def conn_weight_def disconnect_def split: bool.splits)
next
  case (Some s)
  then show ?thesis
    by (auto simp: sendCancel_def sendMessage_def conn_send_def conn_weight_def disconnect_def
        split: prod.splits bool.splits dest!: sndI [of "sendAll _ _"])
qed

definition weight_of :: "downloader \<Rightarrow> nat \<Rightarrow> nat" where
  "weight_of dl pid = (case conn_of dl pid of None \<Rightarrow> 0 | Some c \<Rightarrow> conn_weight c)"

lemma conn_of_set_conn: "conn_of (set_conn q c dl) pid = (if q = pid then map_option (\<lambda>_. c) (conn_of dl pid) else conn_of dl pid)"
proof -
  have "map_of (map (\<lambda>(i, d). (i, if i = q then c else d)) xs) pid =
      (if q = pid then map_option (\<lambda>_. c) (map_of xs pid) else map_of xs pid)" for xs
    by (induction xs) auto
  then show ?thesis by (simp add: conn_of_def set_conn_def)
qed

lemma weight_send_cancel: "weight_of (send_cancel r dl) pid \<le> weight_of dl pid"
  using sendCancel_weight
  by (auto simp: send_cancel_def weight_of_def conn_of_set_conn split: option.splits)

lemma weight_same: "dl_peers dl' = dl_peers dl \<Longrightarrow> weight_of dl' pid = weight_of dl pid"
  by (simp add: weight_of_def conn_of_def)

lemma weight_fold:
  "(\<And>r d. weight_of (f r d) pid \<le> weight_of d pid) \<Longrightarrow> weight_of (fold f rs dl) pid \<le> weight_of dl pid"
proof (induction rs arbitrary: dl)
  case (Cons r rs)
  from Cons.IH [OF Cons.prems, of "f r dl"] Cons.prems [of r dl] show ?case by simp
qed simp

lemma peers_same [simp]:
  "dl_peers (release r dl) = dl_peers dl" "dl_peers (upd_stats pid f dl) = dl_peers dl"
  "dl_peers (drop_requests gone dl) = dl_peers dl" "dl_peers (finish_piece SHA1 p dl) = dl_peers dl"
  "dl_peers (writePiece p off data dl) = dl_peers dl"
  by (simp_all add: release_def upd_stats_def drop_requests_def finish_piece_def writePiece_def Let_def)

lemma peers_accept_block: "dl_peers (accept_block SHA1 now pid p off data dl) = dl_peers dl"
  by (simp add: accept_block_def Let_def)

lemma weight_cancelDuplicates: "weight_of (cancelDuplicateRequests p off keep dl) pid \<le> weight_of dl pid"
proof -
  let ?gone = "\<lambda>r. rq_piece r = p \<and> rq_offset r = off \<and> rq_peer r \<noteq> keep"
  have "weight_of (cancelDuplicateRequests p off keep dl) pid \<le> weight_of (drop_requests ?gone dl) pid"
    unfolding cancelDuplicateRequests_def Let_def
    by (rule weight_fold) (simp add: weight_send_cancel weight_same [of "release _ _"])
  then show ?thesis by (simp add: weight_same [of "drop_requests _ _"])
qed

lemma weight_cancelRequests: "weight_of (cancelRequestsForPeer q dl) pid \<le> weight_of dl pid"
proof -
  have "weight_of (cancelRequestsForPeer q dl) pid \<le> weight_of (drop_requests (\<lambda>r. rq_peer r = q) dl) pid"
    unfolding cancelRequestsForPeer_def Let_def
    by (rule weight_fold) (simp add: weight_same [of "release _ _"])
  then show ?thesis by (simp add: weight_same [of "drop_requests _ _"])
qed

lemma weight_handle_message: "weight_of (handle_message SHA1 now q m dl) pid \<le> weight_of dl pid"
proof -
  have taken: "weight_of (cancelDuplicateRequests p off q (accept_block SHA1 now q p off d (dl\<lparr>dl_pending := rs\<rparr>))) pid
      \<le> weight_of dl pid" for p off d rs
  proof -
    have "weight_of (accept_block SHA1 now q p off d (dl\<lparr>dl_pending := rs\<rparr>)) pid = weight_of dl pid"
      by (rule weight_same) (simp add: peers_accept_block)
    with weight_cancelDuplicates show ?thesis by metis
  qed
  have refused: "weight_of (upd_stats q f (release r (dl\<lparr>dl_pending := rs\<rparr>))) pid = weight_of dl pid"
    "weight_of (upd_stats q f (dl\<lparr>dl_pending := rs\<rparr>)) pid = weight_of dl pid" for f r rs
    by (rule weight_same, simp)+
  have "weight_of (handle_block SHA1 now q d dl) pid \<le> weight_of dl pid" for d
    using taken refused by (auto simp: handle_block_def Let_def split: option.splits)
  then show ?thesis using weight_cancelRequests
    by (cases "pm_id m") (simp_all add: handle_message_def weight_same [of "upd_stats _ _ _"])
qed

text \<open>Any two amounts of fuel above the weight of the peer's socket give the same result.\<close>

lemma message_loop_fuel:
  "weight_of dl pid < f \<Longrightarrow> weight_of dl pid < g \<Longrightarrow>
   message_loop SHA1 now pid f m dl = message_loop SHA1 now pid g m dl"
proof (induction f arbitrary: g m dl)
  case (Suc f)
  then obtain g' where g: "g = Suc g'" by (cases g) auto
  show ?case
  proof (cases "conn_of dl pid")
    case None
    then show ?thesis by (simp add: g)
  next
    case (Some c)
    have "message_loop SHA1 now pid f m' (handle_message SHA1 now pid m' (set_conn pid c' dl)) =
        message_loop SHA1 now pid g' m' (handle_message SHA1 now pid m' (set_conn pid c' dl))"
      if "receiveMessageNonBlocking c m = Ok (True, c', m')" for c' m'
    proof -
      have "weight_of (set_conn pid c' dl) pid = conn_weight c'" "weight_of dl pid = conn_weight c"
        using Some by (simp_all add: weight_of_def conn_of_set_conn)
      with receive_weight [OF that] weight_handle_message [of SHA1 now pid m' "set_conn pid c' dl" pid] Suc.prems
      show ?thesis by (intro Suc.IH) (simp_all add: g)
    qed
    then show ?thesis
      by (cases "receiveMessageNonBlocking c m") (auto simp: g Some Let_def split: prod.splits)
  qed
qed simp

text \<open>
  The loop without fuel, as a big-step relation: a derivation is a run of the loop that ends. Its
  result is \<open>Hang\<close> only if a single receive does not return.
\<close>

inductive loop_runs :: "(bytes \<Rightarrow> bytes) \<Rightarrow> int \<Rightarrow> nat \<Rightarrow> peer_message \<Rightarrow> downloader \<Rightarrow>
    (berror, downloader) outcome \<Rightarrow> bool" for SHA1 now pid where
  gone: "conn_of dl pid = None \<Longrightarrow> loop_runs SHA1 now pid m dl (Ok dl)"
| drained: "conn_of dl pid = Some c \<Longrightarrow> receiveMessageNonBlocking c m = Ok (False, c', m') \<Longrightarrow>
    loop_runs SHA1 now pid m dl (Ok (set_conn pid c' dl))"
| thrown: "conn_of dl pid = Some c \<Longrightarrow> receiveMessageNonBlocking c m = Throw e \<Longrightarrow>
    loop_runs SHA1 now pid m dl (Throw e)"
| stuck: "conn_of dl pid = Some c \<Longrightarrow> receiveMessageNonBlocking c m = Hang \<Longrightarrow> loop_runs SHA1 now pid m dl Hang"
| again: "conn_of dl pid = Some c \<Longrightarrow> receiveMessageNonBlocking c m = Ok (True, c', m') \<Longrightarrow>
    loop_runs SHA1 now pid m' (handle_message SHA1 now pid m' (set_conn pid c' dl)) r \<Longrightarrow>
    loop_runs SHA1 now pid m dl r"

text \<open>One turn of the loop: a message has come and is handled.\<close>

inductive loop_turn :: "(bytes \<Rightarrow> bytes) \<Rightarrow> int \<Rightarrow> nat \<Rightarrow> peer_message \<times> downloader \<Rightarrow> peer_message \<times> downloader \<Rightarrow> bool"
  for SHA1 now pid where
  turn: "conn_of dl pid = Some c \<Longrightarrow> receiveMessageNonBlocking c m = Ok (True, c', m') \<Longrightarrow>
    loop_turn SHA1 now pid (m, dl) (m', handle_message SHA1 now pid m' (set_conn pid c' dl))"

lemma loop_runs_Hang:
  "loop_runs SHA1 now pid m dl r \<Longrightarrow> r = Hang \<Longrightarrow>
   \<exists>m' dl' c. (loop_turn SHA1 now pid)\<^sup>*\<^sup>* (m, dl) (m', dl') \<and> conn_of dl' pid = Some c \<and>
     receiveMessageNonBlocking c m' = Hang"
proof (induction rule: loop_runs.induct)
  case (again dl c m c' m' r)
  from turn [OF again.hyps(1,2)] again.IH [OF again.prems] show ?case
    by (blast intro: converse_rtranclp_into_rtranclp)
qed blast+

text \<open>A message takes something from the socket.\<close>

lemma weight_again:
  assumes "conn_of dl pid = Some c" "receiveMessageNonBlocking c m = Ok (True, c', m')"
  shows "weight_of (handle_message SHA1 now pid m' (set_conn pid c' dl)) pid < weight_of dl pid"
proof -
  have "weight_of (set_conn pid c' dl) pid = conn_weight c'" "weight_of dl pid = conn_weight c"
    using assms(1) by (simp_all add: weight_of_def conn_of_set_conn)
  with receive_weight [OF assms(2)] weight_handle_message [of SHA1 now pid m' "set_conn pid c' dl" pid]
  show ?thesis by simp
qed

lemma message_loop_runs:
  "weight_of dl pid < f \<Longrightarrow> loop_runs SHA1 now pid m dl (message_loop SHA1 now pid f m dl)"
proof (induction f arbitrary: m dl)
  case (Suc f)
  show ?case
  proof (cases "conn_of dl pid")
    case None
    then show ?thesis by (simp add: gone)
  next
    case (Some c)
    show ?thesis
    proof (cases "receiveMessageNonBlocking c m")
      case (Ok r)
      obtain ok c' m' where r: "r = (ok, c', m')" by (cases r)
      show ?thesis
      proof (cases ok)
        case True
        with Ok r have m: "receiveMessageNonBlocking c m = Ok (True, c', m')" by simp
        have "weight_of (handle_message SHA1 now pid m' (set_conn pid c' dl)) pid < f"
          using weight_again [OF Some m, of SHA1 now] Suc.prems by linarith
        from again [OF Some m Suc.IH [OF this]] show ?thesis by (simp add: Some m Let_def)
      qed (use drained [OF Some] Ok r in \<open>simp add: Some Let_def\<close>)
    qed (use thrown [OF Some] stuck [OF Some] in \<open>simp_all add: Some\<close>)
  qed
qed simp

lemma loop_runs_unique: "loop_runs SHA1 now pid m dl r \<Longrightarrow> loop_runs SHA1 now pid m dl r' \<Longrightarrow> r' = r"
  by (induction rule: loop_runs.induct) (erule loop_runs.cases, simp_all)+

lemma message_loop_iff:
  "weight_of dl pid < f \<Longrightarrow> loop_runs SHA1 now pid m dl r \<longleftrightarrow> message_loop SHA1 now pid f m dl = r"
  using message_loop_runs loop_runs_unique by blast

text \<open>\<open>process_peer\<close> gives the loop enough fuel.\<close>

lemma process_peer_runs:
  assumes "conn_of dl pid = Some c" "pc_connected c"
  shows "\<exists>r. loop_runs SHA1 now pid no_message (set_conn pid (arrive arrived c) dl) r \<and>
    process_peer SHA1 now arrived pid dl = obind r (\<lambda>dl1. case conn_of dl1 pid of
      None \<Rightarrow> Ok ([], dl1)
    | Some c2 \<Rightarrow> (case takeDiscoveredPeers c2 of (ps, c3) \<Rightarrow> Ok (ps, set_conn pid c3 dl1)))"
proof -
  let ?dl0 = "set_conn pid (arrive arrived c) dl"
  have "weight_of ?dl0 pid < Suc (conn_weight (arrive arrived c))"
    using assms(1) by (simp add: weight_of_def conn_of_set_conn)
  from message_loop_runs [OF this] assms show ?thesis
    by (intro exI [of _ "message_loop SHA1 now pid (Suc (conn_weight (arrive arrived c))) no_message ?dl0"])
       (simp add: process_peer_def Let_def del: message_loop.simps)
qed

end
