(* ===== verification/Magnet.thy ===== *)
theory Magnet
  imports Utils
begin

unbundle bit_operations_syntax

text \<open>
  Models \<open>src/magnet.cpp\<close>: percent decoding, the two info hash notations, parsing and
  generating magnet links. The main results: decoding undoes \<open>urlEncode\<close>, base32 decoding
  regroups the bits of its input, and a generated link parses back to its parts.
\<close>

section \<open>Percent decoding\<close>

text \<open>
  \<open>std::istringstream >> std::hex >> int\<close> on the two characters after a percent sign: white
  space and a sign are skipped, the longest run of hexadecimal digits is read, and a bare
  \<open>0x\<close> fails. The value becomes a \<open>char\<close>, so it counts modulo 256.
\<close>

definition scan_hex :: "string \<Rightarrow> nat option" where
  "scan_hex t =
     (case strip_sign (dropWhile is_space t) of (neg, u) \<Rightarrow>
        let ds = takeWhile is_xdigit u;
            v = foldl (\<lambda>a c. 16 * a + hex_val c) 0 ds in
        if ds = [] \<or> take 2 u = ''0x'' \<or> take 2 u = ''0X'' then None
        else Some (if neg then (256 - v mod 256) mod 256 else v mod 256))"

fun urlDecode :: "string \<Rightarrow> string" where
  "urlDecode [] = []"
| "urlDecode (c # cs) =
     (if c = CHR ''%'' \<and> 2 \<le> length cs then
        (case scan_hex (take 2 cs) of
           Some v \<Rightarrow> char_of v # urlDecode (drop 2 cs)
         | None \<Rightarrow> urlDecode cs)
      else if c = CHR ''+'' then CHR '' '' # urlDecode cs
      else c # urlDecode cs)"

lemma scan_hex_xdigits:
  assumes "is_xdigit a" "is_xdigit b"
  shows "scan_hex [a, b] = Some (16 * hex_val a + hex_val b)"
proof -
  have s: "\<not> is_space a" "a \<noteq> CHR ''-''" "a \<noteq> CHR ''+''"
    using xdigit_plain [OF assms(1)] by auto
  have x: "b \<noteq> CHR ''x''" "b \<noteq> CHR ''X''"
    using assms(2) by (auto simp: is_xdigit_def is_digit_def)
  have "hex_val a < 16" "hex_val b < 16"
    using assms by (auto simp: is_xdigit_def is_digit_def hex_val_def)
  then show ?thesis using assms s x by (simp add: scan_hex_def strip_sign_def)
qed

lemma urlDecode_plain: "CHR ''%'' \<notin> set s \<Longrightarrow> CHR ''+'' \<notin> set s \<Longrightarrow> urlDecode s = s"
  by (induction s rule: urlDecode.induct) auto

lemma urlDecode_urlEncode: "urlDecode (urlEncode s) = s"
proof (induction s)
  case (Cons c s)
  show ?case
  proof (cases "is_unreserved c")
    case True
    with Cons unreserved_plain [OF True] show ?thesis by (simp add: urlEncode_Cons)
  next
    case False
    have "scan_hex [HEX_digit (code c div 16), HEX_digit (code c mod 16)] = Some (code c)"
      by (subst scan_hex_xdigits) simp_all
    with Cons False show ?thesis by (simp add: urlEncode_Cons)
  qed
qed simp

section \<open>Info hash notations\<close>

definition isValidHex :: "string \<Rightarrow> bool" where
  "isValidHex s = (length s = 40 \<and> list_all is_xdigit s)"

definition is_base32_char :: "char \<Rightarrow> bool" where
  "is_base32_char c \<longleftrightarrow> (65 \<le> code c \<and> code c \<le> 90) \<or> (50 \<le> code c \<and> code c \<le> 55)"

definition isValidBase32 :: "string \<Rightarrow> bool" where
  "isValidBase32 s = (length s = 32 \<and> list_all is_base32_char s)"

definition hexToRaw :: "string \<Rightarrow> string" where
  "hexToRaw hex = fromHex hex"

text \<open>The decoding table: letters of either case are 0 to 25, the digits 2 to 7 are 26 to 31.\<close>

definition decodeTable :: "char \<Rightarrow> int" where
  "decodeTable c =
     (let n = code c in
      if 65 \<le> n \<and> n \<le> 90 then int n - 65
      else if 97 \<le> n \<and> n \<le> 122 then int n - 97
      else if 50 \<le> n \<and> n \<le> 55 then int n - 24
      else - 1)"

fun base32_loop :: "string \<Rightarrow> 32 word \<Rightarrow> nat \<Rightarrow> string \<Rightarrow> string" where
  "base32_loop [] buffer bitsLeft result = result"
| "base32_loop (c # cs) buffer bitsLeft result =
     (if c = CHR ''='' then result
      else let val = decodeTable c in
        if val < 0 then base32_loop cs buffer bitsLeft result
        else let buffer' = push_bit 5 buffer OR of_int val; bits = bitsLeft + 5 in
          if 8 \<le> bits
          then base32_loop cs buffer' (bits - 8)
                 (result @ [char_of_byte (ucast (drop_bit (bits - 8) buffer' AND 0xFF))])
          else base32_loop cs buffer' bits result)"

definition base32ToRaw :: "string \<Rightarrow> string" where
  "base32ToRaw s = base32_loop s 0 0 []"

text \<open>The bits, most significant first, of a 5-bit symbol and of a byte.\<close>

definition symbol_bits :: "char \<Rightarrow> bool list" where
  "symbol_bits c = map (\<lambda>i. bit (decodeTable c) i) [4, 3, 2, 1, 0]"

definition byte_bits :: "char \<Rightarrow> bool list" where
  "byte_bits c = map (\<lambda>i. bit (code c) i) [7, 6, 5, 4, 3, 2, 1, 0]"

lemma length_symbol_bits [simp]: "length (symbol_bits c) = 5"
  by (simp add: symbol_bits_def)

lemma length_byte_bits [simp]: "length (byte_bits c) = 8"
  by (simp add: byte_bits_def)

lemma decodeTable_base32: "is_base32_char c \<Longrightarrow> 0 \<le> decodeTable c \<and> decodeTable c < 32 \<and> c \<noteq> CHR ''=''"
  by (auto simp: is_base32_char_def decodeTable_def)

text \<open>The bits still waiting in the buffer.\<close>

definition buffer_bits :: "32 word \<Rightarrow> nat \<Rightarrow> bool list" where
  "buffer_bits buffer n = map (bit buffer) (rev [0..<n])"

lemma length_buffer_bits [simp]: "length (buffer_bits b n) = n"
  by (simp add: buffer_bits_def)

lemma nth_buffer_bits: "i < n \<Longrightarrow> buffer_bits b n ! i = bit b (n - 1 - i)"
  by (simp add: buffer_bits_def rev_nth)

lemma bit_small_int: "0 \<le> (v :: int) \<Longrightarrow> v < 32 \<Longrightarrow> 5 \<le> n \<Longrightarrow> \<not> bit v n"
proof -
  assume v: "0 \<le> v" "v < 32" and n: "5 \<le> n"
  have "take_bit 5 v = v" using v by (simp add: take_bit_int_eq_self_iff)
  then show "\<not> bit v n" using n by (metis bit_take_bit_iff not_less)
qed

lemma buffer_bits_push:
  assumes "n \<le> 7" "0 \<le> v" "v < 32"
  shows "buffer_bits (push_bit 5 b OR of_int v) (n + 5) = buffer_bits b n @ map (bit v) [4, 3, 2, 1, 0]"
proof (rule nth_equalityI)
  fix i assume "i < length (buffer_bits (push_bit 5 b OR of_int v) (n + 5))"
  then have i: "i < n + 5" by simp
  have bit_or: "bit (push_bit 5 b OR of_int v :: 32 word) k = (if k < 5 then bit v k else bit b (k - 5))"
    if "k < 32" for k
    using that bit_small_int [OF assms(2,3), of k] by (auto simp: bit_simps)
  show "buffer_bits (push_bit 5 b OR of_int v) (n + 5) ! i
      = (buffer_bits b n @ map (bit v) [4, 3, 2, 1, 0]) ! i"
  proof (cases "i < n")
    case True
    then have "\<not> n + 5 - 1 - i < 5" "n + 5 - 1 - i - 5 = n - 1 - i" by arith+
    then show ?thesis using assms(1) True
      by (simp add: nth_append nth_buffer_bits bit_or del: One_nat_def)
  next
    case False
    then consider "i = n" | "i = n + 1" | "i = n + 2" | "i = n + 3" | "i = n + 4"
      using i by linarith
    then show ?thesis using assms(1)
      by cases (simp_all add: nth_append nth_buffer_bits bit_or)
  qed
qed simp

lemma buffer_bits_emit:
  assumes "8 \<le> n" "n \<le> 12"
  shows "byte_bits (char_of_byte (ucast (drop_bit (n - 8) b AND 0xFF))) = take 8 (buffer_bits b n)"
    and "buffer_bits b (n - 8) = drop 8 (buffer_bits b n)"
proof -
  have e: "byte_bits (char_of_byte (ucast (drop_bit (n - 8) b AND 0xFF)))
      = map (\<lambda>i. bit b (n - 8 + i)) [7, 6, 5, 4, 3, 2, 1, 0]"
    by (simp add: byte_bits_def bit_unsigned_iff bit_simps)
  show "byte_bits (char_of_byte (ucast (drop_bit (n - 8) b AND 0xFF))) = take 8 (buffer_bits b n)"
  proof (unfold e, rule nth_equalityI)
    fix i assume "i < length (map (\<lambda>i. bit b (n - 8 + i)) [7, 6, 5, 4, 3, 2, 1, 0])"
    then have "i \<in> {0, 1, 2, 3, 4, 5, 6, 7}" by auto
    then show "map (\<lambda>i. bit b (n - 8 + i)) [7, 6, 5, 4, 3, 2, 1, 0] ! i = take 8 (buffer_bits b n) ! i"
      using assms(1) by (auto simp: nth_buffer_bits numeral_eq_Suc)
  qed (use assms in simp)
  show "buffer_bits b (n - 8) = drop 8 (buffer_bits b n)"
    by (rule nth_equalityI) (use assms in \<open>simp_all add: nth_buffer_bits\<close>)
qed

lemma base32_loop_bits:
  assumes "list_all is_base32_char s" "n \<le> 7"
  shows "\<exists>pad. length pad = (n + 5 * length s) mod 8 \<and>
     concat (map byte_bits (base32_loop s b n r)) @ pad
       = concat (map byte_bits r) @ buffer_bits b n @ concat (map symbol_bits s)"
  using assms
proof (induction s arbitrary: b n r)
  case Nil
  then show ?case by (intro exI [of _ "buffer_bits b n"]) simp
next
  case (Cons c s)
  have c: "0 \<le> decodeTable c" "decodeTable c < 32" "c \<noteq> CHR ''=''" and s: "list_all is_base32_char s"
    using Cons.prems(1) decodeTable_base32 by auto
  define b' where "b' = push_bit 5 b OR (of_int (decodeTable c) :: 32 word)"
  have p: "buffer_bits b' (n + 5) = buffer_bits b n @ symbol_bits c"
    unfolding b'_def symbol_bits_def using Cons.prems(2) c by (intro buffer_bits_push)
  show ?case
  proof (cases "8 \<le> n + 5")
    case True
    define x where "x = char_of_byte (ucast (drop_bit (n + 5 - 8) b' AND 0xFF))"
    have e: "byte_bits x = take 8 (buffer_bits b' (n + 5))"
      "buffer_bits b' (n + 5 - 8) = drop 8 (buffer_bits b' (n + 5))"
      unfolding x_def using True Cons.prems(2) by (intro buffer_bits_emit; simp)+
    have n7: "n + 5 - 8 \<le> 7" using Cons.prems(2) by simp
    obtain pad where pad: "length pad = (n + 5 - 8 + 5 * length s) mod 8"
      "concat (map byte_bits (base32_loop s b' (n + 5 - 8) (r @ [x]))) @ pad
        = concat (map byte_bits (r @ [x])) @ buffer_bits b' (n + 5 - 8) @ concat (map symbol_bits s)"
      using Cons.IH [OF s n7, of b' "r @ [x]"] by blast
    have "(n + 5 - 8 + 5 * length s) mod 8 = (n + 5 * length (c # s)) mod 8"
      using True by (simp add: mod_simps le_mod_geq algebra_simps)
    moreover have "base32_loop (c # s) b n r = base32_loop s b' (n + 5 - 8) (r @ [x])"
      using c True by (simp add: Let_def b'_def x_def)
    moreover have "concat (map byte_bits (r @ [x])) @ buffer_bits b' (n + 5 - 8)
        = concat (map byte_bits r) @ buffer_bits b n @ symbol_bits c"
      unfolding e(2) p [symmetric] by (simp add: e(1))
    ultimately show ?thesis using pad by (intro exI [of _ pad]) simp
  next
    case False
    then have "base32_loop (c # s) b n r = base32_loop s b' (n + 5) r"
      using c by (simp add: Let_def b'_def)
    moreover obtain pad where "length pad = (n + 5 + 5 * length s) mod 8"
      "concat (map byte_bits (base32_loop s b' (n + 5) r)) @ pad
        = concat (map byte_bits r) @ buffer_bits b' (n + 5) @ concat (map symbol_bits s)"
      using Cons.IH [OF s, of "n + 5" b' r] False by auto
    ultimately show ?thesis by (intro exI [of _ pad]) (simp add: p algebra_simps)
  qed
qed

lemma base32ToRaw_bits:
  assumes "list_all is_base32_char s" "length s mod 8 = 0"
  shows "concat (map byte_bits (base32ToRaw s)) = concat (map symbol_bits s)"
proof -
  obtain pad where pad: "length pad = (0 + 5 * length s) mod 8"
    "concat (map byte_bits (base32_loop s 0 0 [])) @ pad
      = concat (map byte_bits []) @ buffer_bits 0 0 @ concat (map symbol_bits s)"
    using base32_loop_bits [OF assms(1), of 0 0 "[]"] by auto
  have "(5 * length s) mod 8 = 0" using assms(2) by (metis mod_0_imp_dvd dvd_imp_mod_0 dvd_mult)
  with pad show ?thesis by (simp add: base32ToRaw_def buffer_bits_def)
qed

lemma length_concat_const: "\<forall>x \<in> set xs. length (f x) = k \<Longrightarrow> length (concat (map f xs)) = k * length xs"
  by (induction xs) auto

lemma length_base32ToRaw:
  assumes "isValidBase32 s"
  shows "length (base32ToRaw s) = 20"
proof -
  have "length (concat (map byte_bits (base32ToRaw s))) = length (concat (map symbol_bits s))"
    using assms by (subst base32ToRaw_bits) (auto simp: isValidBase32_def)
  then show ?thesis using assms
    by (simp add: length_concat_const [where k = 8] length_concat_const [where k = 5] isValidBase32_def)
qed

section \<open>Magnet links\<close>

record magnet_link =
  mInfoHash :: string
  mInfoHashRaw :: string
  mDisplayName :: string
  mSize :: int
  mExactTopic :: string
  mExactSource :: string
  mTrackers :: "string list"

definition empty_magnet :: magnet_link where
  "empty_magnet = \<lparr>mInfoHash = [], mInfoHashRaw = [], mDisplayName = [], mSize = 0,
     mExactTopic = [], mExactSource = [], mTrackers = []\<rparr>"

definition isValid :: "magnet_link \<Rightarrow> bool" where
  "isValid m = (mInfoHashRaw m \<noteq> [])"

definition magnet_param :: "string \<Rightarrow> string \<Rightarrow> magnet_link \<Rightarrow> magnet_link" where
  "magnet_param name value m =
     (if name = ''xt'' \<and> take 9 value = ''urn:btih:'' then
        (let hash = drop 9 value in
         if isValidHex hash then m\<lparr>mInfoHash := hash, mInfoHashRaw := hexToRaw hash\<rparr>
         else if isValidBase32 hash then
           m\<lparr>mInfoHashRaw := base32ToRaw hash, mInfoHash := toHex (base32ToRaw hash)\<rparr>
         else m)
      else if name = ''dn'' then m\<lparr>mDisplayName := value\<rparr>
      else if name = ''xl'' then
        (case stoll value of Inr n \<Rightarrow> m\<lparr>mSize := n\<rparr> | Inl _ \<Rightarrow> m)
      else if name = ''tr'' then m\<lparr>mTrackers := mTrackers m @ [value]\<rparr>
      else if name = ''xs'' then m\<lparr>mExactSource := value\<rparr>
      else if name = ''xt'' \<and> take 9 value \<noteq> ''urn:btih:'' then m\<lparr>mExactTopic := value\<rparr>
      else m)"

text \<open>The loop over the query; \<open>rest\<close> is the query from \<open>pos\<close> on.\<close>

function magnet_loop :: "string \<Rightarrow> magnet_link \<Rightarrow> magnet_link" where
  "magnet_loop rest m =
     (case dropWhile (\<lambda>c. c \<noteq> CHR ''='') rest of
        [] \<Rightarrow> m
      | _ # after \<Rightarrow>
          (let name = takeWhile (\<lambda>c. c \<noteq> CHR ''='') rest;
               value = urlDecode (takeWhile (\<lambda>c. c \<noteq> CHR ''&'') after);
               m' = magnet_param name value m
           in case dropWhile (\<lambda>c. c \<noteq> CHR ''&'') after of
                [] \<Rightarrow> m'
              | _ # next \<Rightarrow> magnet_loop next m'))"
  by pat_completeness auto
termination
proof (relation "measure (\<lambda>(rest, _). length rest)", simp, clarsimp)
  fix rest after "next" :: string and x y
  assume d: "dropWhile (\<lambda>c. c \<noteq> CHR ''='') rest = x # after"
    "dropWhile (\<lambda>c. c \<noteq> CHR ''&'') after = y # next"
  show "length next < length rest"
    using length_dropWhile_le [of "\<lambda>c. c \<noteq> CHR ''=''" rest]
      length_dropWhile_le [of "\<lambda>c. c \<noteq> CHR ''&''" after] unfolding d by simp
qed

declare magnet_loop.simps [simp del]

definition parseMagnetLink :: "string \<Rightarrow> magnet_link" where
  "parseMagnetLink url =
     (if take 8 url \<noteq> ''magnet:?'' then empty_magnet else magnet_loop (drop 8 url) empty_magnet)"

definition generateMagnetLink :: "string \<Rightarrow> string \<Rightarrow> string list \<Rightarrow> string" where
  "generateMagnetLink raw displayName trackers =
     ''magnet:?xt=urn:btih:'' @ toHex raw @
     (if displayName \<noteq> [] then ''&dn='' @ urlEncode displayName else []) @
     concat (map (\<lambda>t. ''&tr='' @ urlEncode t) trackers)"

text \<open>Parsing a list of \<open>name=value\<close> pairs applies them one after the other.\<close>

definition query_tail :: "(string \<times> string) list \<Rightarrow> string" where
  "query_tail ps = concat (map (\<lambda>(n, v). ''&'' @ n @ ''='' @ v) ps)"

lemma magnet_loop_pairs:
  assumes "CHR ''='' \<notin> set n" "CHR ''&'' \<notin> set v"
    "\<forall>(n, v) \<in> set ps. CHR ''='' \<notin> set n \<and> CHR ''&'' \<notin> set v"
  shows "magnet_loop (n @ ''='' @ v @ query_tail ps) m
    = fold (\<lambda>(n, v). magnet_param n (urlDecode v)) ps (magnet_param n (urlDecode v) m)"
  using assms
proof (induction ps arbitrary: n v m)
  case Nil
  then show ?case
    by (subst magnet_loop.simps) (simp add: query_tail_def Let_def)
next
  case (Cons p ps)
  obtain n' v' where p: "p = (n', v')" by fastforce
  have "magnet_loop (n @ ''='' @ v @ query_tail (p # ps)) m
      = magnet_loop (n' @ ''='' @ v' @ query_tail ps) (magnet_param n (urlDecode v) m)"
    using Cons.prems
    by (subst magnet_loop.simps) (simp add: query_tail_def p Let_def)
  also have "\<dots> = fold (\<lambda>(n, v). magnet_param n (urlDecode v)) ps
      (magnet_param n' (urlDecode v') (magnet_param n (urlDecode v) m))"
    using Cons.prems p by (intro Cons.IH) auto
  finally show ?case by (simp add: p)
qed

lemma isValidHex_toHex: "length raw = 20 \<Longrightarrow> isValidHex (toHex raw)"
  by (auto simp: isValidHex_def list_all_iff set_toHex)

lemma urlDecode_toHex: "urlDecode (''urn:btih:'' @ toHex raw) = ''urn:btih:'' @ toHex raw"
  by (rule urlDecode_plain) (auto dest!: set_toHex dest: xdigit_plain)

lemma dn_param: "magnet_param ''dn'' v m = m\<lparr>mDisplayName := v\<rparr>"
  by (simp add: magnet_param_def)

lemma fold_tr_params:
  "fold (\<lambda>(n, v). magnet_param n (urlDecode v)) (map (\<lambda>t. (''tr'', urlEncode t)) ts) m
     = m\<lparr>mTrackers := mTrackers m @ ts\<rparr>"
  by (induction ts arbitrary: m) (simp_all add: magnet_param_def urlDecode_urlEncode)

lemma parse_generated_link:
  assumes "length raw = 20"
  shows "parseMagnetLink (generateMagnetLink raw dn ts) =
    \<lparr>mInfoHash = toHex raw, mInfoHashRaw = raw, mDisplayName = dn, mSize = 0,
     mExactTopic = [], mExactSource = [], mTrackers = ts\<rparr>"
proof -
  define ps where "ps = (if dn \<noteq> [] then [(''dn'', urlEncode dn)] else []) @
    map (\<lambda>t. (''tr'', urlEncode t)) ts"
  have g: "generateMagnetLink raw dn ts
      = ''magnet:?'' @ (''xt'' @ ''='' @ (''urn:btih:'' @ toHex raw) @ query_tail ps)"
    by (auto simp: generateMagnetLink_def query_tail_def ps_def o_def)
  have "CHR ''&'' \<notin> set (''urn:btih:'' @ toHex raw)"
    by (auto dest!: set_toHex dest: xdigit_plain)
  moreover have "\<forall>(n, v) \<in> set ps. CHR ''='' \<notin> set n \<and> CHR ''&'' \<notin> set v"
    by (auto simp: ps_def)
  ultimately have "parseMagnetLink (generateMagnetLink raw dn ts)
      = fold (\<lambda>(n, v). magnet_param n (urlDecode v)) ps
          (magnet_param ''xt'' (''urn:btih:'' @ toHex raw) empty_magnet)"
    unfolding g parseMagnetLink_def
    by (subst magnet_loop_pairs [symmetric, where n = "''xt''" and v = "''urn:btih:'' @ toHex raw",
          unfolded urlDecode_toHex]) simp_all
  also have "magnet_param ''xt'' (''urn:btih:'' @ toHex raw) empty_magnet
      = empty_magnet\<lparr>mInfoHash := toHex raw, mInfoHashRaw := raw\<rparr>"
    using isValidHex_toHex [OF assms] by (simp add: magnet_param_def hexToRaw_def)
  also have "fold (\<lambda>(n, v). magnet_param n (urlDecode v)) ps
      (empty_magnet\<lparr>mInfoHash := toHex raw, mInfoHashRaw := raw\<rparr>)
      = empty_magnet\<lparr>mInfoHash := toHex raw, mInfoHashRaw := raw, mDisplayName := dn, mTrackers := ts\<rparr>"
    by (simp add: ps_def fold_tr_params dn_param empty_magnet_def urlDecode_urlEncode)
  finally show ?thesis by (simp add: empty_magnet_def)
qed

end
