(* ===== verification/Metadata.thy ===== *)
theory Metadata
  imports Magnet Peer Tracker_List Dht
begin

text \<open>
  Models \<open>src/metadata.cpp\<close> and \<open>include/metadata.h\<close>: fetching a torrent's info dictionary
  from peers (BEP 9 over BEP 10) for a magnet link. The sockets are the scripted ones of
  \<open>Socket\<close>; the trackers, the DHT and SHA-1 are the parameters of their own theories.
\<close>

definition extended_message_id :: byte where "extended_message_id = 20"

definition extended_handshake_id :: byte where "extended_handshake_id = 0"

definition metadata_piece_size :: int where "metadata_piece_size = 16384"

section \<open>Extended messages on a stream\<close>

definition sendFull :: "bytes \<Rightarrow> sock \<Rightarrow> bool \<times> sock" where
  "sendFull = sendAll"

definition recvFull :: "nat \<Rightarrow> sock \<Rightarrow> (bool \<times> bytes) \<times> sock" where
  "recvFull = recvAll"

text \<open>
  The loop of \<open>readExtendedMessage\<close> with its remaining turns. \<open>len - 2\<close> is computed in
  32 bits. The payload of the caller is used only when the result is true.
\<close>

fun read_extended :: "nat \<Rightarrow> byte \<Rightarrow> sock \<Rightarrow> bytes option \<times> sock" where
  "read_extended 0 expectedExtId s = (None, s)"
| "read_extended (Suc i) expectedExtId s =
     (case recvFull 4 s of
        ((False, _), s1) \<Rightarrow> (None, s1)
      | ((True, lb), s1) \<Rightarrow>
        let len = bytesToInt_raw lb in
        if len = 0 then read_extended i expectedExtId s1
        else if 4 * 1024 * 1024 < unat len then (None, s1)
        else (case recvFull 1 s1 of
          ((False, _), s2) \<Rightarrow> (None, s2)
        | ((True, idb), s2) \<Rightarrow>
          if idb ! 0 \<noteq> extended_message_id then
            (case recvFull (unat (len - 1)) s2 of
               ((False, _), s3) \<Rightarrow> (None, s3)
             | ((True, _), s3) \<Rightarrow> read_extended i expectedExtId s3)
          else (case recvFull 1 s2 of
            ((False, _), s3) \<Rightarrow> (None, s3)
          | ((True, ext), s3) \<Rightarrow>
            (case recvFull (unat (len - 2)) s3 of
               ((False, _), s4) \<Rightarrow> (None, s4)
             | ((True, payload), s4) \<Rightarrow>
                 if ext ! 0 = expectedExtId then (Some payload, s4)
                 else read_extended i expectedExtId s4))))"

definition readExtendedMessage :: "byte \<Rightarrow> sock \<Rightarrow> bytes option \<times> sock" where
  "readExtendedMessage = read_extended 4096"

definition extended_frame :: "byte \<Rightarrow> string \<Rightarrow> bytes" where
  "extended_frame extId dict =
     be32 (of_nat (1 + 1 + length dict)) @ [extended_message_id, extId] @ bytes_of_str dict"

section \<open>Metadata messages\<close>

datatype md_type = MdRequest | MdData | MdReject | MdOther byte

definition md_type_of_byte :: "byte \<Rightarrow> md_type" where
  "md_type_of_byte b =
     (if b = 0 then MdRequest else if b = 1 then MdData else if b = 2 then MdReject else MdOther b)"

fun byte_of_md_type :: "md_type \<Rightarrow> byte" where
  "byte_of_md_type MdRequest = 0" | "byte_of_md_type MdData = 1" | "byte_of_md_type MdReject = 2"
| "byte_of_md_type (MdOther b) = b"

record md_message =
  mm_type :: md_type
  mm_piece :: int
  mm_data :: bytes

definition md_createRequest :: "int \<Rightarrow> md_message" where
  "md_createRequest i = \<lparr>mm_type = MdRequest, mm_piece = i, mm_data = []\<rparr>"

definition md_encode :: "md_message \<Rightarrow> bytes" where
  "md_encode m =
     bytes_of_str (encode (BDict (smap_insert ''piece'' (BInt (mm_piece m))
       (smap_insert ''msg_type'' (BInt (uint (byte_of_md_type (mm_type m)))) []))))"

definition md_read :: "bdict \<Rightarrow> md_message \<Rightarrow> md_message" where
  "md_read d m =
     (let m1 = (case dictGet d ''msg_type'' of
                  Some (BInt i) \<Rightarrow> m\<lparr>mm_type := md_type_of_byte (word_of_int i)\<rparr> | _ \<Rightarrow> m)
      in case dictGet d ''piece'' of
           Some (BInt i) \<Rightarrow> m1\<lparr>mm_piece := to_signed 32 i\<rparr> | _ \<Rightarrow> m1)"

definition md_decode :: "bytes \<Rightarrow> (berror, md_message) outcome" where
  "md_decode data =
     (case parse (str_of_bytes data) of
        Ok (BDict d) \<Rightarrow> Ok (md_read d (md_createRequest 0))
      | Ok _ \<Rightarrow> Ok (md_createRequest 0)
      | Throw _ \<Rightarrow> Ok (md_createRequest 0)
      | Hang \<Rightarrow> Hang)"

section \<open>The downloader of one info dictionary\<close>

record md_downloader =
  md_magnet :: magnet_link
  md_metadata :: string
  md_complete :: bool
  md_size :: int
  md_numPieces :: int
  md_pieces :: "bytes list"

definition md_new :: "magnet_link \<Rightarrow> md_downloader" where
  "md_new m = \<lparr>md_magnet = m, md_metadata = [], md_complete = False, md_size = 0,
     md_numPieces = 0, md_pieces = []\<rparr>"

definition md_peerId :: string where
  "md_peerId = ''-GT0001-'' @ replicate 12 CHR ''M''"

definition md_handshake :: "md_downloader \<Rightarrow> sock \<Rightarrow> bool \<times> sock" where
  "md_handshake d s =
     (case sendFull (handshake_bytes (mInfoHashRaw (md_magnet d)) md_peerId) s of
        (False, s1) \<Rightarrow> (False, s1)
      | (True, s1) \<Rightarrow>
        (case recvFull 68 s1 of
           ((False, _), s2) \<Rightarrow> (False, s2)
         | ((True, h), s2) \<Rightarrow> (handshake_ok h (mInfoHashRaw (md_magnet d)), s2)))"

definition md_client_message :: string where
  "md_client_message = ''d1:md2:ut_metadatai1ee''"

text \<open>
  The peer's extended handshake. A \<open>metadata_size\<close> is an \<open>int\<close> after truncation, and the
  number of pieces is rounded up in \<open>int\<close>; a negative number makes \<open>resize\<close> throw, after
  both members are set. The second component is whether the body was left by an exception.
\<close>

definition set_metadata_size :: "int \<Rightarrow> md_downloader \<Rightarrow> bool \<times> md_downloader" where
  "set_metadata_size i d =
     (let size = to_signed 32 i;
          n = tdiv (to_signed 32 (size + metadata_piece_size - 1)) metadata_piece_size;
          d1 = d\<lparr>md_size := size, md_numPieces := n\<rparr> in
      if n < 0 then (False, d1)
      else (True, d1\<lparr>md_pieces := take (nat n) (md_pieces d) @ replicate (nat n - length (md_pieces d)) []\<rparr>))"

definition read_ext_handshake :: "bdict \<Rightarrow> md_downloader \<Rightarrow> int \<Rightarrow> bool \<times> md_downloader \<times> int" where
  "read_ext_handshake h d extId =
     (let (ok, d1) = (case dictGet h ''metadata_size'' of
                        Some (BInt i) \<Rightarrow> set_metadata_size i d | _ \<Rightarrow> (True, d)) in
      if \<not> ok then (False, d1, extId)
      else case dictGet h ''m'' of
        Some (BDict m) \<Rightarrow>
          (case dictGet m ''ut_metadata'' of
             Some (BInt i) \<Rightarrow> (True, d1, to_signed 32 i) | _ \<Rightarrow> (True, d1, extId))
      | _ \<Rightarrow> (True, d1, extId))"

definition exchangeExtensions :: "md_downloader \<Rightarrow> sock \<Rightarrow> int \<Rightarrow>
    (berror, bool \<times> md_downloader \<times> int \<times> sock) outcome" where
  "exchangeExtensions d s extId =
     (case sendFull (extended_frame extended_handshake_id md_client_message) s of
        (False, s1) \<Rightarrow> Ok (False, d, extId, s1)
      | (True, s1) \<Rightarrow>
        (case readExtendedMessage extended_handshake_id s1 of
           (None, s2) \<Rightarrow> Ok (False, d, extId, s2)
         | (Some extData, s2) \<Rightarrow>
           (case parse (str_of_bytes extData) of
              Hang \<Rightarrow> Hang
            | Throw _ \<Rightarrow> Ok (False, d, extId, s2)
            | Ok v \<Rightarrow>
                let (ok, d1, ext1) = (case v of BDict h \<Rightarrow> read_ext_handshake h d extId
                                                | _ \<Rightarrow> (True, d, extId)) in
                Ok (ok \<and> 0 < ext1 \<and> 0 < md_size d1, d1, ext1, s2))))"

definition md_request :: "nat \<Rightarrow> string" where
  "md_request i = ''d8:msg_typei0e5:piecei'' @ dec_nat i @ ''ee''"

text \<open>One turn of the request loop: \<open>None\<close> is \<open>return false\<close>.\<close>

definition md_message_type :: "bdict \<Rightarrow> int" where
  "md_message_type h = (case dictGet h ''msg_type'' of Some (BInt i) \<Rightarrow> to_signed 32 i | _ \<Rightarrow> -1)"

definition request_piece :: "nat \<Rightarrow> byte \<Rightarrow> md_downloader \<Rightarrow> sock \<Rightarrow>
    (berror, md_downloader option \<times> sock) outcome" where
  "request_piece i ext d s =
     (case sendFull (extended_frame ext (md_request i)) s of
        (False, s1) \<Rightarrow> Ok (None, s1)
      | (True, s1) \<Rightarrow>
        (case readExtendedMessage ext s1 of
           (None, s2) \<Rightarrow> Ok (None, s2)
         | (Some payload, s2) \<Rightarrow>
           (case parseAt (str_of_bytes payload) 0 of
              Hang \<Rightarrow> Hang
            | Throw _ \<Rightarrow> Ok (None, s2)
            | Ok (BDict h, pos) \<Rightarrow>
                if md_message_type h = 1 then
                  Ok (Some (if pos < length payload
                            then d\<lparr>md_pieces := (md_pieces d)[i := drop pos payload]\<rparr> else d), s2)
                else Ok (None, s2)
            | Ok _ \<Rightarrow> Ok (None, s2))))"

fun request_pieces :: "nat list \<Rightarrow> byte \<Rightarrow> md_downloader \<Rightarrow> sock \<Rightarrow>
    (berror, bool \<times> md_downloader \<times> sock) outcome" where
  "request_pieces [] ext d s = Ok (True, d, s)"
| "request_pieces (i # is) ext d s =
     obind (request_piece i ext d s) (\<lambda>(r, s').
       case r of None \<Rightarrow> Ok (False, d, s') | Some d' \<Rightarrow> request_pieces is ext d' s')"

definition finish_metadata :: "(bytes \<Rightarrow> bytes) \<Rightarrow> md_downloader \<Rightarrow> bool \<times> md_downloader" where
  "finish_metadata SHA1 d =
     (let data = str_of_bytes (concat (md_pieces d)) in
      if to_signed 32 (int (length data)) \<noteq> md_size d then (False, d\<lparr>md_metadata := []\<rparr>)
      else if sha1_str SHA1 (bytes_of_str data) \<noteq> mInfoHashRaw (md_magnet d)
        then (False, d\<lparr>md_metadata := []\<rparr>)
      else (True, d\<lparr>md_metadata := data, md_complete := True\<rparr>))"

definition requestMetadata :: "(bytes \<Rightarrow> bytes) \<Rightarrow> int \<Rightarrow> md_downloader \<Rightarrow> sock \<Rightarrow>
    (berror, bool \<times> md_downloader \<times> sock) outcome" where
  "requestMetadata SHA1 extId d s =
     obind (request_pieces [0..<nat (md_numPieces d)] (word_of_int extId) d s)
       (\<lambda>(ok, d', s'). if \<not> ok then Ok (False, d', s')
          else (case finish_metadata SHA1 d' of (r, d'') \<Rightarrow> Ok (r, d'', s')))"

record md_peer_env =
  pe_socket :: bool
  pe_pton :: bool
  pe_connect :: bool
  pe_sock :: sock

definition downloadFromPeer :: "(bytes \<Rightarrow> bytes) \<Rightarrow> md_peer_env \<Rightarrow> md_downloader \<Rightarrow>
    (berror, bool \<times> md_downloader) outcome" where
  "downloadFromPeer SHA1 env d =
     (if \<not> pe_socket env \<or> \<not> pe_pton env \<or> \<not> pe_connect env then Ok (False, d)
      else case md_handshake d (pe_sock env) of
        (False, _) \<Rightarrow> Ok (False, d)
      | (True, s1) \<Rightarrow>
          obind (exchangeExtensions d s1 (- 1)) (\<lambda>(ok, d1, extId, s2).
            if \<not> ok then Ok (False, d1)
            else if extId < 0 then Ok (False, d1)
            else obind (requestMetadata SHA1 extId d1 s2) (\<lambda>(r, d2, _). Ok (r, d2))))"

definition md_addPeer :: "(bytes \<Rightarrow> bytes) \<Rightarrow> md_peer_env \<Rightarrow> md_downloader \<Rightarrow>
    (berror, md_downloader) outcome" where
  "md_addPeer SHA1 env d =
     (if md_complete d then Ok d else obind (downloadFromPeer SHA1 env d) (\<lambda>(_, d'). Ok d'))"

definition md_stop :: "md_downloader \<Rightarrow> md_downloader" where
  "md_stop d = d\<lparr>md_complete := False\<rparr>"

definition md_getTorrentData :: "md_downloader \<Rightarrow> string" where
  "md_getTorrentData d = md_metadata d"

section \<open>Finding peers and trying them\<close>

definition fallback_trackers :: "string list" where
  "fallback_trackers =
     [''udp://tracker.opentrackr.org:1337/announce'', ''udp://open.tracker.cl:1337/announce'',
      ''udp://tracker.openbittorrent.com:6969/announce'', ''udp://tracker.torrent.eu.org:451/announce'',
      ''udp://tracker.bittor.pw:1337/announce'', ''udp://tracker.dler.org:6969/announce'',
      ''udp://tracker.moeking.me:6969/announce'', ''udp://tracker.tiny-vps.com:6969/announce'',
      ''udp://tracker.port443.xyz:6969/announce'', ''udp://open.stealth.si:80/announce'',
      ''udp://exodus.desync.com:6969/announce'', ''udp://tracker.cyberia.is:6969/announce'',
      ''udp://tracker.internetwarriors.net:1337/announce'', ''udp://tracker.skynetcloud.site:6969/announce'',
      ''http://tracker.opentrackr.org:1337/announce'', ''http://tracker.openbittorrent.com:6969/announce'',
      ''http://tracker.tfile.co/announce'', ''http://bt1.archive.org:6969/announce'',
      ''http://bt2.archive.org:6969/announce'']"

definition getBuiltinTrackers :: "(string \<Rightarrow> (int \<times> string) option) \<Rightarrow> string list" where
  "getBuiltinTrackers http =
     (let ts = fetchTrackersFromMultipleSources http [TRACKERSLIST_ALL, NGOSANG_ALL] in
      if ts = [] then fallback_trackers else ts)"

definition udp_first :: "string list \<Rightarrow> string list" where
  "udp_first ts = filter (\<lambda>u. take 6 u = ''udp://'') ts @ filter (\<lambda>u. take 6 u \<noteq> ''udp://'') ts"

fun gather_peers :: "(string \<Rightarrow> (berror, tracker_response) outcome) \<Rightarrow> nat \<Rightarrow> string list \<Rightarrow> peer list \<Rightarrow>
    (berror, peer list) outcome" where
  "gather_peers contact tries [] peers = Ok peers"
| "gather_peers contact 0 urls peers = Ok peers"
| "gather_peers contact (Suc tries) (u # us) peers =
     obind (contact u) (\<lambda>r.
       let peers' = (if response_ok r then peers @ trPeers r else peers) in
       if 50 \<le> length peers' then Ok peers' else gather_peers contact tries us peers')"

fun add_new_peers :: "peer list \<Rightarrow> peer list \<Rightarrow> peer list" where
  "add_new_peers [] peers = peers"
| "add_new_peers (p # ps) peers =
     add_new_peers ps (if list_ex (\<lambda>q. same_peer q p) peers then peers else peers @ [p])"

fun try_peers :: "(bytes \<Rightarrow> bytes) \<Rightarrow> (peer \<Rightarrow> md_peer_env) \<Rightarrow> peer list \<Rightarrow> md_downloader \<Rightarrow>
    (berror, md_downloader) outcome" where
  "try_peers SHA1 env [] d = Ok d"
| "try_peers SHA1 env (p # ps) d =
     obind (downloadFromPeer SHA1 (env p) d) (\<lambda>(ok, d').
       if ok \<and> md_complete d' then Ok d' else try_peers SHA1 env ps d')"

record md_env =
  me_http :: "string \<Rightarrow> (int \<times> string) option"
  me_tracker :: "string \<Rightarrow> tracker_env"
  me_dht :: dht_net
  me_peer :: "peer \<Rightarrow> md_peer_env"

definition md_trackers :: "md_env \<Rightarrow> md_downloader \<Rightarrow> string list" where
  "md_trackers env d =
     udp_first (if mTrackers (md_magnet d) = [] then getBuiltinTrackers (me_http env)
                else mTrackers (md_magnet d))"

definition md_find_peers :: "md_env \<Rightarrow> md_downloader \<Rightarrow> (berror, peer list) outcome" where
  "md_find_peers env d =
     (let trackers = md_trackers env d;
          t = empty_torrent\<lparr>tInfoHash := mInfoHashRaw (md_magnet d), tAnnounceList := trackers,
                tPeerId := md_peerId\<rparr> in
      obind (gather_peers (\<lambda>u. contactTracker (me_tracker env u) u t (tPeerId t) 0 0 0 []) 25 trackers [])
        (\<lambda>peers. if length peers < 20 then
            obind (discoverDhtPeers (me_dht env) (mInfoHashRaw (md_magnet d)) []
                     \<lparr>do_queryTimeoutMs = 600, do_maxQueries = 16, do_maxPeers = 50 - length peers\<rparr>)
              (\<lambda>ps. Ok (add_new_peers ps peers))
          else Ok peers))"

definition md_start :: "(bytes \<Rightarrow> bytes) \<Rightarrow> md_env \<Rightarrow> md_downloader \<Rightarrow>
    (berror, bool \<times> md_downloader) outcome" where
  "md_start SHA1 env d =
     obind (md_find_peers env d) (\<lambda>peers.
       if peers = [] then Ok (False, d)
       else obind (try_peers SHA1 (me_peer env) peers d) (\<lambda>d'. Ok (md_complete d', d')))"

definition downloadMetadata :: "(bytes \<Rightarrow> bytes) \<Rightarrow> md_env \<Rightarrow> magnet_link \<Rightarrow> (berror, string) outcome" where
  "downloadMetadata SHA1 env m =
     obind (md_start SHA1 env (md_new m)) (\<lambda>(ok, d). Ok (if ok then md_getTorrentData d else []))"

section \<open>Complete metadata has the hash of the magnet link\<close>

definition md_frame :: "md_downloader \<Rightarrow> md_downloader \<Rightarrow> bool" where
  "md_frame d d' \<longleftrightarrow> md_magnet d' = md_magnet d \<and> md_metadata d' = md_metadata d \<and> md_complete d' = md_complete d"

lemma md_frame_refl [simp]: "md_frame d d"
  by (simp add: md_frame_def)

lemma md_frame_trans: "md_frame a b \<Longrightarrow> md_frame b c \<Longrightarrow> md_frame a c"
  by (simp add: md_frame_def)

lemma read_ext_handshake_frame: "read_ext_handshake h d e = (ok, d', e') \<Longrightarrow> md_frame d d'"
  by (auto simp: read_ext_handshake_def set_metadata_size_def md_frame_def Let_def
      split: option.splits bval.splits if_splits prod.splits)

lemma exchangeExtensions_frame: "exchangeExtensions d s e = Ok (ok, d', e', s') \<Longrightarrow> md_frame d d'"
  by (auto simp: exchangeExtensions_def Let_def split: prod.splits bool.splits option.splits
      outcome.splits bval.splits if_splits dest: read_ext_handshake_frame)

lemma request_piece_frame: "request_piece i e d s = Ok (Some d', s') \<Longrightarrow> md_frame d d'"
  by (auto simp: request_piece_def md_frame_def split: prod.splits bool.splits option.splits
      outcome.splits bval.splits if_splits)

lemma request_pieces_frame: "request_pieces is e d s = Ok (ok, d', s') \<Longrightarrow> md_frame d d'"
proof (induction "is" arbitrary: d s)
  case (Cons i "is")
  then show ?case
    by (auto split: option.splits dest!: request_piece_frame intro: md_frame_trans)
qed simp

definition md_sound :: "(bytes \<Rightarrow> bytes) \<Rightarrow> md_downloader \<Rightarrow> bool" where
  "md_sound SHA1 d \<longleftrightarrow>
     (md_complete d \<longrightarrow> sha1_str SHA1 (bytes_of_str (md_metadata d)) = mInfoHashRaw (md_magnet d) \<and>
        to_signed 32 (int (length (md_metadata d))) = md_size d)"

lemma finish_metadata_sound:
  "\<not> md_complete d \<Longrightarrow> finish_metadata SHA1 d = (ok, d') \<Longrightarrow>
   md_sound SHA1 d' \<and> ok = md_complete d' \<and> md_magnet d' = md_magnet d"
  by (auto simp: finish_metadata_def md_sound_def Let_def split: if_splits)

lemma md_frame_start:
  "md_frame d d1 \<Longrightarrow> \<not> md_complete d \<Longrightarrow> md_sound SHA1 d1 \<and> \<not> md_complete d1 \<and> md_magnet d1 = md_magnet d"
  by (simp add: md_frame_def md_sound_def)

lemma requestMetadata_sound:
  assumes "md_frame d d1" "\<not> md_complete d" "requestMetadata SHA1 e d1 s = Ok (ok, d', s')"
  shows "md_sound SHA1 d' \<and> md_magnet d' = md_magnet d \<and> ok = md_complete d'"
proof -
  obtain ok2 d2 s2 where p: "request_pieces [0..<nat (md_numPieces d1)] (word_of_int e) d1 s = Ok (ok2, d2, s2)"
    using assms(3) by (auto simp: requestMetadata_def)
  then have x: "(if \<not> ok2 then Ok (False, d2, s2)
      else (case finish_metadata SHA1 d2 of (r, d'') \<Rightarrow> Ok (r, d'', s2))) =
      (Ok (ok, d', s') :: (berror, bool \<times> md_downloader \<times> sock) outcome)"
    using assms(3) by (simp add: requestMetadata_def)
  note d2 = md_frame_start [OF md_frame_trans [OF assms(1) request_pieces_frame [OF p]] assms(2)]
  show ?thesis
  proof (cases ok2)
    case True
    with x have "finish_metadata SHA1 d2 = (ok, d')" by (auto split: prod.splits)
    with d2 finish_metadata_sound [of d2 SHA1 ok d'] show ?thesis by simp
  next
    case False
    with x d2 show ?thesis by auto
  qed
qed

text \<open>The ways one peer can end: before any message, in the extension handshake, or in the transfer.\<close>

lemma downloadFromPeer_cases:
  assumes "downloadFromPeer SHA1 env d = Ok (ok, d')"
  obtains "d' = d" "\<not> ok" | "md_frame d d'" "\<not> ok"
  | d1 e s2 s3 where "md_frame d d1" "requestMetadata SHA1 e d1 s2 = Ok (ok, d', s3)"
proof (cases "\<not> pe_socket env \<or> \<not> pe_pton env \<or> \<not> pe_connect env \<or> \<not> fst (md_handshake d (pe_sock env))")
  case True
  with assms that(1) show thesis
    by (auto simp: downloadFromPeer_def split: prod.splits bool.splits if_splits)
next
  case False
  then obtain s1 where "md_handshake d (pe_sock env) = (True, s1)" by (cases "md_handshake d (pe_sock env)") auto
  with False assms obtain ok1 d1 e s2 where x: "exchangeExtensions d s1 (- 1) = Ok (ok1, d1, e, s2)"
    "(if \<not> ok1 then Ok (False, d1) else if e < 0 then Ok (False, d1)
      else obind (requestMetadata SHA1 e d1 s2) (\<lambda>(r, d2, _). Ok (r, d2))) = Ok (ok, d')"
    by (auto simp: downloadFromPeer_def)
  note fr = exchangeExtensions_frame [OF x(1)]
  show thesis
  proof (cases "ok1 \<and> \<not> e < 0")
    case True
    with x(2) obtain s3 where "requestMetadata SHA1 e d1 s2 = Ok (ok, d', s3)" by auto
    with that(3) fr show thesis by blast
  next
    case False
    with x(2) that(2) fr show thesis by (auto split: if_splits)
  qed
qed

lemma downloadFromPeer_sound:
  assumes "\<not> md_complete d" "downloadFromPeer SHA1 env d = Ok (ok, d')"
  shows "md_sound SHA1 d' \<and> md_magnet d' = md_magnet d \<and> ok = md_complete d'"
  using assms(2)
proof (cases rule: downloadFromPeer_cases)
  case 1
  with assms(1) show ?thesis by (simp add: md_sound_def)
next
  case 2
  with md_frame_start [OF 2(1) assms(1)] show ?thesis by simp
next
  case (3 d1 e s2 s3)
  then show ?thesis by (rule requestMetadata_sound [OF _ assms(1)])
qed

lemma try_peers_sound:
  "\<not> md_complete d \<Longrightarrow> try_peers SHA1 env ps d = Ok d' \<Longrightarrow>
   md_sound SHA1 d' \<and> md_magnet d' = md_magnet d"
proof (induction ps arbitrary: d)
  case Nil
  then show ?case by (simp add: md_sound_def)
next
  case (Cons p ps)
  from Cons.prems obtain ok d1 where r: "downloadFromPeer SHA1 (env p) d = Ok (ok, d1)"
    "(if ok \<and> md_complete d1 then Ok d1 else try_peers SHA1 env ps d1) = Ok d'"
    by auto
  note d1 = downloadFromPeer_sound [OF Cons.prems(1) r(1)]
  show ?case
  proof (cases "md_complete d1")
    case True
    with d1 r(2) show ?thesis by simp
  next
    case False
    with d1 r(2) Cons.IH [of d1] show ?thesis by simp
  qed
qed

lemma md_start_sound:
  "\<not> md_complete d \<Longrightarrow> md_start SHA1 env d = Ok (ok, d') \<Longrightarrow>
   md_sound SHA1 d' \<and> md_magnet d' = md_magnet d \<and> (ok \<longrightarrow> md_complete d')"
  by (auto simp: md_start_def md_sound_def split: if_splits dest: try_peers_sound)

section \<open>Finding the reply among other messages\<close>

definition unrelated :: "byte \<Rightarrow> peer_message \<Rightarrow> bool" where
  "unrelated e m \<longleftrightarrow>
     wf_message m \<and> (pm_id m = Extended \<longrightarrow> pm_payload m \<noteq> [] \<and> hd (pm_payload m) \<noteq> e)"

definition extended_message :: "byte \<Rightarrow> bytes \<Rightarrow> peer_message" where
  "extended_message e b = \<lparr>pm_length = of_nat (2 + length b), pm_id = Extended, pm_payload = e # b\<rparr>"

lemma extended_frame_eq: "extended_frame e dict = frame (extended_message e (bytes_of_str dict))"
  if "length dict + 2 < 2 ^ 32"
proof -
  have "unat (of_nat (2 + length dict) :: 32 word) = 2 + length dict"
    using that by (intro unat_of_nat32) simp
  then have "0 < (of_nat (2 + length dict) :: 32 word)" by (simp add: word_less_nat_alt del: of_nat_add)
  then show ?thesis
    by (simp add: extended_frame_def frame_def extended_message_def extended_message_id_def del: of_nat_add)
qed

lemma extended_message_wf: "2 + length b \<le> max_message \<Longrightarrow> wf_message (extended_message e b)"
proof -
  assume l: "2 + length b \<le> max_message"
  then have u: "unat (of_nat (2 + length b) :: 32 word) = 2 + length b"
    by (intro unat_of_nat32) (simp add: max_message_def)
  then have "(of_nat (2 + length b) :: 32 word) \<noteq> 0" by (metis add_is_0 unat_0 zero_neq_numeral)
  with u l show ?thesis
    by (simp add: extended_message_def wf_message_def id_of_byte_def del: of_nat_add)
qed

interpretation full_source: byte_source recvFull sk_stream "\<lambda>s s'. sk_tx s' = sk_tx s"
  by unfold_locales (auto simp: recvFull_def dest!: sock_source.rd_field)

lemmas recvFull_stream = full_source.rd_stream

lemma unat_pred:
  "w \<noteq> 0 \<Longrightarrow> unat (w - 1) = unat w - 1" "2 \<le> unat w \<Longrightarrow> unat (w - 2) = unat w - 2"
  for w :: "32 word"
  by (simp_all add: unat_minus_one unat_sub word_le_nat_alt)

text \<open>The beginning of every frame but a keep-alive.\<close>

lemma read_frame_start:
  assumes "sk_stream s = frame m @ r" "wf_message m" "pm_length m \<noteq> 0"
  obtains s1 s2 where "recvFull 4 s = ((True, be32 (pm_length m)), s1)"
    "recvFull 1 s1 = ((True, [byte_of_id (pm_id m)]), s2)"
    "sk_stream s2 = pm_payload m @ r" "sk_tx s2 = sk_tx s"
  by (rule full_source.rd_two [of s "be32 (pm_length m)" "[byte_of_id (pm_id m)]" "pm_payload m @ r" 4 1])
     (use assms that in \<open>auto simp: frame_def word_gt_0\<close>)

lemma byte_of_id_20: "id_of_byte (byte_of_id i) = i \<Longrightarrow> byte_of_id i = 20 \<longleftrightarrow> i = Extended"
  by (cases i) (auto simp: id_of_byte_def)

lemma read_extended_payload:
  assumes "sk_stream s = frame m @ r" "wf_message m" "pm_id m = Extended" "pm_payload m = x # b" "pm_length m \<noteq> 0"
  obtains s' where "read_extended (Suc i) e s = (if x = e then (Some b, s') else read_extended i e s')"
    "sk_stream s' = r" "sk_tx s' = sk_tx s"
proof -
  have u: "unat (pm_length m) = 2 + length b" "unat (pm_length m) \<le> max_message"
    using assms by (simp_all add: wf_message_def)
  obtain s1 s2 where s: "recvFull 4 s = ((True, be32 (pm_length m)), s1)"
    "recvFull 1 s1 = ((True, [20]), s2)" "sk_stream s2 = [x] @ b @ r" "sk_tx s2 = sk_tx s"
    using read_frame_start [OF assms(1,2,5)] assms(3,4) by auto
  obtain s3 where s3: "recvFull 1 s2 = ((True, [x]), s3)" "sk_stream s3 = b @ r" "sk_tx s3 = sk_tx s2"
    using recvFull_stream [OF s(3), of 1] by auto
  obtain s4 where s4: "recvFull (length b) s3 = ((True, b), s4)" "sk_stream s4 = r" "sk_tx s4 = sk_tx s3"
    using recvFull_stream [OF s3(2)] by blast
  have "read_extended (Suc i) e s = (if x = e then (Some b, s4) else read_extended i e s4)"
    using s s3 s4 u assms(5) by (simp add: Let_def extended_message_id_def unat_pred max_message_def)
  with that s4 s3 s show thesis by simp
qed

lemma read_extended_skip:
  assumes "sk_stream s = frame m @ r" "unrelated e m"
  obtains s' where "read_extended (Suc i) e s = read_extended i e s'" "sk_stream s' = r" "sk_tx s' = sk_tx s"
proof (cases "pm_length m = 0")
  case True
  then have "sk_stream s = be32 0 @ r" using assms by (simp add: frame_def)
  then obtain s' where "recvFull 4 s = ((True, be32 0), s')" "sk_stream s' = r" "sk_tx s' = sk_tx s"
    using recvFull_stream [of s "be32 0" r 4] by auto
  with that [of s'] show thesis by simp
next
  case False
  have wf: "wf_message m" using assms(2) by (simp add: unrelated_def)
  show thesis
  proof (cases "pm_id m = Extended")
    case True
    with assms(2) obtain x b where "pm_payload m = x # b" "x \<noteq> e"
      by (cases "pm_payload m") (auto simp: unrelated_def)
    with read_extended_payload [OF assms(1) wf True, of x b i e] False that show thesis by auto
  next
    case ne: False
    obtain s1 s2 where s: "recvFull 4 s = ((True, be32 (pm_length m)), s1)"
      "recvFull 1 s1 = ((True, [byte_of_id (pm_id m)]), s2)" "sk_stream s2 = pm_payload m @ r"
      "sk_tx s2 = sk_tx s"
      using read_frame_start [OF assms(1) wf False] by blast
    have m: "unat (pm_length m) = 1 + length (pm_payload m)" "id_of_byte (byte_of_id (pm_id m)) = pm_id m"
      "unat (pm_length m) \<le> max_message" using wf False by (simp_all add: wf_message_def)
    obtain s3 where "recvFull (length (pm_payload m)) s2 = ((True, pm_payload m), s3)" "sk_stream s3 = r"
      "sk_tx s3 = sk_tx s2" using recvFull_stream [OF s(3)] by blast
    with that [of s3] s m ne False byte_of_id_20 [OF m(2)] show thesis
      by (simp add: Let_def extended_message_id_def unat_pred max_message_def)
  qed
qed

lemma read_extended_finds:
  assumes "sk_stream s = wire ms @ frame (extended_message e b) @ r" "\<forall>m \<in> set ms. unrelated e m"
    "length ms < n" "2 + length b \<le> max_message"
  shows "\<exists>s'. read_extended n e s = (Some b, s') \<and> sk_stream s' = r \<and> sk_tx s' = sk_tx s"
  using assms
proof (induction ms arbitrary: n s)
  case Nil
  then obtain i where n: "n = Suc i" by (cases n) auto
  note wf = extended_message_wf [OF Nil.prems(4), of e]
  have "pm_length (extended_message e b) \<noteq> 0"
    using wf by (auto simp: wf_message_def extended_message_def split: if_splits)
  from read_extended_payload [OF _ wf _ _ this, of s r e b i e] Nil.prems(1) n show ?case
    by (auto simp: extended_message_def)
next
  case (Cons m ms)
  then obtain i where n: "n = Suc i" by (cases n) auto
  have "sk_stream s = frame m @ (wire ms @ frame (extended_message e b) @ r)" "unrelated e m"
    using Cons.prems by simp_all
  then obtain s1 where s1: "read_extended n e s = read_extended i e s1" "sk_tx s1 = sk_tx s"
    "sk_stream s1 = wire ms @ frame (extended_message e b) @ r"
    using read_extended_skip n by metis
  have "\<exists>s'. read_extended i e s1 = (Some b, s') \<and> sk_stream s' = r \<and> sk_tx s' = sk_tx s1"
    using Cons.prems n s1 by (intro Cons.IH) auto
  with s1 show ?case by simp
qed


section \<open>Messages and their encodings\<close>

lemma md_type_of_byte_of_type: "byte_of_md_type (md_type_of_byte b) = b"
  by (simp add: md_type_of_byte_def)

text \<open>The requests are written by hand; they are the ones \<open>MetadataMessage::encode\<close> produces.\<close>

lemma md_request_encode: "md_encode (md_createRequest (int i)) = bytes_of_str (md_request i)"
proof -
  have "encode_string ''msg_type'' = ''8:msg_type''" "encode_string ''piece'' = ''5:piece''" "dec_nat 0 = ''0''"
    by code_simp+
  then show ?thesis
    by (simp add: md_encode_def md_createRequest_def md_request_def dec_int_def)
qed

lemma md_decode_encode:
  assumes "- (2 ^ 31) \<le> mm_piece m" "mm_piece m < 2 ^ 31" "md_type_of_byte (byte_of_md_type (mm_type m)) = mm_type m"
    "length (md_encode m) < 2 ^ 64"
  shows "md_decode (md_encode m) = Ok (m\<lparr>mm_data := []\<rparr>)"
proof -
  let ?d = "[(''msg_type'', BInt (uint (byte_of_md_type (mm_type m)))), (''piece'', BInt (mm_piece m))]"
  have u: "uint (byte_of_md_type (mm_type m)) < 256"
    using uint_bounded [of "byte_of_md_type (mm_type m)"] by simp
  have e: "md_encode m = bytes_of_str (encode (BDict ?d))" by (simp add: md_encode_def)
  have "wf_bval (BDict ?d)" using assms(1,2) u
    by (simp add: order_trans [OF _ uint_ge_0])
  with assms(4) have "parse (str_of_bytes (md_encode m)) = Ok (BDict ?d)"
    unfolding e by (simp add: parse_encode del: encode.simps)
  with assms(1-3) show ?thesis
    by (simp add: md_decode_def md_read_def dictGet_def md_createRequest_def to_signed_id)
qed

text \<open>The handshake this client sends is not a bencoded value.\<close>

lemma md_client_message_malformed: "parse md_client_message = Throw (InvalidCharacter CHR ''_'')"
proof -
  have colons: "find_from md_client_message CHR '':'' (Suc 0) = Some 2" "find_from md_client_message CHR '':'' 5 = Some 6"
    unfolding md_client_message_def by code_simp+
  have digits: "substr md_client_message (Suc 0) (Suc 0) = dec_nat 1" "substr md_client_message 5 (Suc 0) = dec_nat 2"
    unfolding md_client_message_def by code_simp+
  have strs: "substr md_client_message 3 1 = ''m''" "substr md_client_message 7 2 = ''ut''"
    unfolding md_client_message_def by code_simp+
  have len: "length md_client_message = 22" by (simp add: md_client_message_def)
  have keys: "parse_string md_client_message (Suc 0) = Ok (BStr ''m'', 4)"
    "parse_string md_client_message 5 = Ok (BStr ''ut'', 9)"
    using strs by (simp_all add: parse_string_def colons digits Let_def len)
  have chars: "md_client_message ! 0 = CHR ''d''" "md_client_message ! 1 = CHR ''1''"
    "md_client_message ! 4 = CHR ''d''" "md_client_message ! 5 = CHR ''2''" "md_client_message ! 9 = CHR ''_''"
    unfolding md_client_message_def by code_simp+
  have "parseImpl (Suc (Suc (Suc (Suc (Suc (Suc f)))))) md_client_message 0 = Throw (InvalidCharacter CHR ''_'')" for f
    using keys chars by (simp add: len is_digit_def Let_def)
  from this [of 40] have "parseImpl (parse_fuel md_client_message) md_client_message 0 = Throw (InvalidCharacter CHR ''_'')"
    by (simp add: parse_fuel_def len del: parseImpl.simps)
  then show ?thesis by (simp add: parse_def parseAt_def)
qed

text \<open>
  An extended message of length 1, which has no extension id: the length of its payload
  wraps to \<open>2 ^ 32 - 1\<close>, so all that follows is swallowed.
\<close>

lemma read_extended_length_one:
  assumes "sk_stream s = be32 1 @ [extended_message_id] @ r" "length r < 2 ^ 32"
  shows "fst (read_extended (Suc i) e s) = None"
proof -
  obtain s1 where s1: "recvFull 4 s = ((True, be32 1), s1)" "sk_stream s1 = [extended_message_id] @ r"
    using recvFull_stream [of s "be32 1" "[extended_message_id] @ r" 4] assms(1) by auto
  obtain s2 where s2: "recvFull 1 s1 = ((True, [extended_message_id]), s2)" "sk_stream s2 = r"
    using recvFull_stream [OF s1(2), of 1] by auto
  have w: "unat (1 - 2 :: 32 word) = 2 ^ 32 - 1" by (simp add: unsigned_minus_1_eq_mask mask_eq_exp_minus_1)
  show ?thesis
  proof (cases r)
    case Nil
    then have "\<exists>s3. recvFull 1 s2 = ((False, []), s3)"
      by (cases rule: recvAll_cases [of 1 s2]) (auto simp: recvFull_def s2(2))
    then obtain s3 where "recvFull 1 s2 = ((False, []), s3)" ..
    with s1 s2 show ?thesis by (simp add: Let_def)
  next
    case (Cons x b)
    then obtain s3 where s3: "recvFull 1 s2 = ((True, [x]), s3)" "sk_stream s3 = b"
      using recvFull_stream [of s2 "[x]" b 1] s2(2) by auto
    have "length (sk_stream s3) < unat (1 - 2 :: 32 word)" unfolding w using assms(2) Cons s3(2) by simp
    then obtain s4 where "recvFull (unat (1 - 2 :: 32 word)) s3 = ((False, b), s4)"
      unfolding recvFull_def s3(2) [symmetric]
      by (cases rule: recvAll_cases [of "unat (1 - 2 :: 32 word)" s3]) (simp_all only: leD simp_thms)
    with s1 s2 s3 show ?thesis by (simp add: Let_def del: diff_numeral_special)
  qed
qed

section \<open>An honest peer's metadata is complete\<close>

definition reply_dict :: "nat \<Rightarrow> int \<Rightarrow> bval" where
  "reply_dict i tot = BDict [(''msg_type'', BInt 1), (''piece'', BInt (int i)), (''total_size'', BInt tot)]"

definition reply_payload :: "nat \<Rightarrow> int \<Rightarrow> bytes \<Rightarrow> bytes" where
  "reply_payload i tot data = bytes_of_str (encode (reply_dict i tot)) @ data"

lemma reply_dict_wf: "i < 2 ^ 63 \<Longrightarrow> - (2 ^ 63) \<le> tot \<Longrightarrow> tot < 2 ^ 63 \<Longrightarrow> wf_bval (reply_dict i tot)"
  by (simp add: reply_dict_def)

lemma request_piece_reply:
  assumes "sk_tx s = []" "sk_stream s = wire ms @ frame (extended_message e (reply_payload i tot data)) @ r"
    "\<forall>m \<in> set ms. unrelated e m" "length ms < 4096" "2 + length (reply_payload i tot data) \<le> max_message"
    "i < 2 ^ 63" "- (2 ^ 63) \<le> tot" "tot < 2 ^ 63" "data \<noteq> []"
  obtains s' where "request_piece i e d s = Ok (Some (d\<lparr>md_pieces := (md_pieces d)[i := data]\<rparr>), s')"
    "sk_stream s' = r" "sk_tx s' = []"
proof -
  let ?p = "reply_payload i tot data"
  obtain s1 where s1: "sendFull (extended_frame e (md_request i)) s = (True, s1)" "sk_tx s1 = []"
    "sk_stream s1 = sk_stream s"
    using assms(1) by (simp add: sendFull_def sendAll_def)
  obtain s2 where s2: "readExtendedMessage e s1 = (Some ?p, s2)" "sk_stream s2 = r" "sk_tx s2 = []"
    using read_extended_finds [of s1 ms e ?p r 4096] assms(2-5) s1
    by (auto simp: readExtendedMessage_def)
  have str: "str_of_bytes ?p = [] @ encode (reply_dict i tot) @ str_of_bytes data"
    by (simp add: reply_payload_def)
  have "length ([] @ encode (reply_dict i tot) @ str_of_bytes data) < 2 ^ 64"
    using assms(5) by (simp add: reply_payload_def max_message_def)
  from parseAt_encode [OF reply_dict_wf [OF assms(6-8)] this]
  have "parseAt (str_of_bytes ?p) 0 = Ok (reply_dict i tot, length (encode (reply_dict i tot)))"
    unfolding str by simp
  moreover have "md_message_type [(''msg_type'', BInt 1), (''piece'', BInt (int i)), (''total_size'', BInt tot)] = 1"
    by (simp add: md_message_type_def dictGet_def to_signed_id)
  moreover have "length (encode (reply_dict i tot)) < length ?p" "drop (length (encode (reply_dict i tot))) ?p = data"
    using assms(9) by (simp_all add: reply_payload_def)
  ultimately have "request_piece i e d s = Ok (Some (d\<lparr>md_pieces := (md_pieces d)[i := data]\<rparr>), s2)"
    using s1 s2 unfolding request_piece_def by (simp add: reply_dict_def)
  with that s2 show thesis by blast
qed

text \<open>What the peer sends: for each piece some unrelated messages and the reply.\<close>

definition peer_script :: "byte \<Rightarrow> int \<Rightarrow> (nat \<times> peer_message list \<times> bytes) list \<Rightarrow> bytes" where
  "peer_script e tot rs =
     concat (map (\<lambda>(i, ms, data). wire ms @ frame (extended_message e (reply_payload i tot data))) rs)"

definition fair_reply :: "byte \<Rightarrow> int \<Rightarrow> nat \<times> peer_message list \<times> bytes \<Rightarrow> bool" where
  "fair_reply e tot = (\<lambda>(i, ms, data).
     (\<forall>m \<in> set ms. unrelated e m) \<and> length ms < 4096 \<and>
     2 + length (reply_payload i tot data) \<le> max_message \<and> i < 2 ^ 63 \<and> data \<noteq> [])"

lemma request_pieces_reply:
  assumes "sk_tx s = []" "sk_stream s = peer_script e tot rs @ r" "\<forall>x \<in> set rs. fair_reply e tot x"
    "- (2 ^ 63) \<le> tot" "tot < 2 ^ 63"
  shows "\<exists>s'. request_pieces (map fst rs) e d s =
     Ok (True, d\<lparr>md_pieces := foldl (\<lambda>ps (i, _, data). ps[i := data]) (md_pieces d) rs\<rparr>, s')"
  using assms
proof (induction rs arbitrary: d s)
  case (Cons x rs)
  obtain i ms data where x: "x = (i, ms, data)" by (metis surj_pair)
  have f: "\<forall>m \<in> set ms. unrelated e m" "length ms < 4096" "i < 2 ^ 63" "data \<noteq> []"
    "2 + length (reply_payload i tot data) \<le> max_message"
    using Cons.prems(3) x by (auto simp: fair_reply_def)
  have "sk_stream s = wire ms @ frame (extended_message e (reply_payload i tot data)) @ (peer_script e tot rs @ r)"
    using Cons.prems(2) x by (simp add: peer_script_def)
  from request_piece_reply [OF Cons.prems(1) this f(1,2,5,3) Cons.prems(4,5) f(4)]
  obtain s1 where s1: "request_piece i e d s = Ok (Some (d\<lparr>md_pieces := (md_pieces d)[i := data]\<rparr>), s1)"
    "sk_stream s1 = peer_script e tot rs @ r" "sk_tx s1 = []" by blast
  from Cons.IH [OF s1(3,2) _ Cons.prems(4,5), of "d\<lparr>md_pieces := (md_pieces d)[i := data]\<rparr>"] Cons.prems(3) s1(1) x
  show ?case by auto
qed simp

lemma foldl_replies:
  "length ps = length rs + k \<Longrightarrow> map fst rs = [k..<k + length rs] \<Longrightarrow>
   foldl (\<lambda>ps (i, _, data). ps[i := data]) ps rs = take k ps @ map (\<lambda>(_, _, data). data) rs"
proof (induction rs arbitrary: ps k)
  case (Cons x rs)
  obtain i ms data where x: "x = (i, ms, data)" by (metis surj_pair)
  have i: "i = k" "map fst rs = [Suc k..<Suc k + length rs]"
    using Cons.prems(2) x by (simp_all add: upt_conv_Cons del: upt_Suc)
  have "take (Suc k) (ps[k := data]) = take k ps @ [data]"
    using Cons.prems(1) by (simp add: take_Suc_conv_app_nth)
  with Cons.IH [of "ps[k := data]" "Suc k"] Cons.prems(1) i x show ?case by simp
qed simp

lemma requestMetadata_completes:
  assumes "sk_tx s = []" "sk_stream s = peer_script (word_of_int extId) tot rs @ r"
    "\<forall>x \<in> set rs. fair_reply (word_of_int extId) tot x" "- (2 ^ 63) \<le> tot" "tot < 2 ^ 63"
    "map fst rs = [0..<nat (md_numPieces d)]" "length (md_pieces d) = nat (md_numPieces d)"
    "concat (map (\<lambda>(_, _, data). data) rs) = info" "int (length info) = md_size d" "length info < 2 ^ 31"
    "sha1_str SHA1 info = mInfoHashRaw (md_magnet d)"
  shows "\<exists>d' s'. requestMetadata SHA1 extId d s = Ok (True, d', s') \<and> md_complete d' \<and>
    md_metadata d' = str_of_bytes info"
proof -
  have len: "length rs = nat (md_numPieces d)"
    using assms(6) by (metis length_map length_upt minus_nat.diff_0)
  obtain s' where "request_pieces [0..<nat (md_numPieces d)] (word_of_int extId) d s =
     Ok (True, d\<lparr>md_pieces := foldl (\<lambda>ps (i, _, data). ps[i := data]) (md_pieces d) rs\<rparr>, s')"
    using request_pieces_reply [OF assms(1-5), of d] assms(6) by auto
  moreover have "foldl (\<lambda>ps (i, _, data). ps[i := data]) (md_pieces d) rs = map (\<lambda>(_, _, data). data) rs"
    using foldl_replies [of "md_pieces d" rs 0] assms(6,7) len by simp
  moreover have "to_signed 32 (int (length info)) = md_size d"
    using assms(9,10) by (simp add: to_signed_id)
  ultimately show ?thesis using assms(8,11)
    by (simp add: requestMetadata_def finish_metadata_def sha1_str_def)
qed

end
