(* ===== verification/Cli.thy ===== *)
theory Cli
  imports Magnet Torrent Metadata Downloader_Inv
begin

text \<open>
  Models \<open>src/main.cpp\<close>: the command line, the torrent built from a magnet link's metadata, and
  the run of the program: its result, and what it prints before the download, with the error messages.
\<close>

section \<open>Arguments\<close>

record cli_options =
  co_input :: string
  co_savePath :: string
  co_maxPeers :: int
  co_refreshTrackers :: bool
  co_verbose :: bool
  co_overwrite :: bool

definition default_options :: cli_options where
  "default_options = \<lparr>co_input = [], co_savePath = ''.'', co_maxPeers = 30, co_refreshTrackers = True,
     co_verbose = False, co_overwrite = False\<rparr>"

text \<open>\<open>-h\<close> ends the program with 0 at once; an error has its message, empty for the usage text.\<close>

datatype 'a args = Parsed 'a | Help | ArgError string

text \<open>The chain of comparisons that tells what an argument is.\<close>

datatype option_arg =
  OptHelp | OptDir | OptMaxPeers | OptNoRefresh | OptOverwrite | OptVerbose | OptUnknown | OptPositional

definition option_arg :: "string \<Rightarrow> option_arg" where
  "option_arg arg =
     (if arg = ''-h'' \<or> arg = ''--help'' then OptHelp
      else if arg = ''-o'' \<or> arg = ''--download-dir'' then OptDir
      else if arg = ''--max-peers'' then OptMaxPeers
      else if arg = ''--no-tracker-refresh'' then OptNoRefresh
      else if arg = ''--overwrite'' then OptOverwrite
      else if arg = ''-v'' \<or> arg = ''--verbose'' then OptVerbose
      else if arg \<noteq> [] \<and> hd arg = CHR ''-'' then OptUnknown
      else OptPositional)"

definition parse_max_peers :: "string \<Rightarrow> string + int" where
  "parse_max_peers n =
     (case stoi n of
        Inl _ \<Rightarrow> Inl (''Error: invalid --max-peers value: '' @ n)
      | Inr v \<Rightarrow> if v < 1 \<or> 500 < v then Inl ''Error: --max-peers must be between 1 and 500'' else Inr v)"

fun parse_options :: "string list \<Rightarrow> cli_options \<Rightarrow> string list \<Rightarrow> (cli_options \<times> string list) args" where
  "parse_options [] opts positional = Parsed (opts, positional)"
| "parse_options (arg # rest) opts positional =
     (case option_arg arg of
        OptHelp \<Rightarrow> Help
      | OptDir \<Rightarrow>
          (case rest of
             [] \<Rightarrow> ArgError (''Error: '' @ arg @ '' requires a directory argument'')
           | d # rest' \<Rightarrow> parse_options rest' (opts\<lparr>co_savePath := d\<rparr>) positional)
      | OptMaxPeers \<Rightarrow>
          (case rest of
             [] \<Rightarrow> ArgError ''Error: --max-peers requires a number''
           | n # rest' \<Rightarrow>
               (case parse_max_peers n of
                  Inl e \<Rightarrow> ArgError e
                | Inr v \<Rightarrow> parse_options rest' (opts\<lparr>co_maxPeers := v\<rparr>) positional))
      | OptNoRefresh \<Rightarrow> parse_options rest (opts\<lparr>co_refreshTrackers := False\<rparr>) positional
      | OptOverwrite \<Rightarrow> parse_options rest (opts\<lparr>co_overwrite := True\<rparr>) positional
      | OptVerbose \<Rightarrow> parse_options rest (opts\<lparr>co_verbose := True\<rparr>) positional
      | OptUnknown \<Rightarrow> ArgError (''Error: unknown option: '' @ arg)
      | OptPositional \<Rightarrow> parse_options rest opts (positional @ [arg]))"

definition parseArgs :: "string list \<Rightarrow> cli_options args" where
  "parseArgs argv =
     (case parse_options argv default_options [] of
        Parsed (opts, []) \<Rightarrow> ArgError []
      | Parsed (opts, [input]) \<Rightarrow> Parsed (opts\<lparr>co_input := input\<rparr>)
      | Parsed (opts, [input, dir]) \<Rightarrow> Parsed (opts\<lparr>co_input := input, co_savePath := dir\<rparr>)
      | Parsed (opts, _) \<Rightarrow> ArgError ''Error: too many arguments''
      | Help \<Rightarrow> Help
      | ArgError e \<Rightarrow> ArgError e)"

text \<open>\<open>printUsage\<close>; the program's name is \<open>argv[0]\<close>.\<close>

definition quote :: string where
  "quote = [char_of (34 :: nat)]"

definition printUsage :: "string \<Rightarrow> string list" where
  "printUsage program =
     [''Usage: '' @ program @ '' [options] <torrent_file|magnet_link> [output_directory]'',
      [],
      ''Gush - A minimal BitTorrent client'',
      [],
      ''Arguments:'',
      ''  torrent_file      Path to the .torrent file'',
      ''  magnet_link       Magnet link (magnet:?xt=urn:btih:...)'',
      ''  output_directory  Directory to save downloaded files (default: current directory)'',
      [],
      ''Options:'',
      ''  -o, --download-dir <dir>   Directory to save downloaded files'',
      ''      --max-peers <n>        Maximum concurrent peer connections (default: 30)'',
      ''      --no-tracker-refresh   Do not fetch tracker lists from the internet'',
      ''      --overwrite            Discard existing output instead of resuming'',
      ''  -v, --verbose              Verbose logging (tracker/peer details)'',
      ''  -h, --help                 Show this help'',
      [],
      ''Examples:'',
      ''  '' @ program @ '' ubuntu-22.04.torrent ~/Downloads'',
      ''  '' @ program @ '' -o ~/Downloads --max-peers 50 '' @ quote @ ''magnet:?xt=urn:btih:HASH'' @ quote]"

definition isMagnetLink :: "string \<Rightarrow> bool" where
  "isMagnetLink input = (8 \<le> length input \<and> take 8 input = ''magnet:?'')"

section \<open>The torrent\<close>

definition printInfo :: "torrent_info \<Rightarrow> string list" where
  "printInfo t =
     [''Torrent Information:'',
      ''  Name:         '' @ tName t,
      ''  Size:         '' @ formatBytes (totalLength t),
      ''  Pieces:       '' @ dec_nat (numPieces t) @ '' x '' @ formatBytes (tPieceLength t),
      ''  Files:        '' @ dec_nat (if isMultiFile t then length (tFiles t) else 1),
      ''  Trackers:     '' @ dec_nat (length (tAnnounceList t)),
      ''  Info Hash:    '' @ toHex (tInfoHash t)] @
     (if tComment t = [] then [] else [''  Comment:      '' @ tComment t]) @
     (if tCreatedBy t = [] then [] else [''  Created By:   '' @ tCreatedBy t]) @ [[]]"

definition createTorrentFromMetadata :: "(nat \<Rightarrow> nat) \<Rightarrow> magnet_link \<Rightarrow> string \<Rightarrow>
    (load_error, torrent_info) outcome" where
  "createTorrentFromMetadata rnd magnet metadata =
     (let t0 = empty_torrent\<lparr>tInfoHash := mInfoHashRaw magnet, tPeerId := generatePeerId rnd,
                 tAnnounceList := mTrackers magnet\<rparr> in
      case parse metadata of
        Ok (BDict d) \<Rightarrow>
          (case read_info_dict ''Invalid metadata: '' d t0 of
             Inl e \<Rightarrow> Throw (RuntimeError e)
           | Inr t \<Rightarrow>
               let t1 = (if tName t = [] \<and> mDisplayName magnet \<noteq> [] then t\<lparr>tName := mDisplayName magnet\<rparr> else t) in
               (case validateTorrentInfo t1 of
                  Inl e \<Rightarrow> Throw (RuntimeError e)
                | Inr _ \<Rightarrow> Ok t1))
      | Ok _ \<Rightarrow> Throw (RuntimeError ''Invalid metadata: root is not a dictionary'')
      | Throw e \<Rightarrow> Throw (BencodeError e)
      | Hang \<Rightarrow> Hang)"

section \<open>The run\<close>

text \<open>
  What the program meets: random numbers, the contents of the torrent file, the file system,
  the networks of the metadata search and of the download, and when a stop is requested while
  existing files are being verified. The whole run has one clock reading for the constructor.
\<close>

record main_env =
  en_rnd :: "nat \<Rightarrow> nat"
  en_file :: "string \<Rightarrow> string option"
  en_fs :: fs
  en_metadata :: md_env
  en_loop :: loop_env
  en_stopped :: "nat \<Rightarrow> bool"
  en_now :: int

text \<open>The torrent to download, or \<open>None\<close> after an error that ends the program with 1.\<close>

definition main_torrent :: "(bytes \<Rightarrow> bytes) \<Rightarrow> main_env \<Rightarrow> string \<Rightarrow> (load_error, torrent_info option) outcome" where
  "main_torrent SHA1 env input =
     (if isMagnetLink input then
        let magnet = parseMagnetLink input in
        if \<not> isValid magnet then Ok None
        else case downloadMetadata SHA1 (en_metadata env) magnet of
          Ok metadata \<Rightarrow>
            if metadata = [] then Ok None
            else obind (createTorrentFromMetadata (en_rnd env) magnet metadata) (\<lambda>t. Ok (Some t))
        | Throw e \<Rightarrow> Throw (BencodeError e)
        | Hang \<Rightarrow> Hang
      else obind (loadTorrent SHA1 (en_rnd env) input (en_file env input)) (\<lambda>t. Ok (Some t)))"

definition main_options :: "cli_options \<Rightarrow> download_options" where
  "main_options opts = \<lparr>op_maxPeers = co_maxPeers opts, op_maxRequests = 5,
     op_refreshTrackers = co_refreshTrackers opts, op_overwrite = co_overwrite opts\<rparr>"

text \<open>
  The download from the constructor to \<open>stop\<close>: the loop runs to its end on its environment,
  unless \<open>start\<close> did not launch it.
\<close>

definition main_download :: "(bytes \<Rightarrow> bytes) \<Rightarrow> main_env \<Rightarrow> cli_options \<Rightarrow> torrent_info \<Rightarrow>
    (berror, downloader) outcome" where
  "main_download SHA1 env opts t =
     (let (_, w) = createDirectory (co_savePath opts) (en_fs env);
          dl = dl_new t (co_savePath opts) (main_options opts) w (en_now env) in
      case start SHA1 (en_stopped env) dl of
        (False, dl1) \<Rightarrow> Ok (stop dl1)
      | (True, dl1) \<Rightarrow> obind (downloadLoop SHA1 (en_loop env) dl1) (\<lambda>dl2. Ok (stop dl2)))"

text \<open>
  What is printed until the download starts. \<open>say\<close> is a line on \<open>std::cout\<close> and \<open>complain\<close> one on
  \<open>std::cerr\<close>; the logger has both and the level \<open>-v\<close> sets. What the metadata search and
  the download log in between is left out.
\<close>

definition say :: "string list \<Rightarrow> logger \<Rightarrow> logger" where
  "say ls w = w\<lparr>cout_lines := cout_lines w @ ls\<rparr>"

definition complain :: "string list \<Rightarrow> logger \<Rightarrow> logger" where
  "complain ls w = w\<lparr>cerr_lines := cerr_lines w @ ls\<rparr>"

definition banner :: "string list" where
  "banner = [''Gush - BitTorrent Client MVP'', ''============================='', []]"

definition magnet_report :: "magnet_link \<Rightarrow> string list" where
  "magnet_report m =
     [''Magnet link parsed successfully'', ''  Info Hash: '' @ mInfoHash m] @
     (if mDisplayName m = [] then [] else [''  Name:      '' @ mDisplayName m]) @
     (if mTrackers m = [] then [] else [''  Trackers:  '' @ dec_nat (length (mTrackers m))]) @
     [[], ''Downloading metadata from peers (BEP 9)...'']"

definition metadata_report :: "string \<Rightarrow> string list" where
  "metadata_report metadata =
     [''Metadata downloaded successfully ('' @ formatBytes (int (length metadata)) @ '')'', []]"

fun error_what :: "load_error \<Rightarrow> string" where
  "error_what (RuntimeError e) = e"
| "error_what (BencodeError b) = what b"

definition report_error :: "load_error \<Rightarrow> logger \<Rightarrow> logger" where
  "report_error e = log_message LogError (''Error: '' @ error_what e)"

definition torrent_output :: "(bytes \<Rightarrow> bytes) \<Rightarrow> main_env \<Rightarrow> string \<Rightarrow> logger \<Rightarrow> logger" where
  "torrent_output SHA1 env input w =
     (if isMagnetLink input then
        let magnet = parseMagnetLink input; w1 = say [''Parsing magnet link: '' @ input] w in
        if \<not> isValid magnet then log_message LogError ''Invalid magnet link'' w1
        else let w2 = say (magnet_report magnet) w1 in
          (case downloadMetadata SHA1 (en_metadata env) magnet of
             Ok [] \<Rightarrow>
               log_message LogError ''No usable peers were found through trackers or DHT.''
                 (log_message LogError ''Failed to download metadata from peers'' w2)
           | Ok metadata \<Rightarrow> say (metadata_report metadata) w2
           | _ \<Rightarrow> w2)
      else say [''Loading torrent: '' @ input] w)"

definition starting_lines :: "string \<Rightarrow> string list" where
  "starting_lines savePath =
     [''Starting download to: '' @ savePath, ''Connecting to tracker and peers...'', []]"

definition main_output :: "(bytes \<Rightarrow> bytes) \<Rightarrow> main_env \<Rightarrow> string \<Rightarrow> string list \<Rightarrow> logger \<Rightarrow> logger" where
  "main_output SHA1 env program argv w =
     (case parseArgs argv of
        Help \<Rightarrow> say (printUsage program) w
      | ArgError e \<Rightarrow> if e = [] then say (printUsage program) w else complain [e] w
      | Parsed opts \<Rightarrow>
          let w1 = say banner (setLogLevel (if co_verbose opts then LogDebug else LogInfo) w);
              w2 = torrent_output SHA1 env (co_input opts) w1 in
          (case main_torrent SHA1 env (co_input opts) of
             Ok (Some t) \<Rightarrow> say (printInfo t @ starting_lines (co_savePath opts)) w2
           | Throw e \<Rightarrow> report_error e w2
           | _ \<Rightarrow> w2))"

text \<open>
  The exit code, and the downloader at the end if there was one. An exception before the
  download ends the program with 1; one in the download's thread would abort it.
\<close>

datatype main_result = Exit int "downloader option" | Aborted | NeverEnds

definition main :: "(bytes \<Rightarrow> bytes) \<Rightarrow> main_env \<Rightarrow> string list \<Rightarrow> main_result" where
  "main SHA1 env argv =
     (case parseArgs argv of
        Help \<Rightarrow> Exit 0 None
      | ArgError _ \<Rightarrow> Exit 1 None
      | Parsed opts \<Rightarrow>
          (case main_torrent SHA1 env (co_input opts) of
             Ok None \<Rightarrow> Exit 1 None
           | Throw _ \<Rightarrow> Exit 1 None
           | Hang \<Rightarrow> NeverEnds
           | Ok (Some t) \<Rightarrow>
               (case main_download SHA1 env opts t of
                  Ok dl \<Rightarrow> Exit 0 (Some dl)
                | Throw _ \<Rightarrow> Aborted
                | Hang \<Rightarrow> NeverEnds)))"

section \<open>While the download runs\<close>

text \<open>The handler of \<open>SIGINT\<close> and \<open>SIGTERM\<close>: \<open>g_interrupt\<close> and \<open>g_downloader\<close>, which is null before the download.\<close>

definition signalHandler :: "bool \<times> downloader option \<Rightarrow> bool \<times> downloader option" where
  "signalHandler = (\<lambda>(interrupt, dl). (True, map_option requestStop dl))"

text \<open>Whether the main thread goes on waiting.\<close>

definition main_waits :: "bool \<Rightarrow> downloader \<Rightarrow> bool" where
  "main_waits interrupt dl = (dl_running dl \<and> \<not> interrupt \<and> \<not> isComplete dl)"

definition percent_text :: "rat \<Rightarrow> string" where
  "percent_text p =
     (case quotient_of p of (n, d) \<Rightarrow>
        let t = round_half_even (1000 * n) d in dec_int (t div 10) @ ''.'' @ [digit_char (nat (t mod 10))])"

definition progress_line :: "download_stats \<Rightarrow> string" where
  "progress_line st =
     [char_of (13 :: nat)] @ ''Progress: '' @ percent_text (st_progress st) @ ''% '' @
     ''Downloaded: '' @ formatBytes (st_downloaded st) @ '' / '' @ formatBytes (st_totalLength st) @ '' '' @
     (if 0 < st_currentSpeed st then ''Speed: '' @ formatBytes \<lfloor>st_currentSpeed st\<rfloor> @ ''/s ''
      else ''Speed: stalled '') @
     ''Peers: '' @ dec_int (st_activePeers st) @ ''/'' @ dec_int (st_connectedPeers st)"

definition final_message :: "string \<Rightarrow> downloader \<Rightarrow> string list" where
  "final_message savePath dl =
     (if isComplete dl then [''Download completed successfully!'', ''Files saved to: '' @ savePath]
      else [''Download stopped.''])"

text \<open>After a signal neither the main thread nor the loop goes on.\<close>

lemma signalHandler_stops:
  assumes "signalHandler (i, Some dl) = (i', Some dl')"
  shows "\<not> main_waits i' dl'" "download_turns SHA1 envs lv dl' = Ok (lv, dl')"
proof -
  have dl': "dl' = requestStop dl" "i'" using assms by (auto simp: signalHandler_def)
  then show "\<not> main_waits i' dl'" by (simp add: main_waits_def)
  show "download_turns SHA1 envs lv dl' = Ok (lv, dl')"
    by (cases envs) (simp_all add: dl' requestStop_def)
qed

text \<open>The text of a complete download is 100.0%.\<close>

lemma percent_text_1: "percent_text 1 = ''100.0''"
  by (simp add: percent_text_def round_half_even_def dec_int_def dec_nat.simps digit_char_def char_of_def bit_0)

section \<open>What is printed\<close>

text \<open>
  A run says why it fails: it exits with 1 only after a message on \<open>std::cerr\<close>, the usage text
  being the only exception; a run that goes on to the download prints none before it.
\<close>

lemma cerr_say [simp]: "cerr_lines (say ls w) = cerr_lines w"
  by (simp add: say_def)

lemma cerr_setLogLevel [simp]: "cerr_lines (setLogLevel l w) = cerr_lines w"
  by (simp add: setLogLevel_def)

lemma cerr_logError [simp]:
  "cerr_lines (log_message LogError m w) = cerr_lines w @ [''[error] '' @ m]"
  by (simp add: log_message_def)

lemma cerr_report_error [simp]:
  "cerr_lines (report_error e w) = cerr_lines w @ [''[error] Error: '' @ error_what e]"
  by (simp add: report_error_def)

lemma cerr_torrent_output:
  "main_torrent SHA1 env input = Ok (Some t) \<Longrightarrow> cerr_lines (torrent_output SHA1 env input w) = cerr_lines w"
  "main_torrent SHA1 env input = Ok None \<Longrightarrow>
     length (cerr_lines w) < length (cerr_lines (torrent_output SHA1 env input w))"
  "length (cerr_lines w) \<le> length (cerr_lines (torrent_output SHA1 env input w))"
  by (auto simp: main_torrent_def torrent_output_def Let_def split: if_splits outcome.splits list.splits)

lemma parse_max_peers_error: "parse_max_peers n = Inl e \<Longrightarrow> \<exists>m. e = ''Error: '' @ m"
  by (auto simp: parse_max_peers_def split: sum.splits if_splits)

lemma parse_options_error: "parse_options argv opts ps = ArgError e \<Longrightarrow> \<exists>m. e = ''Error: '' @ m"
proof (induction argv opts ps rule: parse_options.induct)
  case (2 arg rest opts ps)
  show ?case
  proof (cases "option_arg arg")
    case OptDir
    then show ?thesis using "2.prems" "2.IH"(1) by (cases rest) auto
  next
    case OptMaxPeers
    show ?thesis
    proof (cases rest)
      case (Cons n rest')
      with OptMaxPeers "2.prems" "2.IH"(2) parse_max_peers_error [of n e] show ?thesis
        by (cases "parse_max_peers n") auto
    qed (use OptMaxPeers "2.prems" in auto)
  qed (use "2.prems" "2.IH"(3-6) in auto)
qed simp

lemma parseArgs_Help: "parseArgs argv = Help \<longleftrightarrow> parse_options argv default_options [] = Help"
  by (auto simp: parseArgs_def split: args.splits list.splits)

lemma parseArgs_error:
  assumes "parseArgs argv = ArgError e"
  obtains opts where "parse_options argv default_options [] = Parsed (opts, [])" "e = []"
  | m where "\<forall>opts. parse_options argv default_options [] \<noteq> Parsed (opts, [])" "e = ''Error: '' @ m"
proof (cases "parse_options argv default_options []")
  case (Parsed r)
  obtain opts qs where r: "r = (opts, qs)" by (cases r)
  with Parsed assms have "qs = [] \<and> e = [] \<or> qs \<noteq> [] \<and> e = ''Error: '' @ ''too many arguments''"
    by (auto simp: parseArgs_def split: list.splits)
  then show thesis using that(1) [of opts] that(2) [of "''too many arguments''"] Parsed r by (elim disjE) simp_all
next
  case Help
  with assms show thesis by (simp add: parseArgs_def)
next
  case (ArgError e')
  with assms have "e' = e" by (simp add: parseArgs_def)
  obtain m where "e' = ''Error: '' @ m" using parse_options_error [OF ArgError] by (rule exE)
  with that(2) [of m] ArgError \<open>e' = e\<close> show thesis by simp
qed

lemma cerr_main_output:
  "main SHA1 env argv = Exit n None \<Longrightarrow> parseArgs argv = Parsed opts \<Longrightarrow>
     n = 1 \<and> length (cerr_lines w) < length (cerr_lines (main_output SHA1 env program argv w))"
  "main SHA1 env argv = Exit n (Some dl) \<Longrightarrow> n = 0 \<and> cerr_lines (main_output SHA1 env program argv w) = cerr_lines w"
  using cerr_torrent_output(2) [where w = "say banner (setLogLevel l w)" for l]
    cerr_torrent_output(3) [where w = "say banner (setLogLevel l w)" for l]
  by (auto simp: main_def main_output_def complain_def Let_def less_Suc_eq_le cerr_torrent_output(1)
      split: args.splits outcome.splits option.splits)

lemma main_output_error:
  assumes "main SHA1 env argv = Exit n None"
  shows "case parse_options argv default_options [] of
      Help \<Rightarrow> n = 0 \<and> main_output SHA1 env program argv w = say (printUsage program) w
    | Parsed (_, []) \<Rightarrow> n = 1 \<and> main_output SHA1 env program argv w = say (printUsage program) w
    | ArgError e \<Rightarrow> n = 1 \<and> main_output SHA1 env program argv w = complain [e] w \<and> (\<exists>m. e = ''Error: '' @ m)
    | _ \<Rightarrow> n = 1 \<and> length (cerr_lines w) < length (cerr_lines (main_output SHA1 env program argv w))"
proof (cases "parseArgs argv")
  case (Parsed opts)
  then have "\<exists>r. parse_options argv default_options [] = Parsed r \<and> snd r \<noteq> []"
    by (auto simp: parseArgs_def split: args.splits list.splits)
  with cerr_main_output(1) [OF assms Parsed] show ?thesis by (auto split: list.splits)
next
  case Help
  with assms have "n = 0" "main_output SHA1 env program argv w = say (printUsage program) w"
    by (simp_all add: main_def main_output_def)
  moreover have "parse_options argv default_options [] = Help" using Help by (simp only: parseArgs_Help)
  ultimately show ?thesis by simp
next
  case (ArgError e)
  with assms have n: "n = 1" by (simp add: main_def)
  from ArgError show ?thesis
  proof (cases rule: parseArgs_error)
    case (1 opts)
    with ArgError n show ?thesis by (simp add: main_output_def)
  next
    case (2 m)
    with ArgError n show ?thesis
      by (auto simp: main_output_def parseArgs_def complain_def split: args.splits list.splits)
  qed
qed

section \<open>What the command line accepts\<close>

lemma parse_max_peers_range: "parse_max_peers n = Inr v \<Longrightarrow> 1 \<le> v \<and> v \<le> 500"
  by (auto simp: parse_max_peers_def split: sum.splits if_splits)

lemma parse_options_maxPeers:
  "parse_options argv opts ps = Parsed (opts', qs) \<Longrightarrow> 1 \<le> co_maxPeers opts \<Longrightarrow> co_maxPeers opts \<le> 500 \<Longrightarrow>
   1 \<le> co_maxPeers opts' \<and> co_maxPeers opts' \<le> 500"
proof (induction argv opts ps rule: parse_options.induct)
  case (2 arg rest opts ps)
  show ?case
  proof (cases "option_arg arg")
    case OptMaxPeers
    with 2 show ?thesis
      by (auto split: list.splits sum.splits dest: parse_max_peers_range)
  qed (use 2 in \<open>auto split: list.splits\<close>)
qed simp

lemma parseArgs_maxPeers:
  "parseArgs argv = Parsed opts \<Longrightarrow> 1 \<le> co_maxPeers opts \<and> co_maxPeers opts \<le> 500"
  by (auto simp: parseArgs_def default_options_def split: args.splits list.splits
      dest!: parse_options_maxPeers)

lemma read_info_dict_keeps:
  "read_info_dict pfx d t = Inr t' \<Longrightarrow> tInfoHash t' = tInfoHash t \<and> tAnnounceList t' = tAnnounceList t"
  by (auto simp: read_info_dict_def Let_def split: option.splits bval.splits if_splits sum.splits)

lemma createTorrentFromMetadata_valid:
  assumes "createTorrentFromMetadata rnd m md = Ok t"
  shows "valid_torrent t" "tInfoHash t = mInfoHashRaw m" "tAnnounceList t = mTrackers m"
proof -
  from assms obtain d t0 where t0: "read_info_dict ''Invalid metadata: '' d (empty_torrent\<lparr>tInfoHash := mInfoHashRaw m,
      tPeerId := generatePeerId rnd, tAnnounceList := mTrackers m\<rparr>) = Inr t0"
    and t: "t = (if tName t0 = [] \<and> mDisplayName m \<noteq> [] then t0\<lparr>tName := mDisplayName m\<rparr> else t0)"
    "validateTorrentInfo t = Inr ()"
    by (auto simp: createTorrentFromMetadata_def Let_def split: outcome.splits bval.splits sum.splits if_splits)
  from t(2) show "valid_torrent t" by (simp add: validateTorrentInfo_iff)
  from read_info_dict_keeps [OF t0] t(1)
  show "tInfoHash t = mInfoHashRaw m" "tAnnounceList t = mTrackers m" by auto
qed

section \<open>What the program leaves behind\<close>

text \<open>The torrents \<open>main\<close> downloads are valid ones.\<close>

lemma main_torrent_valid: "main_torrent SHA1 env input = Ok (Some t) \<Longrightarrow> valid_torrent t"
  by (auto simp: main_torrent_def Let_def dest: createTorrentFromMetadata_valid(1) loadTorrent_valid
      split: if_splits outcome.splits)

lemma stop_core: "core (stop dl) = core dl"
  by (simp add: stop_def core_def)

lemma main_download_steady:
  assumes "main_download SHA1 env opts t = Ok dl"
  shows "announce_free (dl_torrent dl) = announce_free t"
proof -
  obtain ok w where cd: "createDirectory (co_savePath opts) (en_fs env) = (ok, w)" by (metis surj_pair)
  let ?new = "dl_new t (co_savePath opts) (main_options opts) w (en_now env)"
  obtain launched dl1 where st: "start SHA1 (en_stopped env) ?new = (launched, dl1)" by (metis surj_pair)
  have "dl_torrent dl1 = t" using start_keeps(1) [OF st] by (simp add: dl_new_def)
  then show ?thesis using assms cd st
    by (cases launched)
       (auto simp: main_download_def Let_def stop_def steady_def dest!: dl_path_steady [OF downloadLoop_path])
qed

lemma main_download_complete:
  assumes "main_download SHA1 env opts t = Ok dl" "isComplete dl" "geometry t" "0 < numPieces t"
    "distinct (map out_key (dl_files dl))"
  shows "good SHA1 dl"
proof -
  obtain ok w where cd: "createDirectory (co_savePath opts) (en_fs env) = (ok, w)" by (metis surj_pair)
  let ?new = "dl_new t (co_savePath opts) (main_options opts) w (en_now env)"
  obtain launched dl1 where st: "start SHA1 (en_stopped env) ?new = (launched, dl1)" by (metis surj_pair)
  show ?thesis
  proof (cases launched)
    case False
    with assms(1) cd st have "dl = stop dl1" by (simp add: main_download_def Let_def)
    then have c: "core dl = core dl1" by (simp add: stop_core)
    have "isComplete dl1" using assms(2) core_fields(1,4) [OF c] by (simp add: isComplete_def)
    then have "good SHA1 dl1"
      using start_complete [OF assms(3) st] assms(4,5) core_fields(7) [OF c] by simp
    with good_core [OF c] show ?thesis by simp
  next
    case True
    with assms(1) cd st obtain dl2 where l: "downloadLoop SHA1 (en_loop env) dl1 = Ok dl2" and "dl = stop dl2"
      by (auto simp: main_download_def Let_def)
    then have c: "core dl = core dl2" by (simp add: stop_core)
    have "dl_files dl2 = dl_files dl1" using dl_path_steady [OF downloadLoop_path [OF l]] by (simp add: steady_def)
    with assms(5) core_fields(7) [OF c] have d: "distinct (map out_key (dl_files dl1))" by simp
    have "start SHA1 (en_stopped env) ?new = (True, dl1)" using st True by simp
    then have "good SHA1 dl1" using ready_new [OF assms(3)] d by (intro start_good)
    moreover have "pool_inv dl1" using start_keeps(2) [OF st] by (simp add: pool_inv_def dl_new_def)
    ultimately have "dl_inv SHA1 dl2"
      using download.star_rel [OF downloadLoop_path [OF l]] by (simp add: dl_inv_def)
    with good_core [OF c] show ?thesis by (simp add: dl_inv_def)
  qed
qed

text \<open>When the program ends with a complete download, every piece on disk has its hash.\<close>

lemma main_complete:
  assumes "main SHA1 env argv = Exit 0 (Some dl)" "isComplete dl" "geometry (dl_torrent dl)"
    "0 < numPieces (dl_torrent dl)" "distinct (map out_key (dl_files dl))" "i < numPieces (dl_torrent dl)"
  shows "verifyPiece SHA1 dl i"
proof -
  from assms(1) obtain opts t where m: "main_download SHA1 env opts t = Ok dl"
    by (auto simp: main_def split: args.splits outcome.splits option.splits)
  have "announce_free (dl_torrent dl) = announce_free t" by (rule main_download_steady [OF m])
  then have "geometry t = geometry (dl_torrent dl)" "numPieces t = numPieces (dl_torrent dl)"
    by (metis geometry_announce(1), metis geometry_announce(4))
  then have "good SHA1 dl" using main_download_complete [OF m assms(2)] assms(3-5) by simp
  with assms(2,6) isComplete_iff [of dl] show ?thesis by (simp add: good_def disk_inv_def)
qed

end
