(* ===== verification/Archive.thy ===== *)
theory Archive
  imports Downloader_Inv
begin

text \<open>
  What a download promises, as an abstract machine: an archive of pieces, to which pieces with
  the right hash are added, one at a time, and in which nothing is ever changed or lost. Every
  operation of the downloader is a number of steps of that machine.
\<close>

section \<open>The abstract machine\<close>

definition right_piece :: "(bytes \<Rightarrow> bytes) \<Rightarrow> torrent_info \<Rightarrow> nat \<Rightarrow> bytes \<Rightarrow> bool" where
  "right_piece SHA1 t i b \<longleftrightarrow> i < numPieces t \<and> int (length b) = pieceSize t i \<and>
     sha1_str SHA1 b = take 20 (drop (i * 20) (tPieces t))"

inductive archive_step :: "(bytes \<Rightarrow> bytes) \<Rightarrow> torrent_info \<Rightarrow> (nat \<rightharpoonup> bytes) \<Rightarrow> (nat \<rightharpoonup> bytes) \<Rightarrow> bool"
  for SHA1 t where
  piece_added: "m i = None \<Longrightarrow> right_piece SHA1 t i b \<Longrightarrow> archive_step SHA1 t m (m(i \<mapsto> b))"

inductive_simps archive_step_simps: "archive_step SHA1 t m m'"

interpretation archive_grows: preserved_relation "archive_step SHA1 t" "(\<subseteq>\<^sub>m)" for SHA1 t
proof unfold_locales
  show "archive_step SHA1 t m m' \<Longrightarrow> m \<subseteq>\<^sub>m m'" for m m'
    by (erule archive_step.cases) (auto simp: map_le_def)
qed (auto intro: map_le_trans)

definition archive_ok :: "(bytes \<Rightarrow> bytes) \<Rightarrow> torrent_info \<Rightarrow> (nat \<rightharpoonup> bytes) \<Rightarrow> bool" where
  "archive_ok SHA1 t m \<longleftrightarrow> (\<forall>i b. m i = Some b \<longrightarrow> right_piece SHA1 t i b)"

interpretation archive_machine: invariant_system "\<lambda>m. m = Map.empty" "archive_step SHA1 t" "archive_ok SHA1 t" for SHA1 t
proof unfold_locales
  show "m = Map.empty \<Longrightarrow> archive_ok SHA1 t m" for m by (simp add: archive_ok_def)
  show "archive_ok SHA1 t m \<Longrightarrow> archive_step SHA1 t m m' \<Longrightarrow> archive_ok SHA1 t m'" for m m'
    by (erule archive_step.cases) (simp add: archive_ok_def)
qed

lemma right_piece_announce [simp]: "right_piece SHA1 (t\<lparr>tAnnounceList := l\<rparr>) = right_piece SHA1 t"
  by (simp add: right_piece_def fun_eq_iff)

lemma announce_only:
  assumes "announce_free t' = announce_free t"
  obtains l where "t' = t\<lparr>tAnnounceList := l\<rparr>"
proof -
  have "t' = (announce_free t')\<lparr>tAnnounceList := tAnnounceList t'\<rparr>" by simp
  also have "\<dots> = t\<lparr>tAnnounceList := tAnnounceList t'\<rparr>" unfolding assms by simp
  finally show thesis by (rule that)
qed

lemma archive_step_announce:
  assumes "announce_free t' = announce_free t"
  shows "archive_step SHA1 t' = archive_step SHA1 t"
proof -
  obtain l where l: "t' = t\<lparr>tAnnounceList := l\<rparr>" by (rule announce_only [OF assms])
  have "archive_step SHA1 t' m m' = archive_step SHA1 t m m'" for m m'
    unfolding l archive_step_simps by (simp only: right_piece_announce)
  then show ?thesis by (intro ext)
qed

section \<open>The downloader's archive\<close>

definition archive :: "downloader \<Rightarrow> nat \<rightharpoonup> bytes" where
  "archive dl i = (if i < numPieces (dl_torrent dl) \<and> dl_hasPiece dl i then readPieceFromDisk dl i else None)"

lemma archive_same:
  assumes "announce_free (dl_torrent dl') = announce_free (dl_torrent dl)" "dl_files dl' = dl_files dl"
    "dl_fs dl' = dl_fs dl" "dl_completed dl' = dl_completed dl"
  shows "archive dl' = archive dl"
proof -
  obtain l where l: "dl_torrent dl' = (dl_torrent dl)\<lparr>tAnnounceList := l\<rparr>" by (rule announce_only [OF assms(1)])
  show ?thesis
    by (simp add: fun_eq_iff archive_def dl_hasPiece_def readPieceFromDisk_def Let_def l assms(2-4))
qed

text \<open>The pieces of the archive of a downloader in order are the right ones.\<close>

lemma archive_entry:
  assumes "good SHA1 dl" "archive dl i = Some b"
  shows "right_piece SHA1 (dl_torrent dl) i b"
proof -
  have i: "i < numPieces (dl_torrent dl)" "dl_hasPiece dl i" "readPieceFromDisk dl i = Some b"
    using assms(2) by (auto simp: archive_def split: if_splits)
  have bk: "books dl" and dk: "disk_inv SHA1 dl" using assms(1) by (auto simp: good_def)
  have "verifyPiece SHA1 dl i" using dk i by (simp add: disk_inv_def)
  then have "sha1_str SHA1 b = take 20 (drop (i * 20) (tPieces (dl_torrent dl)))"
    by (simp add: verifyPiece_def i(3) Let_def split: if_splits)
  moreover have "int (length b) = pieceSize (dl_torrent dl) i"
  proof -
    have "b = take (nat (pieceSize (dl_torrent dl) i)) (drop (piece_start (dl_torrent dl) i) (dl_flat dl))"
      using readPiece_flat [OF booksD(1) [OF bk] _ disk_inv_length [OF dk] i(1)] dk i(3) by (simp add: disk_inv_def)
    moreover have "piece_start (dl_torrent dl) i + nat (pieceSize (dl_torrent dl) i) \<le> length (dl_flat dl)"
      using piece_start_bounds [OF booksD(1) [OF bk] i(1)] pieceSize_bounds(1) [OF booksD(1) [OF bk] i(1)]
        disk_inv_length [OF dk] by linarith
    ultimately show ?thesis using pieceSize_bounds(1) [OF booksD(1) [OF bk] i(1)] by simp
  qed
  ultimately show ?thesis using i(1) by (simp add: right_piece_def)
qed

text \<open>In a complete download every piece is there.\<close>

lemma archive_complete:
  assumes "good SHA1 dl" "isComplete dl"
  shows "dom (archive dl) = {..< numPieces (dl_torrent dl)}"
proof -
  have bk: "books dl" and dk: "disk_inv SHA1 dl" using assms(1) by (auto simp: good_def)
  have "archive dl i \<noteq> None" if "i < numPieces (dl_torrent dl)" for i
    using readPiece_flat [OF booksD(1) [OF bk] _ disk_inv_length [OF dk] that] dk isComplete_iff [OF bk] assms(2) that
    by (simp add: archive_def disk_inv_def)
  then show ?thesis by (auto simp: dom_def) (auto simp: archive_def split: if_splits)
qed

section \<open>The simulation\<close>

definition simulates :: "(bytes \<Rightarrow> bytes) \<Rightarrow> downloader \<Rightarrow> downloader \<Rightarrow> bool" where
  "simulates SHA1 dl dl' \<longleftrightarrow> steady dl dl' \<and>
     (good SHA1 dl \<longrightarrow> good SHA1 dl' \<and> (archive_step SHA1 (dl_torrent dl))\<^sup>*\<^sup>* (archive dl) (archive dl'))"

lemma simulates_refl [simp, intro]: "simulates SHA1 dl dl"
  by (simp add: simulates_def)

lemma simulates_trans [trans]:
  assumes "simulates SHA1 a b" "simulates SHA1 b c"
  shows "simulates SHA1 a c"
proof -
  have "archive_step SHA1 (dl_torrent b) = archive_step SHA1 (dl_torrent a)"
    by (rule archive_step_announce) (use assms(1) in \<open>simp add: simulates_def steady_def\<close>)
  with assms show ?thesis unfolding simulates_def by (metis rtranclp_trans steady_trans)
qed

lemma simulates_quiet:
  "steady dl dl' \<Longrightarrow> dl_fs dl' = dl_fs dl \<Longrightarrow> dl_completed dl' = dl_completed dl \<Longrightarrow>
   (good SHA1 dl \<Longrightarrow> good SHA1 dl') \<Longrightarrow> simulates SHA1 dl dl'"
  using archive_same [of dl' dl] by (simp add: simulates_def steady_def)

lemma simulates_core: "core dl' = core dl \<Longrightarrow> simulates SHA1 dl dl'"
  using core_fields(1,2,7,8) [of dl' dl] good_core [of dl' dl SHA1] by (intro simulates_quiet) (simp_all add: steady_def)

lemma simulates_keeps: "keeps dl dl' \<Longrightarrow> simulates SHA1 dl dl'"
  by (rule simulates_quiet) (auto simp: steady_def keeps_def intro: keeps_good)

lemma readPiece_cong:
  assumes "dl_torrent dl' = dl_torrent dl" "dl_files dl' = dl_files dl" "dl_fs dl' = dl_fs dl"
  shows "readPieceFromDisk dl' i = readPieceFromDisk dl i"
  unfolding readPieceFromDisk_def assms by (rule refl)

text \<open>A block that comes: a step if it is the last of its piece and the hash is right.\<close>

lemma simulates_accept_block:
  assumes "good SHA1 dl" "awaited dl p b (length data)" "off = b * 16384"
  shows "simulates SHA1 dl (accept_block SHA1 now pid p off data dl)"
proof -
  let ?d = "block_recorded now pid p off data dl" and ?t = "dl_torrent dl"
  let ?dl' = "accept_block SHA1 now pid p off data dl"
  have bk: "books dl" and dk: "disk_inv SHA1 dl" using assms(1) by (auto simp: good_def)
  have p: "p < numPieces ?t" using assms(2) by (simp add: awaited_def)
  note aw = awaited_piece [OF bk assms(2)]
  have fit: "int (off + length data) \<le> pieceSize ?t p" using aw(3) assms(3) by simp
  have other: "readPieceFromDisk ?d i = readPieceFromDisk dl i" if "i < numPieces ?t" "i \<noteq> p" for i
    using writePiece_disk(2) [OF bk dk p fit that] readPiece_cong [of ?d "writePiece p off data dl" i] by simp
  have good': "good SHA1 ?dl'" by (rule good_accept_block [OF assms])
  have frame: "dl_torrent ?dl' = ?t" "dl_files ?dl' = dl_files dl" "dl_fs ?dl' = dl_fs ?d"
    by (simp_all add: accept_block_eq Let_def)
  have read: "readPieceFromDisk ?dl' i = readPieceFromDisk ?d i" for i
    by (rule readPiece_cong) (simp_all add: frame)
  have no: "archive dl p = None" using aw(2) by (simp add: archive_def dl_hasPiece_def)
  have at: "archive ?dl' i = archive dl i" if "i \<noteq> p" for i
    using that other by (simp add: archive_def frame read) (auto simp: dl_hasPiece_def accept_block_eq Let_def)
  have "(archive_step SHA1 ?t)\<^sup>*\<^sup>* (archive dl) (archive ?dl')"
  proof (cases "archive ?dl' p")
    case None
    then have "archive ?dl' = archive dl" using at no by (intro ext) metis
    then show ?thesis by simp
  next
    case (Some x)
    then have "archive ?dl' = (archive dl)(p \<mapsto> x)" using at by (intro ext) simp
    moreover have "right_piece SHA1 ?t p x" using archive_entry [OF good' Some] frame(1) by simp
    ultimately show ?thesis using no by (auto intro!: r_into_rtranclp piece_added)
  qed
  then show ?thesis using good' frame by (simp add: simulates_def steady_def)
qed

lemma simulates_pending_subset:
  "set rs \<subseteq> set (dl_pending dl) \<Longrightarrow> simulates SHA1 dl (dl\<lparr>dl_pending := rs\<rparr>)"
  by (rule simulates_keeps [OF keeps_pending_subset])

text \<open>
  The contract of an operation on the downloader that may be repeated, in terms of the relation
  its calls are in.
\<close>

lemma simulates_when_good: "(good SHA1 dl \<Longrightarrow> simulates SHA1 dl dl') \<Longrightarrow> steady dl dl' \<Longrightarrow> simulates SHA1 dl dl'"
  by (auto simp: simulates_def)

lemma simulates_handle_block: "simulates SHA1 dl (handle_block SHA1 now pid payload dl)"
proof (rule simulates_when_good [OF _ tends_steady [OF tends_handle_block]])
  assume g: "good SHA1 dl"
  then have bk: "books dl" by (simp add: good_def)
  have gone: "simulates SHA1 dl (dl\<lparr>dl_pending := remove_first P (dl_pending dl)\<rparr>)" for P
    by (rule simulates_pending_subset [OF remove_first_subset])
  show "simulates SHA1 dl (handle_block SHA1 now pid payload dl)"
  proof (cases rule: handle_block_cases [OF bk, of SHA1 now pid payload, case_names ignored refused known taken])
    case ignored
    then show ?thesis by simp
  next
    case (refused r P)
    show ?thesis unfolding refused(3)
      by (rule simulates_trans [OF simulates_trans [OF gone simulates_keeps [OF keeps_release]] simulates_core]) simp
  next
    case (known r P)
    show ?thesis unfolding known(4) by (rule simulates_trans [OF gone simulates_core]) simp
  next
    case (taken p b off data)
    have "good SHA1 (dl\<lparr>dl_pending := remove_first P (dl_pending dl)\<rparr>)" for P
      by (rule good_pending_subset [OF remove_first_subset g])
    then show ?thesis unfolding taken(3)
      by (intro simulates_trans [OF simulates_trans [OF gone simulates_accept_block [OF _ _ taken(2)]]
            simulates_keeps [OF keeps_cancelDuplicateRequests]])
         (use taken(1) in \<open>simp_all add: awaited_def\<close>)
  qed
qed

lemma simulates_handle_message: "simulates SHA1 dl (handle_message SHA1 now pid msg dl)"
  using simulates_trans [OF simulates_keeps [OF keeps_cancelRequestsForPeer] simulates_core [OF core_upd_stats]]
    simulates_core [OF core_upd_stats] simulates_handle_block
  by (cases "pm_id msg") (auto simp: handle_message_def)

lemma simulates_message_loop: "message_loop SHA1 now pid f msg dl = Ok dl' \<Longrightarrow> simulates SHA1 dl dl'"
proof (induction f arbitrary: msg dl)
  case (Suc f)
  have conn: "simulates SHA1 dl (set_conn pid c dl)" for c by (rule simulates_core) simp
  from Suc show ?case
    by (auto simp: Let_def split: option.splits if_splits
        intro: conn simulates_trans [OF simulates_trans [OF conn simulates_handle_message]])
qed simp

lemma simulates_process_peer: "process_peer SHA1 now a pid dl = Ok (ps, dl') \<Longrightarrow> simulates SHA1 dl dl'"
proof -
  have conn: "simulates SHA1 d (set_conn pid c d)" for c d by (rule simulates_core) simp
  show "process_peer SHA1 now a pid dl = Ok (ps, dl') \<Longrightarrow> simulates SHA1 dl dl'"
    by (auto simp: process_peer_def Let_def takeDiscoveredPeers_def simp del: message_loop.simps
        split: option.splits if_splits dest!: simulates_message_loop
        intro: simulates_trans [OF conn] simulates_trans [OF simulates_trans [OF conn] conn])
qed

lemma simulates_process_peers: "process_peers SHA1 now a pids pex dl = Ok (ps, dl') \<Longrightarrow> simulates SHA1 dl dl'"
  by (induction pids arbitrary: pex dl) (auto dest: simulates_process_peer intro: simulates_trans)

lemma simulates_step:
  assumes "dl_step SHA1 dl dl'"
  shows "simulates SHA1 dl dl'"
  using assms
proof cases
  case (messages now arrived)
  then show ?thesis
    by (auto simp: processPeerMessages_def dest!: simulates_process_peers
        intro: simulates_trans [OF _ simulates_core [OF core_addPeers]])
next
  case (requesting now)
  have "simulates SHA1 dl (requestPieces now dl)"
    by (rule simulates_when_good [OF simulates_keeps [OF keeps_requestPieces] tends_steady [OF tends_requestPieces]])
       (simp add: good_def)
  then show ?thesis by (simp add: requesting)
next
  case (cleaning now)
  show ?thesis unfolding cleaning by (rule simulates_keeps [OF keeps_cleanupTimedOutRequests])
next
  case (refreshing http)
  have "dl_fs (merge_trackers ts ex d) = dl_fs d \<and> dl_completed (merge_trackers ts ex d) = dl_completed d" for ts ex d
    by (induction ts ex d rule: merge_trackers.induct) auto
  then have "dl_fs dl' = dl_fs dl" "dl_completed dl' = dl_completed dl"
    by (simp_all add: refreshing fetchLatestTrackers_def Let_def)
  then show ?thesis
    by (intro simulates_quiet) (auto simp: refreshing intro: good_fetchLatestTrackers tends_steady tends_fetchLatestTrackers)
next
  case (announcing clk env event resp)
  then show ?thesis by (intro simulates_core) (rule core_contact_trackers)
qed (auto intro!: simulates_core simp: core_def requestStop_def core_connectToPeers [unfolded core_def]
      core_updateSpeedStats [unfolded core_def] core_update_endgame [unfolded core_def]
      core_pruneBadPeers [unfolded core_def] core_addPeers [unfolded core_def])

interpretation simulation: preserved_relation "dl_step SHA1" "simulates SHA1" for SHA1
  by unfold_locales (auto intro: simulates_trans simulates_step)

text \<open>Along a path nothing that is complete is lost or changed.\<close>

lemma path_archive:
  assumes "dl_path SHA1 dl dl'" "good SHA1 dl"
  shows "(archive_step SHA1 (dl_torrent dl))\<^sup>*\<^sup>* (archive dl) (archive dl')" "archive dl \<subseteq>\<^sub>m archive dl'"
  using simulation.star_rel [OF assms(1)] assms(2) archive_grows.star_rel by (auto simp: simulates_def)

lemma archive_right:
  assumes "good SHA1 dl" "announce_free t = announce_free (dl_torrent dl)"
  shows "archive_ok SHA1 t (archive dl)"
proof -
  obtain l where "t = (dl_torrent dl)\<lparr>tAnnounceList := l\<rparr>" by (rule announce_only [OF assms(2)])
  then show ?thesis using archive_entry [OF assms(1)] by (simp add: archive_ok_def)
qed

lemma loop_archive:
  assumes "dl_reachable SHA1 dl" "downloadLoop SHA1 env dl = Ok dl'"
  shows "dl_reachable SHA1 dl' \<and> (archive_step SHA1 (dl_torrent dl))\<^sup>*\<^sup>* (archive dl) (archive dl') \<and>
    archive dl \<subseteq>\<^sub>m archive dl' \<and> archive_ok SHA1 (dl_torrent dl) (archive dl')"
proof -
  have path: "dl_path SHA1 dl dl'" by (rule downloadLoop_path [OF assms(2)])
  have r: "dl_reachable SHA1 dl'" by (rule reachable_star [OF path assms(1)])
  have g: "good SHA1 dl" "good SHA1 dl'" using reachable_dl_inv [OF assms(1)] reachable_dl_inv [OF r] by (auto simp: dl_inv_def)
  have "announce_free (dl_torrent dl) = announce_free (dl_torrent dl')"
    using dl_path_steady [OF path] by (simp add: steady_def)
  with archive_right [OF g(2) this] path_archive [OF path g(1)] r show ?thesis by blast
qed

end
