(* ===== verification/In_Flight.thy ===== *)
theory In_Flight
  imports Policy
begin

text \<open>
  No block is forgotten: a block whose flag says it has been requested, and which has not come,
  is in the list of requests, whatever happens to peers and requests in between. The flags
  alone keep a block from being requested again, so a flag left over would block the download.
\<close>

section \<open>Flags and requests\<close>

lemma nth_update: "xs[k := x] ! j = (if j = k \<and> k < length xs then x else xs ! j)"
  by (cases "k < length xs") (simp_all add: list_update_beyond)

definition wanted :: "downloader \<Rightarrow> nat \<Rightarrow> nat \<Rightarrow> bool" where
  "wanted dl p i \<longleftrightarrow> ps_requested (dl_pieces dl ! p) ! i \<and> \<not> ps_received (dl_pieces dl ! p) ! i"

text \<open>Block \<open>i\<close> of piece \<open>p\<close> has a flag of its own.\<close>

definition flagged :: "downloader \<Rightarrow> nat \<Rightarrow> nat \<Rightarrow> bool" where
  "flagged dl p i \<longleftrightarrow> p < length (dl_pieces dl) \<and> i < length (ps_requested (dl_pieces dl ! p)) \<and>
     int i < ps_total (dl_pieces dl ! p)"

definition tracked :: "downloader \<Rightarrow> bool" where
  "tracked dl \<longleftrightarrow> (\<forall>p i. flagged dl p i \<longrightarrow> wanted dl p i \<longrightarrow> in_flight dl p i \<noteq> [])"

lemma tracked_in_flight: "tracked dl \<Longrightarrow> flagged dl p i \<Longrightarrow> wanted dl p i \<Longrightarrow> in_flight dl p i \<noteq> []"
  by (simp add: tracked_def)

lemma in_flight_iff:
  "in_flight dl p i \<noteq> [] \<longleftrightarrow> (\<exists>r \<in> set (dl_pending dl). rq_piece r = p \<and> rq_offset r = block_offset i)"
  by (auto simp: in_flight_def filter_empty_conv)

lemma tracked_same:
  "dl_pieces dl' = dl_pieces dl \<Longrightarrow> dl_pending dl' = dl_pending dl \<Longrightarrow> tracked dl' = tracked dl"
  by (simp add: tracked_def flagged_def wanted_def in_flight_def)

lemma tracked_core: "core dl' = core dl \<Longrightarrow> tracked dl' = tracked dl"
  by (rule tracked_same) (erule core_fields)+

lemma books_flagged:
  "books dl \<Longrightarrow> flagged dl p i \<longleftrightarrow> p < numPieces (dl_torrent dl) \<and> i < blocks_of (dl_torrent dl) p"
  using booksD(3,4) [of dl] by (auto simp: flagged_def piece_ok_def)

section \<open>Requests given up\<close>

lemma release_pieces:
  "dl_pieces (release r dl) = (dl_pieces dl)[rq_piece r := (let st = dl_pieces dl ! rq_piece r in
     if int (rq_offset r div block_size) < ps_total st
     then st\<lparr>ps_requested := (ps_requested st)[rq_offset r div block_size := False]\<rparr> else st)]"
  by (simp add: release_def upd_piece_def Let_def)

lemma release_flagged: "flagged (release r dl) p i = flagged dl p i"
  by (auto simp: flagged_def release_pieces Let_def nth_update)

lemma release_wanted:
  assumes "flagged dl p i"
  shows "wanted (release r dl) p i \<longleftrightarrow> wanted dl p i \<and> \<not> (rq_piece r = p \<and> rq_offset r div block_size = i)"
  using assms by (auto simp: flagged_def wanted_def release_pieces Let_def nth_update)

lemma fold_release_flags:
  assumes "\<And>r d. dl_pieces (f r d) = dl_pieces (release r d)"
  shows "flagged (fold f gs dl) p i = flagged dl p i"
    and "flagged dl p i \<Longrightarrow> wanted (fold f gs dl) p i \<longleftrightarrow>
      wanted dl p i \<and> (\<forall>r \<in> set gs. rq_piece r = p \<longrightarrow> rq_offset r div block_size \<noteq> i)"
proof -
  have fl: "flagged (f r d) p i = flagged d p i" for r d
    using release_flagged [of r d p i] by (simp add: flagged_def assms)
  show "flagged (fold f gs dl) p i = flagged dl p i" by (induction gs arbitrary: dl) (simp_all add: fl)
  show "flagged dl p i \<Longrightarrow> wanted (fold f gs dl) p i \<longleftrightarrow>
      wanted dl p i \<and> (\<forall>r \<in> set gs. rq_piece r = p \<longrightarrow> rq_offset r div block_size \<noteq> i)"
  proof (induction gs arbitrary: dl)
    case (Cons r gs)
    have "wanted (f r dl) p i = wanted (release r dl) p i" by (simp add: wanted_def assms)
    with Cons release_wanted [OF Cons.prems] show ?case by (auto simp: fl)
  qed simp
qed

text \<open>Requests may leave the list when their blocks are no longer wanted.\<close>

lemma tracked_fewer:
  assumes "tracked dl" "books dl"
    "\<And>p i. flagged dl' p i \<Longrightarrow> wanted dl' p i \<Longrightarrow> flagged dl p i \<and> wanted dl p i"
    "\<And>i r. flagged dl' (rq_piece r) i \<Longrightarrow> wanted dl' (rq_piece r) i \<Longrightarrow> rq_offset r = i * 16384 \<Longrightarrow>
      r \<in> set (dl_pending dl) \<Longrightarrow> r \<in> set (dl_pending dl')"
  shows "tracked dl'"
  unfolding tracked_def
proof (intro allI impI)
  fix p i assume *: "flagged dl' p i" "wanted dl' p i"
  with assms(3) have fl: "flagged dl p i" and w: "wanted dl p i" by auto
  obtain r where r: "r \<in> set (dl_pending dl)" "rq_piece r = p" "rq_offset r = block_offset i"
    using tracked_in_flight [OF assms(1) fl w] by (auto simp: in_flight_iff)
  have "block_offset i = i * 16384"
    using fl books_flagged [OF assms(2)] block_offset_eq [OF booksD(1) [OF assms(2)]] by blast
  then show "in_flight dl' p i \<noteq> []" using r assms(4) [of r i] * by (auto simp: in_flight_iff)
qed

text \<open>This is what every operation that gives requests up sees to: it clears their flags.\<close>

lemma tracked_released:
  assumes "tracked dl" "books dl" "\<And>r d. dl_pieces (f r d) = dl_pieces (release r d)"
    "\<And>r d. dl_pending (f r d) = dl_pending d"
  shows "tracked (fold f (filter gone (dl_pending dl)) (drop_requests gone dl))" (is "tracked (fold f ?gs ?d)")
proof (rule tracked_fewer [OF assms(1,2)])
  have d: "flagged ?d p i = flagged dl p i" "wanted ?d p i = wanted dl p i" for p i
    by (simp_all add: flagged_def wanted_def drop_requests_def)
  have pend: "dl_pending (fold f ?gs ?d) = filter (\<lambda>r. \<not> gone r) (dl_pending dl)"
    using fold_pending [of f] assms(4) by (simp add: drop_requests_def)
  have fl: "flagged (fold f ?gs ?d) p i = flagged dl p i" for p i
    by (simp add: fold_release_flags(1) [OF assms(3)] d)
  have w: "wanted (fold f ?gs ?d) p i \<longleftrightarrow> wanted dl p i \<and>
      (\<forall>r \<in> set ?gs. rq_piece r = p \<longrightarrow> rq_offset r div block_size \<noteq> i)" if "flagged dl p i" for p i
    using fold_release_flags(2) [OF assms(3), of ?d p i ?gs] that by (simp add: d)
  fix p i assume "flagged (fold f ?gs ?d) p i" "wanted (fold f ?gs ?d) p i"
  then show "flagged dl p i \<and> wanted dl p i" using fl w by simp
next
  fix i r
  assume *: "flagged (fold f ?gs ?d) (rq_piece r) i" "wanted (fold f ?gs ?d) (rq_piece r) i"
    "rq_offset r = i * 16384" "r \<in> set (dl_pending dl)"
  have fl: "flagged ?d (rq_piece r) i" using *(1) by (simp add: fold_release_flags(1) [OF assms(3)])
  from fold_release_flags(2) [OF assms(3) fl, of ?gs] * have "\<not> gone r" by (auto simp: block_size_def)
  moreover have "dl_pending (fold f ?gs ?d) = filter (\<lambda>r. \<not> gone r) (dl_pending dl)"
    using fold_pending [of f] assms(4) by (simp add: drop_requests_def)
  ultimately show "r \<in> set (dl_pending (fold f ?gs ?d))" using *(4) by simp
qed

lemma tracked_cancelRequestsForPeer:
  "tracked dl \<Longrightarrow> books dl \<Longrightarrow> tracked (cancelRequestsForPeer pid dl)"
  unfolding cancelRequestsForPeer_def Let_def by (rule tracked_released) simp_all

lemma tracked_cleanup: "tracked dl \<Longrightarrow> books dl \<Longrightarrow> tracked (cleanupTimedOutRequests now dl)"
  unfolding cleanupTimedOutRequests_def by (rule tracked_released) simp_all

lemma send_cancel_fields [simp]:
  "dl_pieces (send_cancel r dl) = dl_pieces dl" "dl_pending (send_cancel r dl) = dl_pending dl"
  using core_fields(3,6) [OF core_send_cancel] by auto

lemma tracked_cancelDuplicateRequests:
  "tracked dl \<Longrightarrow> books dl \<Longrightarrow> tracked (cancelDuplicateRequests p off keep dl)"
  unfolding cancelDuplicateRequests_def Let_def
  by (rule tracked_released) (simp_all add: release_pieces)

section \<open>Requests made\<close>

lemma tracked_new_request:
  assumes "tracked dl" "dl_pieces dl' = (dl_pieces dl)[p := (dl_pieces dl ! p)
      \<lparr>ps_requested := (ps_requested (dl_pieces dl ! p))[i := True]\<rparr>]"
    "dl_pending dl' = dl_pending dl @ [r]" "rq_piece r = p" "rq_offset r = block_offset i"
  shows "tracked dl'"
  unfolding tracked_def
proof (intro allI impI)
  fix q j assume fl: "flagged dl' q j" and w: "wanted dl' q j"
  show "in_flight dl' q j \<noteq> []"
  proof (cases "q = p \<and> j = i")
    case True
    then show ?thesis using assms(3-5) by (auto simp: in_flight_iff)
  next
    case False
    then have "flagged dl q j" "wanted dl q j"
      using fl w assms(2) by (auto simp: flagged_def wanted_def nth_update split: if_splits)
    with tracked_in_flight [OF assms(1)] assms(3) show ?thesis by (auto simp: in_flight_iff)
  qed
qed

lemma tracked_request_loop: "tracked dl \<Longrightarrow> tracked (request_loop now pid p is n dl)"
proof (induction "is" arbitrary: n dl)
  case (Cons i "is")
  have "tracked (set_conn pid c dl)" for c using Cons.prems by (simp add: tracked_core [OF core_set_conn])
  moreover have "tracked ((upd_piece p (\<lambda>st. st\<lparr>ps_requested := (ps_requested st)[i := True]\<rparr>) (set_conn pid c dl))
        \<lparr>dl_pending := dl_pending dl @ [r]\<rparr>)" if "rq_piece r = p" "rq_offset r = block_offset i" for c r
    by (rule tracked_new_request [OF Cons.prems _ _ that])
       (simp_all add: upd_piece_def set_conn_def)
  ultimately show ?case
    using Cons by (auto simp: Let_def split: option.splits prod.splits bool.splits)
qed simp

lemma tracked_request_peers: "tracked dl \<Longrightarrow> tracked (request_peers now n pids dl)"
proof (induction pids arbitrary: dl)
  case (Cons pid pids)
  have "tracked (requestBlocksFromPeer now pid dl)"
    using Cons.prems by (auto simp: requestBlocksFromPeer_def Let_def tracked_request_loop split: option.splits)
  with Cons show ?case by simp
qed simp

lemma tracked_requestPieces: "tracked dl \<Longrightarrow> tracked (requestPieces now dl)"
  unfolding requestPieces_def Let_def by (rule tracked_request_peers)

section \<open>Blocks\<close>

lemma tracked_finish_piece:
  assumes "tracked dl"
  shows "tracked (finish_piece SHA1 p dl)"
proof (cases "verifyPiece SHA1 dl p")
  case True
  then show ?thesis using assms tracked_same [of "finish_piece SHA1 p dl" dl] by (simp add: finish_piece_def)
next
  case False
  show ?thesis unfolding tracked_def
  proof (intro allI impI)
    fix q j assume *: "flagged (finish_piece SHA1 p dl) q j" "wanted (finish_piece SHA1 p dl) q j"
    show "in_flight (finish_piece SHA1 p dl) q j \<noteq> []"
    proof (cases "q = p")
      case True
      with * False show ?thesis by (auto simp: finish_piece_def flagged_def wanted_def drop_requests_def upd_piece_def)
    next
      case other: False
      with * False have "flagged dl q j" "wanted dl q j"
        by (auto simp: finish_piece_def flagged_def wanted_def drop_requests_def upd_piece_def)
      with tracked_in_flight [OF assms] other False show ?thesis
        by (auto simp: in_flight_iff finish_piece_def drop_requests_def)
    qed
  qed
qed

text \<open>A block that comes takes its request out of the list, and is no longer wanted.\<close>

lemma remove_first_other: "r \<in> set xs \<Longrightarrow> \<not> P r \<Longrightarrow> r \<in> set (remove_first P xs)"
  by (induction xs) auto

lemma tracked_accept_block:
  assumes "tracked dl" "books dl" "awaited dl p b n" "off = b * 16384"
  shows "tracked (accept_block SHA1 now pid p off data
    (dl\<lparr>dl_pending := remove_first (\<lambda>r. rq_piece r = p \<and> rq_offset r = off \<and> P r) (dl_pending dl)\<rparr>))"
    (is "tracked (accept_block _ _ _ _ _ _ ?dl')")
proof -
  let ?d = "block_recorded now pid p off data ?dl'"
  have b: "off div block_size = b" by (simp add: assms(4) block_size_def)
  have aw: "p < numPieces (dl_torrent dl)" "b < blocks_of (dl_torrent dl) p"
    using assms(3) by (auto simp: awaited_def)
  have len: "b < length (ps_received (dl_pieces dl ! p))"
    using booksD(4) [OF assms(2) aw(1)] aw(2) by (simp add: piece_ok_def)
  have w: "flagged dl q j \<and> wanted dl q j \<and> \<not> (q = p \<and> j = b)" if "flagged ?d q j" "wanted ?d q j" for q j
    using that len by (auto simp: wanted_def flagged_def b nth_update split: if_splits)
  have "tracked ?d"
  proof (rule tracked_fewer [OF assms(1,2)])
    fix i r assume "flagged ?d (rq_piece r) i" "wanted ?d (rq_piece r) i"
      "rq_offset r = i * 16384" "r \<in> set (dl_pending dl)"
    then show "r \<in> set (dl_pending ?d)" using w [of "rq_piece r" i] by (auto simp: assms(4) intro!: remove_first_other)
  qed (use w in blast)
  then show ?thesis by (simp add: accept_block_eq Let_def tracked_finish_piece)
qed

lemma tracked_request_gone:
  assumes "tracked dl" "books dl" "r \<in> set (dl_pending dl)" "dl' = dl\<lparr>dl_pending := remove_first P (dl_pending dl)\<rparr>"
    "\<And>s. P s \<Longrightarrow> rq_piece s = rq_piece r \<and> rq_offset s = rq_offset r"
  shows "tracked (release r dl')"
    and "ps_received (dl_pieces dl ! rq_piece r) ! (rq_offset r div block_size) \<Longrightarrow> tracked dl'"
proof -
  obtain b where b: "rq_offset r = b * 16384" using booksD(8) [OF assms(2,3)] by (auto simp: request_ok_def)
  have same: "flagged dl' p i = flagged dl p i" "wanted dl' p i = wanted dl p i" for p i
    by (simp_all add: assms(4) flagged_def wanted_def)
  have pieces: "dl_pieces dl' = dl_pieces dl" by (simp add: assms(4))
  have kept: "s \<in> set (dl_pending dl')" if "s \<in> set (dl_pending dl)" "rq_offset s = i * 16384"
      "\<not> (rq_piece s = rq_piece r \<and> i = b)" for s i
    using that assms(5) [of s] b by (auto simp: assms(4) intro!: remove_first_other)
  have w: "flagged dl p i \<and> wanted dl p i \<and> \<not> (p = rq_piece r \<and> i = b)"
    if "flagged (release r dl') p i" "wanted (release r dl') p i" for p i
    using that b release_wanted [of dl' p i r] by (auto simp: release_flagged same block_size_def)
  show "tracked (release r dl')"
  proof (rule tracked_fewer [OF assms(1,2)])
    fix i s assume "flagged (release r dl') (rq_piece s) i" "wanted (release r dl') (rq_piece s) i"
      "rq_offset s = i * 16384" "s \<in> set (dl_pending dl)"
    with w [of "rq_piece s" i] kept [of s i] show "s \<in> set (dl_pending (release r dl'))" by simp
  qed (use w in blast)
  assume rc: "ps_received (dl_pieces dl ! rq_piece r) ! (rq_offset r div block_size)"
  show "tracked dl'"
  proof (rule tracked_fewer [OF assms(1,2)])
    fix i s assume "wanted dl' (rq_piece s) i" "rq_offset s = i * 16384" "s \<in> set (dl_pending dl)"
    with rc b have "\<not> (rq_piece s = rq_piece r \<and> i = b)" by (auto simp: wanted_def block_size_def pieces)
    then show "s \<in> set (dl_pending dl')" by (rule kept [rotated 2]) fact+
  qed (simp_all add: same)
qed

lemma tracked_handle_block:
  assumes "tracked dl" "good SHA1 dl"
  shows "tracked (handle_block SHA1 now pid payload dl)"
proof -
  have bk: "books dl" using assms(2) by (simp add: good_def)
  show ?thesis
  proof (cases rule: handle_block_cases [OF bk, of SHA1 now pid payload, case_names ignored refused known taken])
    case ignored
    with assms show ?thesis by simp
  next
    case (refused r P)
    show ?thesis unfolding refused(3)
      using tracked_request_gone(1) [OF assms(1) bk refused(1) refl refused(2)] by (simp add: tracked_core [OF core_upd_stats])
  next
    case (known r P)
    show ?thesis unfolding known(4)
      using tracked_request_gone(2) [OF assms(1) bk known(1) refl known(2,3)] by (simp add: tracked_core [OF core_upd_stats])
  next
    case (taken p b off data)
    have "good SHA1 (dl\<lparr>dl_pending := remove_first (\<lambda>r. rq_piece r = p \<and> rq_offset r = off \<and> rq_peer r = pid) (dl_pending dl)\<rparr>)"
      by (rule good_pending_subset [OF remove_first_subset assms(2)])
    then have "good SHA1 (accept_block SHA1 now pid p off data
        (dl\<lparr>dl_pending := remove_first (\<lambda>r. rq_piece r = p \<and> rq_offset r = off \<and> rq_peer r = pid) (dl_pending dl)\<rparr>))"
      by (rule good_accept_block [OF _ _ taken(2)]) (use taken(1) in \<open>simp add: awaited_def\<close>)
    then show ?thesis unfolding taken(3)
      using tracked_accept_block [OF assms(1) bk taken(1,2)]
      by (intro tracked_cancelDuplicateRequests) (simp_all add: good_def)
  qed
qed

lemma tracked_handle_message:
  assumes "tracked dl" "good SHA1 dl"
  shows "tracked (handle_message SHA1 now pid msg dl)"
  using assms tracked_cancelRequestsForPeer [of dl pid] tracked_handle_block [OF assms]
  by (cases "pm_id msg") (simp_all add: handle_message_def tracked_core [OF core_upd_stats] good_def)

lemma tracked_message_loop:
  "tracked dl \<Longrightarrow> good SHA1 dl \<Longrightarrow> message_loop SHA1 now pid f msg dl = Ok dl' \<Longrightarrow> tracked dl'"
proof (induction f arbitrary: msg dl)
  case (Suc f)
  have "tracked (handle_message SHA1 now pid m (set_conn pid c dl)) \<and>
      good SHA1 (handle_message SHA1 now pid m (set_conn pid c dl)) \<and> tracked (set_conn pid c dl)" for m c
    using Suc.prems(1,2) by (auto simp: good_core [OF core_set_conn] tracked_core [OF core_set_conn]
        intro!: tracked_handle_message good_handle_message)
  then show ?case using Suc.prems(1,3)
    by (auto simp: Let_def split: option.splits if_splits dest!: Suc.IH [rotated 2])
qed simp

lemma tracked_process_peer:
  "tracked dl \<Longrightarrow> good SHA1 dl \<Longrightarrow> process_peer SHA1 now a pid dl = Ok (ps, dl') \<Longrightarrow> tracked dl'"
  by (auto simp: process_peer_def Let_def takeDiscoveredPeers_def good_core [OF core_set_conn]
      tracked_core [OF core_set_conn] simp del: message_loop.simps
      split: option.splits if_splits prod.splits dest!: tracked_message_loop [rotated 2])

lemma tracked_process_peers:
  "tracked dl \<Longrightarrow> good SHA1 dl \<Longrightarrow> process_peers SHA1 now a pids pex dl = Ok (ps, dl') \<Longrightarrow> tracked dl'"
  by (induction pids arbitrary: pex dl) (auto dest: good_process_peer tracked_process_peer)

section \<open>The invariant\<close>

definition requests_inv :: "(bytes \<Rightarrow> bytes) \<Rightarrow> downloader \<Rightarrow> bool" where
  "requests_inv SHA1 dl \<longleftrightarrow> dl_inv SHA1 dl \<and> tracked dl"

lemma merge_trackers_requests:
  "dl_pieces (merge_trackers ts ex dl) = dl_pieces dl \<and> dl_pending (merge_trackers ts ex dl) = dl_pending dl"
  by (induction ts ex dl rule: merge_trackers.induct) auto

lemma tracked_step:
  assumes "tracked dl" "good SHA1 dl" "dl_step SHA1 dl dl'"
  shows "tracked dl'"
  using assms(3)
proof cases
  case (messages now arrived)
  then show ?thesis using assms(1,2)
    by (auto simp: processPeerMessages_def tracked_core [OF core_addPeers] dest: tracked_process_peers)
next
  case (cleaning now)
  then show ?thesis using assms(1,2) by (auto simp: good_def intro: tracked_cleanup)
next
  case (announcing clk env event resp)
  then show ?thesis using assms(1) tracked_core [OF core_contact_trackers] by blast
next
  case (refreshing http)
  have "tracked dl' = tracked dl" unfolding refreshing
    by (rule tracked_same) (simp_all add: fetchLatestTrackers_def Let_def merge_trackers_requests)
  then show ?thesis using assms(1) by simp
next
  case stopping
  then show ?thesis using assms(1) tracked_same [of dl' dl] by (simp add: requestStop_def)
next
  case ending
  then show ?thesis using assms(1) tracked_same [of dl' dl] by simp
qed (use assms(1) in \<open>simp_all add: tracked_core [OF core_connectToPeers] tracked_requestPieces
       tracked_core [OF core_updateSpeedStats] tracked_core [OF core_update_endgame]
       tracked_core [OF core_pruneBadPeers] tracked_core [OF core_addPeers]\<close>)

lemma requests_inv_step: "requests_inv SHA1 dl \<Longrightarrow> dl_step SHA1 dl dl' \<Longrightarrow> requests_inv SHA1 dl'"
  unfolding requests_inv_def using dl_inv_step tracked_step dl_inv_def by blast

interpretation requests: preserved_relation "dl_step SHA1"
  "\<lambda>dl dl'. requests_inv SHA1 dl \<longrightarrow> requests_inv SHA1 dl'" for SHA1
  by unfold_locales (auto intro: requests_inv_step)

text \<open>A launched download has no block marked as requested, whatever was marked before.\<close>

lemma restored_length: "length (dl_pieces (fold (restore_piece SHA1) is dl)) = length (dl_pieces dl)"
  by (induction "is" arbitrary: dl) simp_all

lemma restored_unflagged:
  "\<lbrakk>k \<le> length (dl_pieces dl); i < k\<rbrakk> \<Longrightarrow>
   True \<notin> set (ps_requested (dl_pieces (fold (restore_piece SHA1) [0..<k] dl) ! i))"
proof (induction k arbitrary: i)
  case (Suc k)
  then show ?case using restored_length [of SHA1 "[0..<k]" dl] by (cases "i = k") auto
qed simp

lemma tracked_started:
  assumes "ready dl" "start SHA1 stopped dl = (True, dl')"
  shows "tracked dl'"
proof -
  let ?n = "numPieces (dl_torrent dl)"
  obtain w1 ofs w2 where "dl' = restoreCompletedPieces SHA1 stopped (dl\<lparr>dl_running := True, dl_stop := False, dl_files := ofs, dl_fs := w2\<rparr>)"
    (is "_ = restoreCompletedPieces SHA1 stopped ?d") and st: "\<forall>i < ?n. \<not> stopped i"
    by (rule start_running [OF assms(2)])
  then have p: "dl_pieces dl' = dl_pieces (fold (restore_piece SHA1) [0..<?n] (?d\<lparr>dl_completedCount := 0, dl_downloaded := 0\<rparr>))"
    by (simp add: restoreCompletedPieces_def Let_def restore_loop_no_stop)
  have n: "?n = length (dl_pieces dl)" using assms(1) by (simp add: ready_def)
  have "True \<notin> set (ps_requested (dl_pieces dl' ! i))" if "i < length (dl_pieces dl')" for i
    using that n unfolding p restored_length by (intro restored_unflagged) simp_all
  then show ?thesis by (auto simp: tracked_def flagged_def wanted_def) (metis nth_mem)
qed

definition life_tracked :: "(bytes \<Rightarrow> bytes) \<Rightarrow> bool \<times> downloader \<Rightarrow> bool" where
  "life_tracked SHA1 s \<longleftrightarrow> life_inv SHA1 s \<and> (fst s \<longrightarrow> tracked (snd s))"

lemma life_tracked_step:
  assumes "life_step SHA1 s s'" "life_tracked SHA1 s"
  shows "life_tracked SHA1 s'"
proof -
  have li: "life_inv SHA1 s" and li': "life_inv SHA1 s'" and t: "fst s \<longrightarrow> tracked (snd s)"
    using assms life_inv_step by (auto simp: life_tracked_def)
  have "fst s' \<longrightarrow> tracked (snd s')"
    using assms(1) li t
  proof (induction rule: life_step.induct)
    case (starting stopped dl launched dl')
    then show ?case using tracked_started [OF life_invD(1), of SHA1 False dl] by auto
  next
    case (working dl dl')
    then show ?case using tracked_step [of dl SHA1 dl'] life_invD(3) [of SHA1 True dl] by auto
  next
    case (joining launched dl)
    then show ?case by (auto simp: tracked_core [OF core_stop])
  next
    case (restarting dl stopped launched dl')
    have "ready (stop dl)" using life_invD(1) [OF restarting(4)] by (simp add: ready_core [OF core_stop])
    then show ?case using tracked_started [of "stop dl" SHA1 stopped dl'] restarting(2) by auto
  qed simp_all
  with li' show ?thesis by (simp add: life_tracked_def)
qed

interpretation life_requests: invariant_system life_init "life_step SHA1" "life_tracked SHA1" for SHA1
proof
  show "life_tracked SHA1 s" if "life_init s" for s
    using life_inv_init [OF that] that by (auto simp: life_tracked_def life_init_def)
  show "life_tracked SHA1 s'" if "life_tracked SHA1 s" "life_step SHA1 s s'" for s s'
    by (rule life_tracked_step [OF that(2,1)])
qed

lemma reachable_requests_inv: "dl_reachable SHA1 dl \<Longrightarrow> requests_inv SHA1 dl"
  using life_requests.reachable_inv [of SHA1 "(True, dl)"] reachable_dl_inv [of SHA1 dl]
  by (simp only: requests_inv_def life_tracked_def fst_conv snd_conv simp_thms)

lemma reachable_tracked:
  "dl_reachable SHA1 dl \<Longrightarrow> p < numPieces (dl_torrent dl) \<Longrightarrow> i < blocks_of (dl_torrent dl) p \<Longrightarrow>
   wanted dl p i \<Longrightarrow> in_flight dl p i \<noteq> []"
  using reachable_requests_inv [of SHA1 dl] tracked_in_flight [of dl p i] books_flagged [of dl p i]
  by (auto simp: requests_inv_def dl_inv_def good_def)

text \<open>After the clean-up of a turn, a block that is waited for was asked for within 15 seconds.\<close>

lemma cleaned_request_recent:
  assumes "dl_reachable SHA1 dl" "dl' = cleanupTimedOutRequests now dl"
    "p < numPieces (dl_torrent dl')" "i < blocks_of (dl_torrent dl') p" "wanted dl' p i"
  shows "\<exists>r \<in> set (dl_pending dl'). rq_piece r = p \<and> rq_offset r = block_offset i \<and>
    now - rq_time r < 15001 * 1000000"
proof -
  have "dl_reachable SHA1 dl'" unfolding assms(2) by (rule reachable_step [OF assms(1) cleaning])
  from reachable_tracked [OF this assms(3-5)] obtain r where r: "r \<in> set (dl_pending dl')"
    "rq_piece r = p" "rq_offset r = block_offset i" by (auto simp: in_flight_iff)
  have "\<not> timed_out now r" using r(1) by (simp add: assms(2) cleanup_pending)
  then have "now - rq_time r < 15001 * 1000000"
    by (cases "0 \<le> now - rq_time r") (simp_all add: timed_out_def)
  with r show ?thesis by blast
qed

end
