(* ===== verification/Seed_Content.thy ===== *)
theory Seed_Content
  imports In_Flight Robustness
begin

text \<open>
  What is on disk when the blocks that come are those of the content the torrent was made from:
  every block received is the content's, so every piece that is full verifies, and a complete
  download is the content.
\<close>

section \<open>The content of a torrent\<close>

definition content_of :: "(bytes \<Rightarrow> bytes) \<Rightarrow> torrent_info \<Rightarrow> bytes \<Rightarrow> bool" where
  "content_of SHA1 t B \<longleftrightarrow> int (length B) = totalLength t \<and>
     (\<forall>i < numPieces t. sha1_str SHA1 (take (nat (pieceSize t i)) (drop (piece_start t i) B)) =
        take 20 (drop (i * 20) (tPieces t)))"

definition block_data :: "torrent_info \<Rightarrow> bytes \<Rightarrow> nat \<Rightarrow> nat \<Rightarrow> nat \<Rightarrow> bytes" where
  "block_data t B p off n = take n (drop (piece_start t p + off) B)"

abbreviation has_block :: "downloader \<Rightarrow> nat \<Rightarrow> nat \<Rightarrow> bool" where
  "has_block dl p b \<equiv> ps_received (dl_pieces dl ! p) ! b"

definition missing :: "downloader \<Rightarrow> (nat \<times> nat) set" where
  "missing dl = {(p, b). p < numPieces (dl_torrent dl) \<and> b < blocks_of (dl_torrent dl) p \<and> \<not> has_block dl p b}"

definition faithful :: "bytes \<Rightarrow> downloader \<Rightarrow> bool" where
  "faithful B dl \<longleftrightarrow> (\<forall>p < numPieces (dl_torrent dl). \<forall>b < blocks_of (dl_torrent dl) p. has_block dl p b \<longrightarrow>
     (\<forall>x < block_length (dl_torrent dl) p b. dl_flat dl ! (piece_start (dl_torrent dl) p + b * 16384 + x) =
        B ! (piece_start (dl_torrent dl) p + b * 16384 + x)))"

abbreviation dl_healthy :: "downloader \<Rightarrow> bool" where
  "dl_healthy dl \<equiv> disk_healthy (dl_files dl, dl_fs dl)"

lemma finite_missing [simp]: "finite (missing dl)"
proof (rule finite_subset)
  show "missing dl \<subseteq> (SIGMA p : {..< numPieces (dl_torrent dl)}. {..< blocks_of (dl_torrent dl) p})"
    by (auto simp: missing_def)
qed simp

lemma faithful_byte:
  assumes "faithful B dl" "p < numPieces (dl_torrent dl)" "b < blocks_of (dl_torrent dl) p" "has_block dl p b"
    "y < block_length (dl_torrent dl) p b" "k = piece_start (dl_torrent dl) p + b * 16384 + y"
  shows "dl_flat dl ! k = B ! k"
  using assms by (auto simp: faithful_def)

section \<open>Pieces that verify\<close>

text \<open>Every byte of a piece is in one of its blocks.\<close>

lemma byte_in_block:
  assumes "geometry t" "p < numPieces t" "int x < pieceSize t p"
  obtains b y where "x = b * 16384 + y" "b < blocks_of t p" "y < block_length t p b"
proof -
  let ?b = "x div 16384" and ?y = "x mod 16384"
  have "int x < int (blocks_of t p) * 16384" using assms(3) blocks_bounds(3) [OF assms(1,2)] by simp
  then have "x < blocks_of t p * 16384" by linarith
  then have b: "?b < blocks_of t p" by (simp add: less_mult_imp_div_less)
  have x: "x = ?b * 16384 + ?y" by (rule div_mult_mod_eq [symmetric])
  then have "int x = int ?b * 16384 + int ?y" by linarith
  then have "int ?y < int (block_length t p ?b)"
    using assms(3) unfolding block_length_eq [OF assms(1,2) b] by simp
  then show thesis using that [OF x b] by simp
qed

lemma full_piece_blocks:
  "piece_ok t p st \<Longrightarrow> ps_count st = ps_total st \<Longrightarrow> b < blocks_of t p \<Longrightarrow> ps_received st ! b"
  using count_true_full [of "ps_received st"] by (simp add: piece_ok_def) (metis nat_int)

lemma piece_ok_full:
  assumes "piece_ok t p st" "ps_total st \<le> ps_count st" "geometry t" "p < numPieces t"
  shows "ps_count st = ps_total st"
  using assms(1,2) count_true_le [of "ps_received st"] blocks_bounds(1) [OF assms(3,4)]
  by (simp add: piece_ok_def)

lemma nth_take_drop: "a \<le> k \<Longrightarrow> k < a + n \<Longrightarrow> k < length xs \<Longrightarrow> take n (drop a xs) ! (k - a) = xs ! k"
  by simp

lemma faithful_piece:
  assumes "geometry (dl_torrent dl)" "p < numPieces (dl_torrent dl)" "faithful B dl"
    "\<forall>b < blocks_of (dl_torrent dl) p. has_block dl p b"
    "int (length (dl_flat dl)) = totalLength (dl_torrent dl)" "int (length B) = totalLength (dl_torrent dl)"
  shows "take (nat (pieceSize (dl_torrent dl) p)) (drop (piece_start (dl_torrent dl) p) (dl_flat dl)) =
    take (nat (pieceSize (dl_torrent dl) p)) (drop (piece_start (dl_torrent dl) p) B)"
proof (rule nth_equalityI)
  let ?t = "dl_torrent dl"
  note st = piece_start_bounds [OF assms(1,2)]
  have pos: "0 < pieceSize ?t p" by (rule pieceSize_bounds(1) [OF assms(1,2)])
  have len: "piece_start ?t p + nat (pieceSize ?t p) \<le> length (dl_flat dl)" "length B = length (dl_flat dl)"
    using st(2,3) pos assms(5,6) by auto
  then show "length (take (nat (pieceSize ?t p)) (drop (piece_start ?t p) (dl_flat dl))) =
      length (take (nat (pieceSize ?t p)) (drop (piece_start ?t p) B))" by simp
  fix x assume "x < length (take (nat (pieceSize ?t p)) (drop (piece_start ?t p) (dl_flat dl)))"
  then have x: "int x < pieceSize ?t p" "x < nat (pieceSize ?t p)" by auto
  obtain b y where b: "x = b * 16384 + y" "b < blocks_of ?t p" "y < block_length ?t p b"
    by (rule byte_in_block [OF assms(1,2) x(1)])
  then have "dl_flat dl ! (piece_start ?t p + x) = B ! (piece_start ?t p + x)"
    using assms(2-4) by (intro faithful_byte) auto
  with x len show "take (nat (pieceSize ?t p)) (drop (piece_start ?t p) (dl_flat dl)) ! x =
      take (nat (pieceSize ?t p)) (drop (piece_start ?t p) B) ! x" by simp
qed

lemma faithful_verifies:
  assumes "geometry (dl_torrent dl)" "p < numPieces (dl_torrent dl)" "faithful B dl"
    "\<forall>b < blocks_of (dl_torrent dl) p. has_block dl p b" "store_ok (dl_files dl) (dl_fs dl)"
    "int (length (dl_flat dl)) = totalLength (dl_torrent dl)" "content_of SHA1 (dl_torrent dl) B"
  shows "verifyPiece SHA1 dl p"
proof -
  let ?t = "dl_torrent dl"
  have "readPieceFromDisk dl p = Some (take (nat (pieceSize ?t p)) (drop (piece_start ?t p) B))"
    using readPiece_flat [OF assms(1,5,6,2)] faithful_piece [OF assms(1-4,6)] assms(7) by (simp add: content_of_def)
  moreover have "p * 20 + 20 \<le> length (tPieces ?t)" using assms(2) by (simp add: numPieces_def)
  ultimately show ?thesis using assms(2,7) by (simp add: verifyPiece_def Let_def content_of_def)
qed

text \<open>A complete faithful download is the content.\<close>

lemma faithful_complete:
  assumes "good SHA1 dl" "faithful B dl" "int (length B) = totalLength (dl_torrent dl)" "missing dl = {}"
  shows "dl_flat dl = B"
proof (rule nth_equalityI)
  let ?t = "dl_torrent dl"
  have g: "geometry ?t" using assms(1) booksD(1) by (auto simp: good_def)
  have len: "int (length (dl_flat dl)) = totalLength ?t"
    using assms(1) disk_inv_length by (auto simp: good_def)
  with assms(3) show "length (dl_flat dl) = length B" by simp
  fix k assume k: "k < length (dl_flat dl)"
  have pl: "0 < tPieceLength ?t" using geometry_pieceLength [OF g] by simp
  define p where "p = nat (int k div tPieceLength ?t)"
  have p: "int p = int k div tPieceLength ?t" using pl by (simp add: p_def pos_imp_zdiv_nonneg_iff)
  have "int p * tPieceLength ?t \<le> int k" using p pl by (metis mult.commute pos_mod_sign minus_mult_div_eq_mod diff_ge_0_iff_ge)
  moreover have "int k < (int p + 1) * tPieceLength ?t"
    using p pl by (metis mult.commute pos_mod_bound minus_mult_div_eq_mod diff_less_eq distrib_left add.commute mult.right_neutral)
  ultimately have kp: "int p * tPieceLength ?t \<le> int k" "int k < (int p + 1) * tPieceLength ?t" by auto
  have pn: "p < numPieces ?t"
  proof (rule ccontr)
    assume "\<not> p < numPieces ?t"
    then have "int (numPieces ?t) * tPieceLength ?t \<le> int p * tPieceLength ?t"
      using pl by (intro mult_right_mono) auto
    with geometry_cover(1) [OF g] kp(1) k len show False by linarith
  qed
  note st = piece_start_bounds [OF g pn]
  define x where "x = k - piece_start ?t p"
  have x: "k = piece_start ?t p + x" "int x < pieceSize ?t p"
  proof -
    show "k = piece_start ?t p + x" using kp(1) st(3) by (simp add: x_def)
    then show "int x < pieceSize ?t p" using st(3) kp(2) k len by (simp add: pieceSize_def algebra_simps)
  qed
  obtain b y where b: "x = b * 16384 + y" "b < blocks_of ?t p" "y < block_length ?t p b"
    by (rule byte_in_block [OF g pn x(2)])
  moreover have "has_block dl p b" using assms(4) pn b(2) by (auto simp: missing_def)
  ultimately show "dl_flat dl ! k = B ! k" using assms(2) pn x(1) by (intro faithful_byte) auto
qed

lemma nothing_missing_complete:
  assumes "books dl" "missing dl = {}"
  shows "isComplete dl"
  unfolding isComplete_iff [OF assms(1)]
proof (intro allI impI)
  fix p assume p: "p < numPieces (dl_torrent dl)"
  have ok: "piece_ok (dl_torrent dl) p (dl_pieces dl ! p)" by (rule booksD(4) [OF assms(1) p])
  have "count_true (ps_received (dl_pieces dl ! p)) = length (ps_received (dl_pieces dl ! p))"
    unfolding count_true_full using assms(2) p ok by (auto simp: missing_def piece_ok_def)
  then have "ps_count (dl_pieces dl ! p) = ps_total (dl_pieces dl ! p)"
    using ok blocks_bounds(1) [OF booksD(1) [OF assms(1)] p] by (simp add: piece_ok_def)
  then show "dl_hasPiece dl p" using booksD(2,5) [OF assms(1)] p by (simp add: dl_hasPiece_def)
qed

section \<open>Blocks of the content\<close>

text \<open>The disk holds what it should, and will take what is written.\<close>

definition stored :: "(bytes \<Rightarrow> bytes) \<Rightarrow> bytes \<Rightarrow> downloader \<Rightarrow> bool" where
  "stored SHA1 B dl \<longleftrightarrow> good SHA1 dl \<and> content_of SHA1 (dl_torrent dl) B \<and> faithful B dl \<and> dl_healthy dl"

lemma faithful_same:
  "dl_torrent dl' = dl_torrent dl \<Longrightarrow> dl_pieces dl' = dl_pieces dl \<Longrightarrow> dl_files dl' = dl_files dl \<Longrightarrow>
   dl_fs dl' = dl_fs dl \<Longrightarrow> faithful B dl' = faithful B dl"
  by (simp add: faithful_def)

lemma missing_same:
  "dl_torrent dl' = dl_torrent dl \<Longrightarrow> dl_pieces dl' = dl_pieces dl \<Longrightarrow> missing dl' = missing dl"
  by (simp add: missing_def)

lemma stored_core:
  assumes "core dl' = core dl"
  shows "stored SHA1 B dl' = stored SHA1 B dl"
  unfolding stored_def good_core [OF assms] faithful_def by (simp add: core_fields [OF assms])

lemma stored_pending:
  "stored SHA1 B dl \<Longrightarrow> set rs \<subseteq> set (dl_pending dl) \<Longrightarrow> stored SHA1 B (dl\<lparr>dl_pending := rs\<rparr>)"
  using good_pending_subset faithful_same [of "dl\<lparr>dl_pending := rs\<rparr>" dl B] by (simp add: stored_def)

lemma missing_core: "core dl' = core dl \<Longrightarrow> missing dl' = missing dl"
  by (rule missing_same) (erule core_fields)+

lemma piece_start_fits:
  assumes "geometry t" "p < numPieces t" "int L = totalLength t"
  shows "int k \<le> pieceSize t p \<Longrightarrow> piece_start t p + k \<le> L" "int k < pieceSize t p \<Longrightarrow> piece_start t p + k < L"
  using piece_start_bounds [OF assms(1,2)] assms(3) by linarith+

lemma block_data_length:
  assumes "geometry t" "int (length B) = totalLength t" "p < numPieces t" "int (off + n) \<le> pieceSize t p"
  shows "length (block_data t B p off n) = n"
  unfolding block_data_def length_take length_drop
  using piece_start_fits(1) [OF assms(1,3,2,4)] by linarith

lemma recorded_missing:
  assumes "books dl" "awaited dl p b n" "off = b * 16384"
  shows "missing (block_recorded now pid p off data dl) = missing dl - {(p, b)}"
    and "q < numPieces (dl_torrent dl) \<Longrightarrow> i < blocks_of (dl_torrent dl) q \<Longrightarrow>
      has_block (block_recorded now pid p off data dl) q i \<longleftrightarrow> has_block dl q i \<or> (q = p \<and> i = b)"
proof -
  have p: "p < numPieces (dl_torrent dl)" "b < blocks_of (dl_torrent dl) p" using assms(2) by (auto simp: awaited_def)
  have pl: "p < length (dl_pieces dl)" using booksD(3) [OF assms(1)] p by simp
  have bl: "b < length (ps_received (dl_pieces dl ! p))" "off div block_size = b"
    using booksD(4) [OF assms(1) p(1)] p(2) assms(3) by (simp_all add: piece_ok_def block_size_def)
  show hb: "has_block (block_recorded now pid p off data dl) q i \<longleftrightarrow> has_block dl q i \<or> (q = p \<and> i = b)"
    if "q < numPieces (dl_torrent dl)" "i < blocks_of (dl_torrent dl) q" for q i
    using pl bl by (auto simp: nth_update)
  show "missing (block_recorded now pid p off data dl) = missing dl - {(p, b)}"
    by (auto simp: missing_def hb simp del: block_recorded_fields(8))
qed

lemma splice_faithful:
  assumes "books dl" "disk_inv SHA1 dl" "int (length B) = totalLength (dl_torrent dl)" "faithful B dl"
    "awaited dl p b n" "off = b * 16384" "length (block_data (dl_torrent dl) B p off n) = n"
    "piece_start (dl_torrent dl) p + off + n \<le> length (dl_flat dl)"
    "dl_flat dl' = splice (piece_start (dl_torrent dl) p + off) (block_data (dl_torrent dl) B p off n) (dl_flat dl)"
    "dl_torrent dl' = dl_torrent dl"
    "\<And>q i. q < numPieces (dl_torrent dl) \<Longrightarrow> i < blocks_of (dl_torrent dl) q \<Longrightarrow> has_block dl' q i \<Longrightarrow>
       has_block dl q i \<or> (q = p \<and> i = b)"
  shows "faithful B dl'"
  unfolding faithful_def assms(10)
proof (intro allI impI)
  let ?t = "dl_torrent dl"
  fix q i y assume q: "q < numPieces ?t" "i < blocks_of ?t q" "has_block dl' q i" "y < block_length ?t q i"
  let ?k = "piece_start ?t q + i * 16384 + y" and ?s = "piece_start ?t p + off"
  have "int (i * 16384 + y) < pieceSize ?t q"
    using block_length_bounds(3) [OF booksD(1) [OF assms(1)] q(1,2)] q(4) by simp
  then have k: "?k < length (dl_flat dl)"
    using piece_start_fits(2) [OF booksD(1) [OF assms(1)] q(1) disk_inv_length [OF assms(2)]] by (metis add.assoc)
  have at: "dl_flat dl' ! ?k =
      (if ?s \<le> ?k \<and> ?k < ?s + n then block_data ?t B p off n ! (?k - ?s) else dl_flat dl ! ?k)"
    using k assms(7,8) by (simp add: assms(9) nth_splice)
  show "dl_flat dl' ! ?k = B ! ?k"
  proof (cases "?s \<le> ?k \<and> ?k < ?s + n")
    case True
    then have "block_data ?t B p off n ! (?k - ?s) = B ! ?k"
      unfolding block_data_def using k disk_inv_length [OF assms(2)] assms(3) by (intro nth_take_drop) linarith+
    with at True show ?thesis by simp
  next
    case False
    have "n = block_length ?t p b" using assms(5) by (simp add: awaited_def)
    then have "\<not> (q = p \<and> i = b)" using False q(4) assms(6) by auto
    then have "has_block dl q i" using assms(11) [OF q(1-3)] by blast
    with assms(4) q(1,2,4) have "dl_flat dl ! ?k = B ! ?k" by (intro faithful_byte) auto
    with at False show ?thesis by simp
  qed
qed

lemma recorded_faithful:
  assumes "stored SHA1 B dl" "awaited dl p b n" "off = b * 16384" "data = block_data (dl_torrent dl) B p off n"
  shows "faithful B (block_recorded now pid p off data dl)"
    "store_ok (dl_files dl) (dl_fs (block_recorded now pid p off data dl))"
    "int (length (dl_flat (block_recorded now pid p off data dl))) = totalLength (dl_torrent dl)"
    "dl_healthy (block_recorded now pid p off data dl)"
proof -
  let ?t = "dl_torrent dl" and ?d = "block_recorded now pid p off data dl"
  have bk: "books dl" and dk: "disk_inv SHA1 dl" and B: "int (length B) = totalLength ?t"
    and h: "dl_healthy dl" and f: "faithful B dl"
    using assms(1) by (auto simp: stored_def good_def content_of_def)
  have p: "p < numPieces ?t" using assms(2) by (simp add: awaited_def)
  have fit: "int (off + n) \<le> pieceSize ?t p" using awaited_piece(3) [OF bk assms(2)] assms(3) by simp
  have len: "length data = n" using block_data_length [OF booksD(1) [OF bk] B p fit] assms(4) by simp
  have fit': "int (off + length data) \<le> pieceSize ?t p" using fit len by simp
  obtain d' where d': "d' = data" "dl_flat (writePiece p off data dl) = splice (piece_start ?t p + off) d' (dl_flat dl)"
    "faulty (dl_fs (writePiece p off data dl)) = faulty (dl_fs dl)"
    "piece_start ?t p + off + length data \<le> length (dl_flat dl)"
    using writePiece_flat [OF bk dk p fit'] h by blast
  show "store_ok (dl_files dl) (dl_fs ?d)" using writePiece_disk(1) [OF bk dk p fit'] by simp
  show "int (length (dl_flat ?d)) = totalLength ?t"
    using disk_inv_length [OF dk] d'(4) by (simp add: d'(2) [simplified] d'(1))
  show "dl_healthy ?d" using h d'(3) by (simp add: disk_healthy_def)
  show "faithful B ?d"
    by (rule splice_faithful [OF bk dk B f assms(2,3)])
       (use len d'(1,2,4) assms(4) recorded_missing(2) [OF bk assms(2,3)] in \<open>simp_all\<close>)
qed

lemma accept_content:
  assumes "stored SHA1 B dl" "awaited dl p b n" "off = b * 16384" "data = block_data (dl_torrent dl) B p off n"
    "dl' = accept_block SHA1 now pid p off data dl"
  shows "faithful B dl'" "dl_healthy dl'" "missing dl' = missing dl - {(p, b)}" "dl_pending dl' = dl_pending dl"
    "dl_torrent dl' = dl_torrent dl" "dl_peers dl' = dl_peers dl" "dl_options dl' = dl_options dl"
    "dl_files dl' = dl_files dl"
proof -
  let ?d = "block_recorded now pid p off data dl" and ?t = "dl_torrent dl"
  have bk: "books dl" using assms(1) by (simp add: stored_def good_def)
  have g: "geometry ?t" by (rule booksD(1) [OF bk])
  have p: "p < numPieces ?t" "b < blocks_of ?t p" "\<not> has_block dl p b" using assms(2) by (auto simp: awaited_def)
  note r = recorded_faithful [OF assms(1-4), where now = now and pid = pid]
  note m = recorded_missing [OF bk assms(2,3), where now = now and pid = pid and data = data]
  have o: "dl_options ?d = dl_options dl" by (simp add: block_recorded_def writePiece_def upd_stats_def)
  have pe: "dl_peers ?d = dl_peers dl" by (simp add: block_recorded_def writePiece_def upd_stats_def)
  have ok: "piece_ok ?t p (dl_pieces ?d ! p)"
    using recorded_piece [OF booksD(4) [OF bk p(1)] p(2,3)] booksD(3) [OF bk] p(1) assms(3) by (simp add: block_size_def)
  have full: "verifyPiece SHA1 ?d p" if "ps_total (dl_pieces ?d ! p) \<le> ps_count (dl_pieces ?d ! p)"
  proof (rule faithful_verifies [where B = B])
    note eq = piece_ok_full [OF ok that g p(1)]
    then show "\<forall>b < blocks_of (dl_torrent ?d) p. has_block ?d p b" using full_piece_blocks [OF ok eq] by simp
    show "content_of SHA1 (dl_torrent ?d) B" using assms(1) by (simp add: stored_def)
  qed (use r g p(1) in simp_all)
  have "dl' = (if ps_total (dl_pieces ?d ! p) \<le> ps_count (dl_pieces ?d ! p)
      then ?d\<lparr>dl_completed := (dl_completed ?d)[p := True], dl_completedCount := dl_completedCount ?d + 1\<rparr> else ?d)"
    using full by (simp add: assms(5) accept_block_eq finish_piece_def Let_def del: block_recorded_fields)
  then consider "dl' = ?d" | "dl' = ?d\<lparr>dl_completed := (dl_completed ?d)[p := True], dl_completedCount := dl_completedCount ?d + 1\<rparr>"
    by presburger
  note c = this
  show "faithful B dl'" using c by cases (use r(1) faithful_same [of dl' ?d B] in simp_all)
  show "dl_healthy dl'" using c by cases (use r(4) in simp_all)
  show "missing dl' = missing dl - {(p, b)}"
    using c by cases (use m(1) missing_same [of dl' ?d] in simp_all)
  show "dl_pending dl' = dl_pending dl" using c by cases simp_all
  show "dl_torrent dl' = dl_torrent dl" using c by cases simp_all
  show "dl_files dl' = dl_files dl" using c by cases simp_all
  show "dl_peers dl' = dl_peers dl" using c by cases (simp_all add: pe)
  show "dl_options dl' = dl_options dl" using c by cases (simp_all add: o)
qed

end
