(* ===== verification/Honest_Seed.thy ===== *)
theory Honest_Seed
  imports Seed_Content
begin

text \<open>
  A download from one peer that has every piece, does not choke, and answers every request with
  the block of the content: turn by turn of the loop the missing blocks are asked for and come,
  until the download is complete and the files are the content.
\<close>

section \<open>The answer to a request\<close>

definition reply :: "torrent_info \<Rightarrow> bytes \<Rightarrow> block_request \<Rightarrow> peer_message" where
  "reply t B r = block_message (of_nat (rq_piece r)) (of_nat (rq_offset r))
     (block_data t B (rq_piece r) (rq_offset r) (rq_length r))"

abbreviation request_block :: "block_request \<Rightarrow> nat \<times> nat" where
  "request_block r \<equiv> (rq_piece r, rq_offset r div block_size)"

lemma request_okE:
  assumes "request_ok t r" "geometry t"
  obtains b where "rq_piece r < numPieces t" "b < blocks_of t (rq_piece r)" "rq_offset r = b * 16384"
    "rq_length r = block_length t (rq_piece r) b" "rq_offset r div block_size = b"
    "int (rq_offset r + rq_length r) \<le> pieceSize t (rq_piece r)" "rq_length r \<le> 16384" "0 < rq_length r"
    "rq_piece r < 2 ^ 32" "rq_offset r < 2 ^ 32"
proof -
  from assms(1) obtain b where b: "rq_piece r < numPieces t" "b < blocks_of t (rq_piece r)" "rq_offset r = b * 16384"
    "rq_length r = block_length t (rq_piece r) b" by (auto simp: request_ok_def)
  note l = block_length_bounds [OF assms(2) b(1,2)]
  have "rq_offset r < 2 ^ 32"
    using l(1,3) pieceSize_bounds(3) [OF assms(2) b(1)] b(3) by simp
  moreover have "rq_piece r < 2 ^ 32" using b(1) assms(2) by (simp add: geometry_def)
  ultimately show thesis using b l by (intro that [of b]) (simp_all add: block_size_def)
qed

lemma reply_payload:
  assumes "request_ok t r" "geometry t"
  shows "unat (bytesToInt_raw (take 4 (pm_payload (reply t B r)))) = rq_piece r"
    "unat (bytesToInt_raw (take 4 (drop 4 (pm_payload (reply t B r))))) = rq_offset r"
    "drop 8 (pm_payload (reply t B r)) = block_data t B (rq_piece r) (rq_offset r) (rq_length r)"
    "8 \<le> length (pm_payload (reply t B r))" "pm_id (reply t B r) = Block"
proof -
  obtain b where "rq_piece r < 2 ^ 32" "rq_offset r < 2 ^ 32" by (rule request_okE [OF assms])
  note u = this [THEN unat_of_nat32]
  have p: "pm_payload (reply t B r) = be32 (of_nat (rq_piece r)) @ be32 (of_nat (rq_offset r)) @
      block_data t B (rq_piece r) (rq_offset r) (rq_length r)"
    by (simp add: reply_def block_message_def)
  show "unat (bytesToInt_raw (take 4 (pm_payload (reply t B r)))) = rq_piece r"
    "unat (bytesToInt_raw (take 4 (drop 4 (pm_payload (reply t B r))))) = rq_offset r" unfolding p by (simp_all add: u)
  show "drop 8 (pm_payload (reply t B r)) = block_data t B (rq_piece r) (rq_offset r) (rq_length r)"
    "8 \<le> length (pm_payload (reply t B r))" unfolding p by simp_all
  show "pm_id (reply t B r) = Block" by (simp add: reply_def block_message_def)
qed

lemma reply_wf:
  assumes "request_ok t r" "geometry t" "int (length B) = totalLength t"
  shows "wf_message (reply t B r)"
proof -
  obtain b where b: "rq_piece r < numPieces t" "int (rq_offset r + rq_length r) \<le> pieceSize t (rq_piece r)"
    "rq_length r \<le> 16384" by (rule request_okE [OF assms(1,2)])
  have "length (block_data t B (rq_piece r) (rq_offset r) (rq_length r)) = rq_length r"
    by (rule block_data_length [OF assms(2,3) b(1,2)])
  then show ?thesis unfolding reply_def using b(3) by (intro block_message_wf) (simp add: max_message_def)
qed

section \<open>The answers are handled\<close>

abbreviation sound :: "(bytes \<Rightarrow> bytes) \<Rightarrow> bytes \<Rightarrow> downloader \<Rightarrow> bool" where
  "sound SHA1 B dl \<equiv> stored SHA1 B dl \<and> tracked dl"

lemma cancelDuplicates_none:
  assumes "\<forall>s \<in> set (dl_pending dl). rq_peer s = keep"
  shows "cancelDuplicateRequests p off keep dl = dl"
proof -
  have "filter (\<lambda>r. rq_piece r = p \<and> rq_offset r = off \<and> rq_peer r \<noteq> keep) (dl_pending dl) = []"
    "filter (\<lambda>r. \<not> (rq_piece r = p \<and> rq_offset r = off \<and> rq_peer r \<noteq> keep)) (dl_pending dl) = dl_pending dl"
    using assms by (auto intro!: filter_True filter_False)
  then show ?thesis by (simp add: cancelDuplicateRequests_def drop_requests_def Let_def)
qed

text \<open>What the answer to the oldest request does.\<close>

lemma handle_reply:
  assumes "sound SHA1 B dl" "dl_pending dl = r # rs" "\<forall>s \<in> set (r # rs). rq_peer s = pid"
    "dl' = handle_message SHA1 now pid (reply (dl_torrent dl) B r) dl"
  shows "sound SHA1 B dl' \<and> dl_pending dl' = rs \<and> missing dl' = missing dl - {request_block r} \<and>
    dl_torrent dl' = dl_torrent dl \<and> dl_peers dl' = dl_peers dl \<and> dl_options dl' = dl_options dl \<and>
    dl_files dl' = dl_files dl"
proof -
  let ?t = "dl_torrent dl" and ?p = "rq_piece r" and ?off = "rq_offset r" and ?m = "reply (dl_torrent dl) B r"
  let ?match = "\<lambda>s. rq_piece s = ?p \<and> rq_offset s = ?off \<and> rq_peer s = pid"
  have gd: "good SHA1 dl" and cn: "content_of SHA1 ?t B" using assms(1) by (auto simp: stored_def)
  then have bk: "books dl" by (simp add: good_def)
  have g: "geometry ?t" by (rule booksD(1) [OF bk])
  have rok: "request_ok ?t r" using booksD(8) [OF bk] assms(2) by simp
  obtain b where b: "?p < numPieces ?t" "b < blocks_of ?t ?p" "?off = b * 16384" "rq_length r = block_length ?t ?p b"
    "?off div block_size = b" "int (?off + rq_length r) \<le> pieceSize ?t ?p"
    by (rule request_okE [OF rok g])
  note pl = reply_payload [OF rok g, of B]
  let ?data = "block_data ?t B ?p ?off (rq_length r)"
  have len: "length ?data = rq_length r"
    using cn block_data_length [OF g _ b(1,6), of B] by (simp add: content_of_def)
  define dl1 where "dl1 = dl\<lparr>dl_pending := rs\<rparr>"
  have s1: "stored SHA1 B dl1" unfolding dl1_def using assms(1,2) by (intro stored_pending) auto
  have f1: "missing dl1 = missing dl" "dl_torrent dl1 = ?t" "dl_peers dl1 = dl_peers dl" "dl_pending dl1 = rs"
    "dl_options dl1 = dl_options dl" "dl_files dl1 = dl_files dl" using missing_same [of dl1 dl] by (simp_all add: dl1_def)
  have rm: "find ?match (dl_pending dl) = Some r" "remove_first ?match (dl_pending dl) = rs"
    using assms(2,3) by auto
  have hb: "dl' = handle_block SHA1 now pid (pm_payload ?m) dl" using pl(5) by (simp add: assms(4) handle_message_def)
  have tot: "\<not> ps_total (dl_pieces dl ! ?p) \<le> int b" using booksD(4) [OF bk b(1)] b(2) by (simp add: piece_ok_def)
  have eq: "dl' = (if has_block dl ?p b then upd_stats pid count_failure dl1
      else cancelDuplicateRequests ?p ?off pid (accept_block SHA1 now pid ?p ?off ?data dl1))"
    unfolding hb handle_block_def pl(1-3) Let_def using pl(4) rm len tot b(5) by (simp add: dl1_def)
  have gt: "good SHA1 dl'" "tracked dl'" unfolding hb using assms(1) gd good_handle_block tracked_handle_block by auto
  show ?thesis
  proof (cases "has_block dl ?p b")
    case True
    then have c: "dl' = upd_stats pid count_failure dl1" using eq by simp
    have "request_block r \<notin> missing dl" using True b(5) by (simp add: missing_def)
    then show ?thesis using s1 gt(2) f1 unfolding c
      by (simp add: stored_core [OF core_upd_stats] missing_core [OF core_upd_stats]) (simp add: upd_stats_def)
  next
    case False
    define d2 where "d2 = accept_block SHA1 now pid ?p ?off ?data dl1"
    have aw: "awaited dl1 ?p b (rq_length r)" using b False by (simp add: awaited_def dl1_def)
    have "?data = block_data (dl_torrent dl1) B ?p ?off (rq_length r)" by (simp add: f1)
    note a = accept_content [OF s1 aw b(3) this d2_def]
    have "dl' = d2" unfolding eq d2_def [symmetric] using False assms(3) a(4) f1 by (simp add: cancelDuplicates_none)
    then show ?thesis using gt a f1 cn b(5) by (simp add: stored_def)
  qed
qed

section \<open>Reading the answers\<close>

definition conn_tx :: "peer_conn \<Rightarrow> tx_event list option" where
  "conn_tx c = map_option sk_tx (pc_sock c)"

lemma conn_recv_tx: "conn_recv n c = (r, c') \<Longrightarrow> conn_tx c' = conn_tx c"
  by (auto simp: conn_recv_def conn_tx_def recvAll_def split: option.splits prod.splits)

lemma apply_message_tx: "apply_message m c = Ok c' \<Longrightarrow> conn_tx c' = conn_tx c"
  using apply_message_keeps [of m c c'] by (simp add: conn_tx_def)

lemma receive_tx: "receiveMessageNonBlocking c m = Ok (True, c', m') \<Longrightarrow> conn_tx c' = conn_tx c"
  by (auto simp: receiveMessageNonBlocking_def read_body_def Let_def split: if_splits prod.splits bool.splits
      dest!: conn_recv_tx apply_message_tx)

lemma receive_reply:
  assumes "polled c (frame m @ q)" "wf_message m" "pm_id m = Block" "pm_payload m \<noteq> []"
  obtains s' where "one_chunk s'" "queued s' = q" "conn_tx c = Some (sk_tx s')"
    "receiveMessageNonBlocking c m0 = Ok (True, c\<lparr>pc_sock := Some s'\<rparr>, m)"
proof -
  have r: "received m0 m = m" using assms(4) by (simp add: received_def)
  obtain s' where s: "one_chunk s'" "queued s' = q"
    "receiveMessageNonBlocking c m0 = obind (apply_message (received m0 m) (c\<lparr>pc_sock := Some s'\<rparr>))
        (\<lambda>c'. Ok (True, c', received m0 m))"
    by (rule poll_frame [OF assms(1,2)])
  then have "receiveMessageNonBlocking c m0 = Ok (True, c\<lparr>pc_sock := Some s'\<rparr>, m)"
    by (simp add: r apply_message_def assms(3))
  with s receive_tx [OF this] show thesis by (intro that [of s']) (simp_all add: conn_tx_def)
qed

lemma set_conn_single: "dl_peers dl = [(pid, c)] \<Longrightarrow> dl_peers (set_conn pid c' dl) = [(pid, c')]"
  by (simp add: set_conn_def)

lemma set_conn_fields [simp]:
  "dl_pending (set_conn pid c dl) = dl_pending dl" "dl_torrent (set_conn pid c dl) = dl_torrent dl"
  "dl_options (set_conn pid c dl) = dl_options dl" "dl_files (set_conn pid c dl) = dl_files dl"
  "dl_pieces (set_conn pid c dl) = dl_pieces dl" "dl_completed (set_conn pid c dl) = dl_completed dl"
  by (simp_all add: set_conn_def)

lemma conn_of_single: "dl_peers dl = [(pid, c)] \<Longrightarrow> conn_of dl pid = Some c"
  by (simp add: conn_of_def)

text \<open>All the answers to the requests in flight, in the order of the requests.\<close>

abbreviation answers :: "torrent_info \<Rightarrow> bytes \<Rightarrow> block_request list \<Rightarrow> bytes" where
  "answers t B rs \<equiv> wire (map (reply t B) rs)"

lemma loop_answers:
  assumes "sound SHA1 B dl" "dl_peers dl = [(pid, c)]" "polled c (answers (dl_torrent dl) B (dl_pending dl))"
    "\<forall>r \<in> set (dl_pending dl). rq_peer r = pid" "length (dl_pending dl) < f"
  shows "\<exists>dl' s'. message_loop SHA1 now pid f m0 dl = Ok dl' \<and> sound SHA1 B dl' \<and> dl_pending dl' = [] \<and>
    missing dl' = missing dl - request_block ` set (dl_pending dl) \<and>
    dl_peers dl' = [(pid, c\<lparr>pc_sock := Some s'\<rparr>)] \<and> one_chunk s' \<and> queued s' = [] \<and> conn_tx c = Some (sk_tx s') \<and>
    dl_torrent dl' = dl_torrent dl \<and> dl_options dl' = dl_options dl \<and> dl_files dl' = dl_files dl"
  using assms
proof (induction "dl_pending dl" arbitrary: dl c f m0)
  case Nil
  then obtain f' where f: "f = Suc f'" by (cases f) auto
  have p: "polled c []" using Nil.prems(3) Nil.hyps by (simp flip: Nil.hyps)
  then obtain s where s: "pc_sock c = Some s" "one_chunk s" "queued s = []" by (auto simp: polled_def)
  have same: "set_conn pid c dl = dl" using Nil.prems(2) by (simp add: set_conn_def)
  have "message_loop SHA1 now pid f m0 dl = Ok dl"
    using conn_of_single [OF Nil.prems(2)] poll_empty [OF p] by (simp add: f same)
  with Nil s show ?case by (intro exI [of _ dl] exI [of _ s]) (auto simp: conn_tx_def sock_same simp flip: Nil.hyps)
next
  case (Cons r rs)
  then obtain f' where f: "f = Suc f'" "length rs < f'" by (cases f) (auto simp flip: Cons.hyps(2))
  let ?t = "dl_torrent dl" and ?m = "reply (dl_torrent dl) B r"
  have bk: "books dl" and B: "int (length B) = totalLength ?t"
    using Cons.prems(1) by (auto simp: stored_def good_def content_of_def)
  have g: "geometry ?t" by (rule booksD(1) [OF bk])
  have rok: "request_ok ?t r" using booksD(8) [OF bk] by (simp flip: Cons.hyps(2))
  note pl = reply_payload [OF rok g, of B]
  have nz: "pm_payload ?m \<noteq> []" using pl(4) by auto
  have "polled c (frame ?m @ answers ?t B rs)" using Cons.prems(3) by (simp flip: Cons.hyps(2))
  then obtain s1 where s1: "one_chunk s1" "queued s1 = answers ?t B rs" "conn_tx c = Some (sk_tx s1)"
    "receiveMessageNonBlocking c m0 = Ok (True, c\<lparr>pc_sock := Some s1\<rparr>, ?m)"
    by (rule receive_reply [OF _ reply_wf [OF rok g B] pl(5) nz])
  let ?c1 = "c\<lparr>pc_sock := Some s1\<rparr>"
  define dl1 where "dl1 = set_conn pid ?c1 dl"
  define dl2 where "dl2 = handle_message SHA1 now pid ?m dl1"
  have d1: "sound SHA1 B dl1" "dl_pending dl1 = r # rs" "missing dl1 = missing dl" "dl_torrent dl1 = ?t"
    "dl_peers dl1 = [(pid, ?c1)]" "dl_options dl1 = dl_options dl" "dl_files dl1 = dl_files dl"
    using Cons.prems(1) set_conn_single [OF Cons.prems(2)]
    by (simp_all add: dl1_def stored_core [OF core_set_conn] tracked_core [OF core_set_conn]
        missing_core [OF core_set_conn] flip: Cons.hyps(2))
  have "\<forall>s \<in> set (r # rs). rq_peer s = pid" using Cons.prems(4) by (simp flip: Cons.hyps(2))
  from handle_reply [OF d1(1,2) this, of dl2 now]
  have d2: "sound SHA1 B dl2" "dl_pending dl2 = rs" "missing dl2 = missing dl - {request_block r}" "dl_torrent dl2 = ?t"
    "dl_peers dl2 = [(pid, ?c1)]" "dl_options dl2 = dl_options dl" "dl_files dl2 = dl_files dl"
    unfolding dl2_def using d1 by simp_all
  have "pc_connected c" using Cons.prems(3) by (simp add: polled_def)
  then have "polled ?c1 (answers (dl_torrent dl2) B (dl_pending dl2))" using s1 d2 by (simp add: polled_def)
  moreover have "\<forall>s \<in> set (dl_pending dl2). rq_peer s = pid" using Cons.prems(4) d2(2) by (simp flip: Cons.hyps(2))
  ultimately obtain dl' s' where e: "message_loop SHA1 now pid f' ?m dl2 = Ok dl'" "sound SHA1 B dl'" "dl_pending dl' = []"
    "missing dl' = missing dl2 - request_block ` set (dl_pending dl2)" "dl_peers dl' = [(pid, ?c1\<lparr>pc_sock := Some s'\<rparr>)]"
    "one_chunk s'" "queued s' = []" "conn_tx ?c1 = Some (sk_tx s')" "dl_torrent dl' = dl_torrent dl2"
    "dl_options dl' = dl_options dl2" "dl_files dl' = dl_files dl2"
    using Cons.hyps(1) [of dl2 ?c1 f' ?m] d2 f(2) by auto
  have "message_loop SHA1 now pid f m0 dl = Ok dl'"
    using conn_of_single [OF Cons.prems(2)] s1(4) e(1) by (simp add: f(1) dl1_def dl2_def)
  moreover have "missing dl' = missing dl - request_block ` set (r # rs)" using e(4) d2(2,3) by auto
  ultimately show ?case using e d2 s1(3) Cons.hyps(2)
    by (intro exI [of _ dl'] exI [of _ s']) (simp add: conn_tx_def)
qed

end
