(* ===== verification/Seed_Turns.thy ===== *)
theory Seed_Turns
  imports Honest_Seed
begin

text \<open>
  One turn of the download loop with such a peer: the answers are taken, and more blocks are
  asked for while some are missing. So the download completes, in a number of turns bounded by
  the number of missing blocks.
\<close>

section \<open>The peer\<close>

definition tx_reliable :: "tx_event list \<Rightarrow> bool" where
  "tx_reliable tx \<longleftrightarrow> TxFail \<notin> set tx \<and> Accept 0 \<notin> set tx"

lemma send_all_reliable:
  "tx_reliable tx \<Longrightarrow> \<exists>tx'. send_all d tx = (True, d, tx') \<and> tx_reliable tx'"
proof (induction d tx rule: send_all.induct)
  case (2 d e r)
  have r: "tx_reliable r" "e \<noteq> TxFail" "e \<noteq> Accept 0" using "2.prems" by (auto simp: tx_reliable_def)
  show ?case
  proof (cases "d = []")
    case False
    show ?thesis
    proof (cases e)
      case (Accept n)
      then have n: "n \<noteq> 0" using r(3) by auto
      from "2.IH"(1) [OF False Accept n r(1)] obtain tx' where "send_all (drop n d) r = (True, drop n d, tx')" "tx_reliable tx'"
        by blast
      then show ?thesis using False Accept n by simp
    next
      case TxIntr
      with "2.IH"(2) [OF False TxIntr r(1)] False show ?thesis by simp
    qed (use r in simp)
  qed (use 2 in simp)
qed (simp add: tx_reliable_def)

text \<open>
  A peer with all of \<open>n\<close> pieces that lets us download; nothing is on its way from it, and what
  is sent to it gets through.
\<close>

definition seed_conn :: "nat \<Rightarrow> peer_conn \<Rightarrow> bool" where
  "seed_conn n c \<longleftrightarrow> pc_connected c \<and> \<not> pc_peerChoking c \<and> pc_discovered c = [] \<and> (\<forall>i < n. hasPiece c i) \<and>
     (\<exists>s. pc_sock c = Some s \<and> one_chunk s \<and> queued s = [] \<and> tx_reliable (sk_tx s))"

lemma seed_conn_polled: "seed_conn n c \<Longrightarrow> polled (arrive b c) b"
  by (auto simp: seed_conn_def polled_def arrive_def)

lemma seed_conn_sock:
  "seed_conn n c \<Longrightarrow> one_chunk s \<Longrightarrow> queued s = [] \<Longrightarrow> tx_reliable (sk_tx s) \<Longrightarrow> seed_conn n (c\<lparr>pc_sock := Some s\<rparr>)"
  by (simp add: seed_conn_def hasPiece_def)

lemma seed_request:
  assumes "seed_conn n c"
  obtains c' where "sendRequest p off len c = (True, c')" "seed_conn n c'" "\<And>i. hasPiece c' i = hasPiece c i"
proof -
  obtain s where s: "pc_connected c" "pc_sock c = Some s" "one_chunk s" "queued s = []" "tx_reliable (sk_tx s)"
    using assms by (auto simp: seed_conn_def)
  obtain tx where tx: "send_all (frame (createRequest p off len)) (sk_tx s) = (True, frame (createRequest p off len), tx)" "tx_reliable tx"
    using send_all_reliable [OF s(5)] by blast
  let ?c' = "c\<lparr>pc_sock := Some (s\<lparr>sk_tx := tx, sk_sent := sk_sent s @ frame (createRequest p off len)\<rparr>)\<rparr>"
  have "sendRequest p off len c = (True, ?c')"
    using s tx by (simp add: sendRequest_def sendMessage_def conn_send_def sendAll_def)
  moreover have "seed_conn n ?c'"
    using seed_conn_sock [OF assms] s tx(2) by (simp add: one_chunk_def queued_def)
  ultimately show thesis using that by (simp add: hasPiece_def)
qed

section \<open>The answers come\<close>

lemma take_answers:
  assumes "sound SHA1 B dl" "dl_peers dl = [(pid, c)]" "seed_conn n c" "\<forall>r \<in> set (dl_pending dl). rq_peer r = pid"
    "arrived pid = answers (dl_torrent dl) B (dl_pending dl)"
  shows "\<exists>dl' c'. processPeerMessages SHA1 now arrived dl = Ok dl' \<and> sound SHA1 B dl' \<and> dl_pending dl' = [] \<and>
    missing dl' = missing dl - request_block ` set (dl_pending dl) \<and> dl_peers dl' = [(pid, c')] \<and> seed_conn n c' \<and>
    dl_torrent dl' = dl_torrent dl \<and> dl_options dl' = dl_options dl \<and> dl_files dl' = dl_files dl"
proof -
  let ?b = "answers (dl_torrent dl) B (dl_pending dl)"
  let ?c1 = "arrive ?b c" and ?dl1 = "set_conn pid (arrive ?b c) dl"
  obtain s where s: "pc_sock c = Some s" "tx_reliable (sk_tx s)" "pc_connected c" "pc_discovered c = []"
    using assms(3) by (auto simp: seed_conn_def)
  have c1: "polled ?c1 ?b" "conn_tx ?c1 = Some (sk_tx s)"
    using seed_conn_polled [OF assms(3)] s(1) by (simp_all add: arrive_def conn_tx_def sock_arrive_def)
  have d1: "sound SHA1 B ?dl1" "missing ?dl1 = missing dl"
    using assms(1) by (simp_all add: stored_core [OF core_set_conn] tracked_core [OF core_set_conn] missing_core [OF core_set_conn])
  have fuel: "length (dl_pending ?dl1) < Suc (conn_weight ?c1)"
  proof -
    have "conn_queued ?c1 = ?b" using c1(1) by (auto simp: polled_def conn_queued_def)
    moreover have "length (conn_queued ?c1) \<le> conn_weight ?c1"
      using c1(1) by (auto simp: polled_def conn_queued_def conn_weight_def queued_def rx_queued_def one_chunk_def)
    moreover have "length (map (reply (dl_torrent dl) B) (dl_pending dl)) \<le> length ?b" by (rule length_wire)
    ultimately show ?thesis by simp
  qed
  obtain dl' s' where l: "message_loop SHA1 now pid (Suc (conn_weight ?c1)) no_message ?dl1 = Ok dl'" "sound SHA1 B dl'"
    "dl_pending dl' = []" "missing dl' = missing ?dl1 - request_block ` set (dl_pending ?dl1)"
    "dl_peers dl' = [(pid, ?c1\<lparr>pc_sock := Some s'\<rparr>)]" "one_chunk s'" "queued s' = []" "conn_tx ?c1 = Some (sk_tx s')"
    "dl_torrent dl' = dl_torrent ?dl1" "dl_options dl' = dl_options ?dl1" "dl_files dl' = dl_files ?dl1"
    using loop_answers [OF d1(1) set_conn_single [OF assms(2)], of "Suc (conn_weight ?c1)" now no_message] c1(1) assms(4) fuel
    by auto
  let ?c' = "c\<lparr>pc_sock := Some s'\<rparr>"
  have c': "?c1\<lparr>pc_sock := Some s'\<rparr> = ?c'" by (simp add: arrive_def)
  have seed: "seed_conn n ?c'" using seed_conn_sock [OF assms(3) l(6,7)] l(8) c1(2) s(2) by simp
  have disc: "takeDiscoveredPeers ?c' = ([], ?c')" using s(4) by (simp add: takeDiscoveredPeers_def)
  have same: "set_conn pid ?c' dl' = dl'" using l(5) c' by (simp add: set_conn_def)
  have "process_peer SHA1 now ?b pid dl = Ok ([], dl')"
    using conn_of_single [OF assms(2)] s(3) l(1) conn_of_single [OF l(5)] c' disc same
    by (simp add: process_peer_def Let_def del: message_loop.simps)
  then have "processPeerMessages SHA1 now arrived dl = Ok dl'"
    using assms(2,5) by (simp add: processPeerMessages_def)
  with l seed c' d1(2) show ?thesis by (intro exI [of _ dl'] exI [of _ ?c']) simp
qed

section \<open>More blocks are asked for\<close>

text \<open>What requesting blocks leaves as it is, and what it adds to the list of requests.\<close>

definition asks_more :: "int \<Rightarrow> nat \<Rightarrow> nat \<Rightarrow> downloader \<Rightarrow> downloader \<Rightarrow> bool" where
  "asks_more now n pid dl dl' \<longleftrightarrow>
     dl_torrent dl' = dl_torrent dl \<and> dl_files dl' = dl_files dl \<and> dl_fs dl' = dl_fs dl \<and>
     dl_options dl' = dl_options dl \<and> (\<forall>p i. has_block dl' p i = has_block dl p i) \<and>
     (\<exists>c. dl_peers dl' = [(pid, c)] \<and> seed_conn n c) \<and>
     (\<exists>new. dl_pending dl' = dl_pending dl @ new \<and>
        (\<forall>r \<in> set new. rq_peer r = pid \<and> rq_time r = now \<and> \<not> has_block dl (rq_piece r) (rq_offset r div block_size)))"

lemma asks_more_refl: "dl_peers dl = [(pid, c)] \<Longrightarrow> seed_conn n c \<Longrightarrow> asks_more now n pid dl dl"
  by (simp add: asks_more_def)

lemma asks_more_trans: "asks_more now n pid a b \<Longrightarrow> asks_more now n pid b c \<Longrightarrow> asks_more now n pid a c"
  by (auto simp: asks_more_def)

lemma ask_block:
  assumes "dl_peers dl = [(pid, c)]" "seed_conn n c" "\<not> has_block dl p i" "block_offset i div block_size = i"
    "sendRequest (of_nat p) (of_nat (block_offset i)) (of_nat (block_length (dl_torrent dl) p i)) c = (True, c')" "seed_conn n c'"
    "dl' = (upd_piece p (\<lambda>st. st\<lparr>ps_requested := (ps_requested st)[i := True]\<rparr>) (set_conn pid c' dl))
      \<lparr>dl_pending := dl_pending dl @ [\<lparr>rq_piece = p, rq_offset = block_offset i,
         rq_length = block_length (dl_torrent dl) p i, rq_peer = pid, rq_time = now\<rparr>]\<rparr>"
  shows "asks_more now n pid dl dl'"
  unfolding asks_more_def
proof (intro conjI allI)
  show "has_block dl' q j = has_block dl q j" for q j
    by (simp add: assms(7) upd_piece_def nth_update)
  show "\<exists>c. dl_peers dl' = [(pid, c)] \<and> seed_conn n c"
    using set_conn_single [OF assms(1), of c'] assms(6) by (simp add: assms(7))
  show "\<exists>new. dl_pending dl' = dl_pending dl @ new \<and>
      (\<forall>r \<in> set new. rq_peer r = pid \<and> rq_time r = now \<and> \<not> has_block dl (rq_piece r) (rq_offset r div block_size))"
    using assms(3,4) by (simp add: assms(7))
qed (simp_all add: assms(7) set_conn_def)

lemma request_loop_asks:
  "dl_peers dl = [(pid, c)] \<Longrightarrow> seed_conn n c \<Longrightarrow> \<forall>i \<in> set is. block_offset i div block_size = i \<Longrightarrow>
   asks_more now n pid dl (request_loop now pid p is k dl) \<and>
   (k < op_maxRequests (dl_options dl) \<longrightarrow>
    (\<exists>i \<in> set is. \<not> has_block dl p i \<and> \<not> ps_requested (dl_pieces dl ! p) ! i) \<longrightarrow>
    dl_pending (request_loop now pid p is k dl) \<noteq> dl_pending dl)"
proof (induction "is" arbitrary: k dl c)
  case Nil
  then show ?case by (simp add: asks_more_refl)
next
  case (Cons i "is")
  obtain c' where c': "sendRequest (of_nat p) (of_nat (block_offset i)) (of_nat (block_length (dl_torrent dl) p i)) c = (True, c')"
    "seed_conn n c'" by (rule seed_request [OF Cons.prems(2)])
  define d where "d = (upd_piece p (\<lambda>st. st\<lparr>ps_requested := (ps_requested st)[i := True]\<rparr>) (set_conn pid c' dl))
      \<lparr>dl_pending := dl_pending dl @ [\<lparr>rq_piece = p, rq_offset = block_offset i,
         rq_length = block_length (dl_torrent dl) p i, rq_peer = pid, rq_time = now\<rparr>]\<rparr>"
  have dp: "dl_peers d = [(pid, c')]" using set_conn_single [OF Cons.prems(1)] by (simp add: d_def)
  have offs: "\<forall>i \<in> set is. block_offset i div block_size = i" using Cons.prems(3) by simp
  note IH = Cons.IH [OF Cons.prems(1,2) offs, of k] and IH' = Cons.IH [OF dp c'(2) offs, of "k + 1"]
  consider "op_maxRequests (dl_options dl) \<le> k" | "k < op_maxRequests (dl_options dl)" "has_block dl p i"
    | "k < op_maxRequests (dl_options dl)" "\<not> has_block dl p i" "ps_requested (dl_pieces dl ! p) ! i \<and> duplicate_refused dl pid p i"
    | "k < op_maxRequests (dl_options dl)" "\<not> has_block dl p i" "\<not> (ps_requested (dl_pieces dl ! p) ! i \<and> duplicate_refused dl pid p i)"
    by linarith
  then show ?case
  proof cases
    case 1
    then show ?thesis using asks_more_refl [OF Cons.prems(1,2)] by simp
  next
    case 4
    have eq: "request_loop now pid p (i # is) k dl = request_loop now pid p is (k + 1) d"
      using 4 conn_of_single [OF Cons.prems(1)] c'(1) by (auto simp: d_def Let_def)
    have "block_offset i div block_size = i" using Cons.prems(3) by simp
    note a = ask_block [OF Cons.prems(1,2) 4(2) this c' d_def]
    note t = asks_more_trans [OF a] IH'
    have "asks_more now n pid dl (request_loop now pid p is (k + 1) d)" using t by blast
    moreover have "dl_pending (request_loop now pid p is (k + 1) d) \<noteq> dl_pending dl"
    proof -
      obtain new where "dl_pending (request_loop now pid p is (k + 1) d) = dl_pending d @ new"
        using IH' by (auto simp: asks_more_def)
      then show ?thesis by (simp add: d_def)
    qed
    ultimately show ?thesis by (simp only: eq) blast
  qed (use IH in auto)
qed

lemma incomplete_block:
  assumes "books dl" "p < numPieces (dl_torrent dl)" "\<not> dl_completed dl ! p"
  obtains b where "b < blocks_of (dl_torrent dl) p" "\<not> has_block dl p b"
proof -
  have ok: "piece_ok (dl_torrent dl) p (dl_pieces dl ! p)" by (rule booksD(4) [OF assms(1,2)])
  have "ps_count (dl_pieces dl ! p) \<noteq> ps_total (dl_pieces dl ! p)" using assms booksD(5) by blast
  then have "count_true (ps_received (dl_pieces dl ! p)) \<noteq> length (ps_received (dl_pieces dl ! p))"
    using ok blocks_bounds(1) [OF booksD(1) [OF assms(1)] assms(2)] by (auto simp: piece_ok_def)
  with ok that show thesis unfolding count_true_full by (auto simp: piece_ok_def)
qed

lemma missing_incomplete:
  assumes "books dl" "(p, b) \<in> missing dl"
  shows "\<not> dl_completed dl ! p" "ps_count (dl_pieces dl ! p) < ps_total (dl_pieces dl ! p)"
  using awaited_piece [OF assms(1), of p b "block_length (dl_torrent dl) p b"] assms(2)
  by (auto simp: missing_def awaited_def)

lemma chosen_incomplete:
  assumes "books dl" "dl_peers dl = [(pid, c)]" "needed_pieces dl c \<noteq> []"
  shows "\<not> dl_completed dl ! chosen_piece dl c"
proof -
  have "hd (needed_pieces dl c) \<in> set (needed_pieces dl c)" using assms(3) by simp
  then have h: "\<not> dl_completed dl ! hd (needed_pieces dl c)" by (auto simp: needed_pieces_def)
  have "int (length (dl_peers dl)) < 2 ^ 31 - 1" using assms(2) by simp
  from selectNextPiece_spec [OF assms(1) this] h show ?thesis
    by (auto simp: chosen_piece_def split: option.splits)
qed

lemma seed_asked:
  assumes "good SHA1 dl" "tracked dl" "dl_peers dl = [(pid, c)]" "seed_conn (numPieces (dl_torrent dl)) c"
    "dl_pending dl = []" "0 < op_maxRequests (dl_options dl)"
  shows "asks_more now (numPieces (dl_torrent dl)) pid dl (requestPieces now dl)"
    and "missing dl \<noteq> {} \<Longrightarrow> dl_pending (requestPieces now dl) \<noteq> []"
proof -
  let ?t = "dl_torrent dl" and ?n = "numPieces (dl_torrent dl)"
  have bk: "books dl" using assms(1) by (simp add: good_def)
  have g: "geometry ?t" by (rule booksD(1) [OF bk])
  have sc: "pc_connected c" "\<not> pc_peerChoking c" "\<And>i. i < ?n \<Longrightarrow> hasPiece c i"
    using assms(4) by (auto simp: seed_conn_def)
  have none: "requests_of dl pid = 0" by (simp add: requests_of_def assms(5))
  let ?p = "chosen_piece dl c" and ?is = "[0..<nat (ps_total (dl_pieces dl ! chosen_piece dl c))]"
  have eq: "requestPieces now dl = (if needed_pieces dl c = [] then dl else request_loop now pid ?p ?is 0 dl)"
    using assms(3,6) sc(1,2) none conn_of_single [OF assms(3)]
    by (simp add: requestPieces_def Let_def std_sort_def requestBlocksFromPeer_def)
  have loop: "asks_more now ?n pid dl (request_loop now pid ?p ?is 0 dl) \<and>
      dl_pending (request_loop now pid ?p ?is 0 dl) \<noteq> []" if ne: "needed_pieces dl c \<noteq> []"
  proof -
    have p: "?p < ?n" by (rule chosen_piece_bound [OF ne])
    have tot: "nat (ps_total (dl_pieces dl ! ?p)) = blocks_of ?t ?p" using booksD(4) [OF bk p] by (simp add: piece_ok_def)
    have offs: "\<forall>i \<in> set ?is. block_offset i div block_size = i"
      using block_offset_eq [OF g p] by (auto simp: tot block_size_def)
    obtain b where b: "b < blocks_of ?t ?p" "\<not> has_block dl ?p b"
      by (rule incomplete_block [OF bk p chosen_incomplete [OF bk assms(3) ne]])
    have "\<not> ps_requested (dl_pieces dl ! ?p) ! b"
      using tracked_in_flight [OF assms(2), of ?p b] books_flagged [OF bk, of ?p b] p b assms(5)
      by (auto simp: wanted_def in_flight_def)
    with b have "\<exists>i \<in> set ?is. \<not> has_block dl ?p i \<and> \<not> ps_requested (dl_pieces dl ! ?p) ! i"
      by (auto simp: tot)
    then show ?thesis using request_loop_asks [OF assms(3,4) offs, of now ?p 0] assms(5,6) by auto
  qed
  show "asks_more now ?n pid dl (requestPieces now dl)" unfolding eq using loop asks_more_refl [OF assms(3,4)] by simp
  assume "missing dl \<noteq> {}"
  then obtain p b where m: "(p, b) \<in> missing dl" by auto
  then have "p \<in> set (needed_pieces dl c)"
    using missing_incomplete [OF bk m] sc(3) by (auto simp: needed_pieces_def missing_def)
  then have "needed_pieces dl c \<noteq> []" by auto
  with loop show "dl_pending (requestPieces now dl) \<noteq> []" unfolding eq by simp
qed

section \<open>One turn\<close>

text \<open>The environment of a turn in which the peer has answered everything.\<close>

definition answering :: "bytes \<Rightarrow> downloader \<Rightarrow> turn_env \<Rightarrow> turn_env" where
  "answering B dl env = env\<lparr>te_arrived := (\<lambda>_. answers (dl_torrent dl) B (dl_pending dl))\<rparr>"

definition seeded :: "(bytes \<Rightarrow> bytes) \<Rightarrow> bytes \<Rightarrow> downloader \<Rightarrow> bool" where
  "seeded SHA1 B dl \<longleftrightarrow> requests_inv SHA1 dl \<and> stored SHA1 B dl \<and> 0 < op_maxRequests (dl_options dl) \<and>
     (\<exists>pid c. dl_peers dl = [(pid, c)] \<and> seed_conn (numPieces (dl_torrent dl)) c \<and>
        (\<forall>r \<in> set (dl_pending dl). rq_peer r = pid \<and> request_block r \<in> missing dl))"

lemma connect_none:
  assumes "dl_peers dl = [(pid, c)]" "pc_connected c"
  shows "snd (connectToPeers now env dl) = dl"
proof -
  have "dl\<lparr>dl_peers := std_sort (faster dl) (dl_peers dl)\<rparr> = dl" using assms(1) by (simp add: std_sort_def)
  then show ?thesis using assms conn_of_single [OF assms(1)] by (simp add: connectToPeers_def Let_def)
qed

lemma cleanup_recent:
  assumes "\<forall>r \<in> set (dl_pending dl). \<not> timed_out now r"
  shows "cleanupTimedOutRequests now dl = dl"
proof -
  have "filter (timed_out now) (dl_pending dl) = []" "filter (\<lambda>r. \<not> timed_out now r) (dl_pending dl) = dl_pending dl"
    using assms by (auto intro!: filter_True filter_False)
  then show ?thesis by (simp add: cleanupTimedOutRequests_def drop_requests_def)
qed

text \<open>A request for a block that has not come is a request for a missing block.\<close>

lemma requested_missing:
  assumes "books dl" "r \<in> set (dl_pending dl)" "\<not> has_block dl (rq_piece r) (rq_offset r div block_size)"
  shows "request_block r \<in> missing dl"
proof -
  obtain b where "rq_piece r < numPieces (dl_torrent dl)" "b < blocks_of (dl_torrent dl) (rq_piece r)"
    "rq_offset r div block_size = b"
    by (rule request_okE [OF booksD(8) [OF assms(1,2)] booksD(1) [OF assms(1)]])
  with assms(3) show ?thesis by (auto simp: missing_def)
qed

lemma seeded_turn:
  assumes "seeded SHA1 B dl" "te_now env 3 - te_now env 2 \<le> 15 * 1000000000"
  shows "\<exists>dl'. turn_work SHA1 (answering B dl env) dl = Ok dl' \<and> seeded SHA1 B dl' \<and>
    missing dl' = missing dl - request_block ` set (dl_pending dl) \<and> (missing dl' \<noteq> {} \<longrightarrow> dl_pending dl' \<noteq> []) \<and>
    dl_torrent dl' = dl_torrent dl \<and> dl_files dl' = dl_files dl"
proof -
  let ?env = "answering B dl env" and ?now = "te_now env" and ?n = "numPieces (dl_torrent dl)"
  have env: "te_now ?env = te_now env" "te_connect ?env = te_connect env"
    "te_arrived ?env = (\<lambda>_. answers (dl_torrent dl) B (dl_pending dl))" by (simp_all add: answering_def)
  obtain pid c where p: "dl_peers dl = [(pid, c)]" "seed_conn ?n c" "\<forall>r \<in> set (dl_pending dl). rq_peer r = pid"
    "0 < op_maxRequests (dl_options dl)" and so: "sound SHA1 B dl" and ri: "requests_inv SHA1 dl"
    using assms(1) by (auto simp: seeded_def requests_inv_def)
  have "pc_connected c" using p(2) by (simp add: seed_conn_def)
  note conn = connect_none [OF p(1) this, of "?now 0" "te_connect env"]
  obtain d1 c1 where d1: "processPeerMessages SHA1 (?now 1) (te_arrived ?env) dl = Ok d1" "sound SHA1 B d1" "dl_pending d1 = []"
    "missing d1 = missing dl - request_block ` set (dl_pending dl)" "dl_peers d1 = [(pid, c1)]" "seed_conn ?n c1"
    "dl_torrent d1 = dl_torrent dl" "dl_options d1 = dl_options dl" "dl_files d1 = dl_files dl"
    using take_answers [OF so p(1,2,3), of "te_arrived ?env" "?now 1"] by (auto simp: env(3))
  have g1: "good SHA1 d1" "tracked d1" "seed_conn (numPieces (dl_torrent d1)) c1" "0 < op_maxRequests (dl_options d1)"
    using d1 p(4) by (auto simp: stored_def)
  define d2 where "d2 = requestPieces (?now 2) d1"
  have a: "asks_more (?now 2) ?n pid d1 d2"
    using seed_asked(1) [OF g1(1,2) d1(5) g1(3) d1(3) g1(4)] d1(7) by (simp add: d2_def)
  have ask: "missing d1 \<noteq> {} \<Longrightarrow> dl_pending d2 \<noteq> []"
    using seed_asked(2) [OF g1(1,2) d1(5) g1(3) d1(3) g1(4)] by (simp add: d2_def)
  have pend: "\<forall>r \<in> set (dl_pending d2). rq_peer r = pid \<and> rq_time r = ?now 2 \<and>
      \<not> has_block d1 (rq_piece r) (rq_offset r div block_size)"
    using a d1(3) by (auto simp: asks_more_def)
  have "tdiv (?now 3 - ?now 2) 1000000 \<le> 15000"
  proof (cases "0 \<le> ?now 3 - ?now 2")
    case True
    with assms(2) have "(?now 3 - ?now 2) div 1000000 \<le> (15 * 1000000000) div 1000000"
      by (intro zdiv_mono1) simp_all
    with True show ?thesis by simp
  next
    case False
    then show ?thesis by (simp add: tdiv_def)
  qed
  then have clean: "cleanupTimedOutRequests (?now 3) d2 = d2"
    using pend by (intro cleanup_recent) (simp add: timed_out_def)
  define dl' where "dl' = update_endgame (updateSpeedStats (?now 4) d2)"
  have run: "turn_work SHA1 ?env dl = Ok dl'"
    using d1(1) clean by (simp add: turn_work_def Let_def env conn d2_def dl'_def)
  have ri': "requests_inv SHA1 dl'" using requests.star_rel [OF turn_work_path [OF run]] ri by blast
  have core: "core dl' = core d2" by (simp add: dl'_def)
  have same: "dl_peers dl' = dl_peers d2" "dl_options dl' = dl_options d2"
    by (simp_all add: dl'_def update_endgame_def updateSpeedStats_def Let_def)
  note cf = core_fields [OF core]
  have miss: "missing dl' = missing d1"
    using a by (simp add: missing_core [OF core]) (simp add: asks_more_def missing_def)
  have st: "stored SHA1 B dl'"
    using a d1(2) ri' cf(1,3,7,8)
    by (simp add: stored_def requests_inv_def dl_inv_def asks_more_def faithful_def)
  have "books dl'" using ri' by (simp add: requests_inv_def dl_inv_def good_def)
  moreover have "has_block dl' p i = has_block d1 p i" for p i using a cf(3) by (simp add: asks_more_def)
  ultimately have ok: "request_block r \<in> missing dl'" if "r \<in> set (dl_pending dl')" for r
    using requested_missing [of dl' r] that pend cf(6) by simp
  have "seeded SHA1 B dl'" unfolding seeded_def
    using ri' st ok pend a same cf(1,6) d1(7,8) p(4) by (auto simp: asks_more_def)
  then show ?thesis using run miss d1(4,7,9) ask a cf(1,6,7) by (intro exI [of _ dl']) (auto simp: asks_more_def)
qed

section \<open>The whole download\<close>

fun seed_turns :: "(bytes \<Rightarrow> bytes) \<Rightarrow> bytes \<Rightarrow> turn_env list \<Rightarrow> downloader \<Rightarrow> (berror, downloader) outcome" where
  "seed_turns SHA1 B [] dl = Ok dl"
| "seed_turns SHA1 B (env # envs) dl = obind (turn_work SHA1 (answering B dl env) dl) (seed_turns SHA1 B envs)"

lemma seeded_turns:
  "seeded SHA1 B dl \<Longrightarrow>
   card (missing dl) + (if dl_pending dl = [] \<and> missing dl \<noteq> {} then 1 else 0) \<le> length envs \<Longrightarrow>
   \<forall>env \<in> set envs. te_now env 3 - te_now env 2 \<le> 15 * 1000000000 \<Longrightarrow>
   \<exists>dl'. seed_turns SHA1 B envs dl = Ok dl' \<and> seeded SHA1 B dl' \<and> missing dl' = {}"
proof (induction envs arbitrary: dl)
  case Nil
  then show ?case by simp
next
  case (Cons env envs)
  obtain d where d: "turn_work SHA1 (answering B dl env) dl = Ok d" "seeded SHA1 B d"
    "missing d = missing dl - request_block ` set (dl_pending dl)" "missing d \<noteq> {} \<longrightarrow> dl_pending d \<noteq> []"
    using seeded_turn [OF Cons.prems(1), of env] Cons.prems(3) by auto
  have "card (missing d) + (if dl_pending d = [] \<and> missing d \<noteq> {} then 1 else 0) \<le> length envs"
  proof (cases "dl_pending dl")
    case Nil
    then show ?thesis using d(3,4) Cons.prems(2) by (cases "missing dl = {}") auto
  next
    case (Cons r rs)
    then have "request_block r \<in> missing dl" "request_block r \<notin> missing d"
      using Cons.prems(1) d(3) by (auto simp: seeded_def)
    then have "missing d \<subset> missing dl" using d(3) by blast
    then have "card (missing d) < card (missing dl)" by (intro psubset_card_mono) simp_all
    then show ?thesis using Cons.prems(2) d(4) by auto
  qed
  from Cons.IH [OF d(2) this] d(1) Cons.prems(3) show ?case by simp
qed

lemma seed_completes:
  assumes "seeded SHA1 B dl" "card (missing dl) < length envs"
    "\<forall>env \<in> set envs. te_now env 3 - te_now env 2 \<le> 15 * 1000000000"
  shows "\<exists>dl'. seed_turns SHA1 B envs dl = Ok dl' \<and> isComplete dl' \<and> dl_flat dl' = B"
proof -
  have "card (missing dl) + (if dl_pending dl = [] \<and> missing dl \<noteq> {} then 1 else 0) \<le> length envs"
    using assms(2) by simp
  from seeded_turns [OF assms(1) this assms(3)] obtain dl' where d: "seed_turns SHA1 B envs dl = Ok dl'"
    "seeded SHA1 B dl'" "missing dl' = {}" by blast
  have "stored SHA1 B dl'" using d(2) by (simp add: seeded_def)
  then have "good SHA1 dl'" "faithful B dl'" "int (length B) = totalLength (dl_torrent dl')"
    by (auto simp: stored_def content_of_def)
  with faithful_complete [OF this d(3)] nothing_missing_complete [OF _ d(3)] d(1) show ?thesis
    by (auto simp: good_def)
qed

end
