(* ===== verification/Examples.thy ===== *)
theory Examples
  imports Robustness Cli Tracker_List Archive Seed_Turns
begin

text \<open>Small concrete inputs, for the witnesses of the properties.\<close>

definition empty_fs :: fs where
  "empty_fs = \<lparr>nodes = Map.empty, denied = (\<lambda>_. False), faults = (\<lambda>_ _. None), writes = 0\<rparr>"

text \<open>A torrent of two pieces of one byte, a hash that tells the byte 5 from all else, and a
  directory with the first piece of the torrent's file.\<close>

definition ex_torrent :: torrent_info where
  "ex_torrent = empty_torrent\<lparr>tName := ''a'', tFileName := ''a'', tFileLength := 2, tPieceLength := 1,
     tPieces := replicate 40 CHR ''x'', tInfoHash := replicate 20 CHR ''h'', tPeerId := replicate 20 CHR ''p''\<rparr>"

definition ex_sha :: "bytes \<Rightarrow> bytes" where
  "ex_sha b = bytes_of_str (replicate 20 (if b = [5] then CHR ''x'' else CHR ''y''))"

definition ex_fs :: "bytes \<Rightarrow> fs" where
  "ex_fs b = empty_fs\<lparr>nodes := [[''out''] \<mapsto> Dir, [''out'', ''a''] \<mapsto> File b]\<rparr>"

definition ex_options :: download_options where
  "ex_options = \<lparr>op_maxPeers = 30, op_maxRequests = 5, op_refreshTrackers = False, op_overwrite = False\<rparr>"

lemma ex_geometry: "geometry ex_torrent"
  by (simp add: geometry_def valid_torrent_def ex_torrent_def empty_torrent_def totalLength_def isMultiFile_def
      numPieces_def expectedPieces_def)


lemma ex_dirs: "createDirectories ''out'' (ex_fs b) = (True, ex_fs b)"
  by (simp add: createDirectories_def Let_def strip_trailing_slashes_def stat_def ex_fs_def path_key_def empty_fs_def)

definition ex_files :: "output_file list" where
  "ex_files = [\<lparr>out_path = ''out/a'', out_start = 0, out_length = 2, out_open = True\<rparr>]"

text \<open>Opening the file counts as a write: it is resized.\<close>

definition ex_disk :: "bytes \<Rightarrow> fs" where
  "ex_disk b = count_write (ex_fs b)"

lemma ex_open: "openOutputFiles ex_torrent ''out'' False (ex_fs [b, c]) = (True, ex_files, ex_disk [b, c])"
  by (simp add: openOutputFiles_def totalLength_def isMultiFile_def ex_torrent_def empty_torrent_def Let_def
      sanitizeFileName_def sanitize_char_def safeResumeTarget_def openOutputHandle_def resizeFile_def
      fopen_def ftruncate_def stat_def path_key_def ex_fs_def empty_fs_def set_file_def file_bytes_def
      resize_bytes_def ex_files_def ex_disk_def count_write_def fun_eq_iff)

lemma ex_pieces: "numPieces ex_torrent = 2" "pieceSize ex_torrent 0 = 1" "pieceSize ex_torrent 1 = 1"
  by (simp_all add: ex_torrent_def empty_torrent_def numPieces_def pieceSize_def totalLength_def isMultiFile_def)


lemma ex_path_keys: "path_key ''out'' = [''out'']" "path_key ''out/a'' = [''out'', ''a'']"
  by (simp_all add: path_key_def)

lemma ex_store: "layout 0 ex_files" "sized ex_files (ex_disk [b, c])" "flat ex_files (ex_disk [b, c]) = [b, c]"
  by (simp_all add: ex_files_def sized_def ex_disk_def ex_fs_def file_bytes_def ex_path_keys empty_fs_def)

lemma ex_range: "i < 2 \<Longrightarrow> read_range ex_files (int i) 1 (ex_disk [b, c]) = Some [if i = 0 then b else c]"
  using read_range_flat [OF ex_store(1,2), of "int i" 1 b c]
  by (auto simp: ex_store(3) less_2_cases_iff)

lemma ex_read:
  assumes "i < 2" "dl_torrent dl = ex_torrent" "dl_files dl = ex_files" "dl_fs dl = ex_disk [b, c]"
  shows "readPieceFromDisk dl i = Some [if i = 0 then b else c]"
proof -
  have "pieceSize ex_torrent i = 1" using assms(1) ex_pieces by (auto simp: less_2_cases_iff)
  moreover have "tPieceLength ex_torrent = 1" "ex_files \<noteq> []" by (simp_all add: ex_torrent_def ex_files_def)
  ultimately show ?thesis using ex_range [OF assms(1)] by (simp add: readPieceFromDisk_def assms(2-4) Let_def)
qed

lemma ex_verify:
  assumes "i < 2" "dl_torrent dl = ex_torrent" "dl_files dl = ex_files" "dl_fs dl = ex_disk [b, c]"
  shows "verifyPiece ex_sha dl i = ((if i = 0 then b else c) = 5)"
proof -
  have "length (tPieces ex_torrent) = 40" "take 20 (drop (i * 20) (tPieces ex_torrent)) = replicate 20 CHR ''x''"
    using assms(1) by (auto simp: ex_torrent_def less_2_cases_iff)
  moreover have "sha1_str ex_sha [d] = replicate 20 (if d = 5 then CHR ''x'' else CHR ''y'')" for d
    by (simp add: sha1_str_def ex_sha_def)
  ultimately show ?thesis using assms(1,2) by (simp add: verifyPiece_def ex_read [OF assms] Let_def)
qed

lemma ex_blocks: "i < 2 \<Longrightarrow> calculateBlocksForPiece ex_torrent i = 1"
  using calculateBlocks_eq [OF ex_geometry, of i] ex_pieces by (auto simp: less_2_cases_iff)

text \<open>The state in which \<open>start\<close> leaves a downloader that finds the bytes \<open>b\<close> and \<open>c\<close> on disk.\<close>

definition ex_opened :: "byte \<Rightarrow> byte \<Rightarrow> downloader" where
  "ex_opened b c = (dl_new ex_torrent ''out'' ex_options (ex_fs [b, c]) 0)
     \<lparr>dl_running := True, dl_stop := False, dl_files := ex_files, dl_fs := ex_disk [b, c]\<rparr>"

definition ex_state :: "byte \<Rightarrow> byte \<Rightarrow> downloader" where
  "ex_state b c = restoreCompletedPieces ex_sha (\<lambda>_. False) (ex_opened b c)"

lemma ex_opened_fields:
  "dl_torrent (ex_opened b c) = ex_torrent" "dl_files (ex_opened b c) = ex_files"
  "dl_fs (ex_opened b c) = ex_disk [b, c]" "dl_pending (ex_opened b c) = []" "dl_peers (ex_opened b c) = []"
  "dl_options (ex_opened b c) = ex_options" "dl_trackers (ex_opened b c) = tm_new []" "\<not> dl_stop (ex_opened b c)"
  by (simp_all add: ex_opened_def dl_new_def) (simp add: ex_torrent_def empty_torrent_def)

lemma ex_state_fields:
  "dl_torrent (ex_state b c) = ex_torrent" "dl_files (ex_state b c) = ex_files"
  by (simp_all add: ex_state_def restoreCompletedPieces_fields ex_opened_fields)

lemma ex_opened_ready:
  "geometry (dl_torrent (ex_opened b c))"
  "length (dl_completed (ex_opened b c)) = numPieces (dl_torrent (ex_opened b c))"
  "length (dl_pieces (ex_opened b c)) = numPieces (dl_torrent (ex_opened b c))"
  "\<forall>i < numPieces (dl_torrent (ex_opened b c)).
     ps_total (dl_pieces (ex_opened b c) ! i) = calculateBlocksForPiece (dl_torrent (ex_opened b c)) i"
  "store_ok (dl_files (ex_opened b c)) (dl_fs (ex_opened b c))"
  "sum_list (map out_length (dl_files (ex_opened b c))) = totalLength (dl_torrent (ex_opened b c))"
proof -
  have total: "sum_list (map out_length ex_files) = totalLength ex_torrent"
    by (simp add: ex_files_def ex_torrent_def totalLength_def isMultiFile_def empty_torrent_def)
  show "geometry (dl_torrent (ex_opened b c))" "store_ok (dl_files (ex_opened b c)) (dl_fs (ex_opened b c))"
    "sum_list (map out_length (dl_files (ex_opened b c))) = totalLength (dl_torrent (ex_opened b c))"
    using total ex_geometry ex_store by (simp_all add: ex_opened_fields store_ok_def)
  show "length (dl_completed (ex_opened b c)) = numPieces (dl_torrent (ex_opened b c))"
    "length (dl_pieces (ex_opened b c)) = numPieces (dl_torrent (ex_opened b c))"
    "\<forall>i < numPieces (dl_torrent (ex_opened b c)).
       ps_total (dl_pieces (ex_opened b c) ! i) = calculateBlocksForPiece (dl_torrent (ex_opened b c)) i"
    by (simp_all add: ex_opened_def dl_new_def new_piece_state_def)
qed

lemma ex_opened_pending: "\<forall>r \<in> set (dl_pending (ex_opened b c)). request_ok (dl_torrent (ex_opened b c)) r"
  by (simp add: ex_opened_fields)

lemma ex_opened_not_stopped: "\<forall>i < numPieces (dl_torrent (ex_opened b c)). \<not> (\<lambda>_. False) i"
  by simp

lemma ex_state_restored:
  "good ex_sha (ex_state b c) \<and> dl_completed (ex_state b c) = [b = 5, c = 5]"
proof -
  note f = ex_opened_fields(1-3) [of b c]
  have pre: "good ex_sha (ex_state b c)"
    "\<forall>i < numPieces (dl_torrent (ex_opened b c)). dl_completed (ex_state b c) ! i = verifyPiece ex_sha (ex_opened b c) i"
    unfolding ex_state_def
    by (rule restoreCompletedPieces_good; rule ex_opened_ready ex_opened_pending ex_opened_not_stopped)+
  moreover have "length (dl_completed (ex_state b c)) = 2"
    using booksD(2) pre(1) by (simp add: good_def ex_state_fields ex_pieces)
  ultimately show ?thesis
    using ex_verify [OF _ f, of 0] ex_verify [OF _ f, of 1]
    by (auto simp: f ex_pieces list_eq_iff_nth_eq less_Suc_eq_0_disj numeral_2_eq_2)
qed

lemma restore_loop_frame:
  "dl_peers (restore_loop SHA1 st is dl) = dl_peers dl \<and> dl_pending (restore_loop SHA1 st is dl) = dl_pending dl \<and>
   dl_fs (restore_loop SHA1 st is dl) = dl_fs dl \<and> dl_options (restore_loop SHA1 st is dl) = dl_options dl \<and>
   dl_trackers (restore_loop SHA1 st is dl) = dl_trackers dl \<and> dl_stop (restore_loop SHA1 st is dl) = dl_stop dl"
  by (induction "is" arbitrary: dl) (auto simp: restore_piece_def Let_def)

lemma ex_state_peers:
  "dl_peers (ex_state b c) = []" "dl_pending (ex_state b c) = []" "dl_fs (ex_state b c) = ex_disk [b, c]"
  "dl_options (ex_state b c) = ex_options" "dl_trackers (ex_state b c) = tm_new []" "\<not> dl_stop (ex_state b c)"
  by (simp_all add: ex_state_def restoreCompletedPieces_def Let_def restore_loop_frame ex_opened_fields)

lemma ex_state_verify: "i < 2 \<Longrightarrow> verifyPiece ex_sha (ex_state b c) i = ((if i = 0 then b else c) = 5)"
  by (rule ex_verify) (simp_all add: ex_state_fields ex_state_peers)

lemma ex_state_complete: "isComplete (ex_state b c) \<longleftrightarrow> b = 5 \<and> c = 5"
  using ex_state_restored [of b c] booksD(6) [of "ex_state b c"]
  by (auto simp: isComplete_def good_def ex_state_fields ex_pieces)

lemma ex_start:
  "start ex_sha (\<lambda>_. False) (dl_new ex_torrent ''out'' ex_options (ex_fs [b, c]) 0) =
     (if b = 5 \<and> c = 5 then (False, (ex_state b c)\<lparr>dl_running := False\<rparr>) else (True, ex_state b c))"
proof -
  have "dl_torrent (dl_new ex_torrent ''out'' ex_options (ex_fs [b, c]) 0) = ex_torrent"
    "\<not> dl_running (dl_new ex_torrent ''out'' ex_options (ex_fs [b, c]) 0)"
    "dl_savePath (dl_new ex_torrent ''out'' ex_options (ex_fs [b, c]) 0) = ''out''"
    "dl_fs (dl_new ex_torrent ''out'' ex_options (ex_fs [b, c]) 0) = ex_fs [b, c]"
    "op_overwrite (dl_options (dl_new ex_torrent ''out'' ex_options (ex_fs [b, c]) 0)) = False"
    by (simp_all add: dl_new_def ex_options_def)
  then show ?thesis
    using ex_state_complete [of b c] by (simp add: start_def ex_dirs ex_open Let_def ex_state_def ex_opened_def)
qed

lemma ex_reachable: "dl_reachable ex_sha (ex_state 5 0)"
proof -
  let ?new = "dl_new ex_torrent ''out'' ex_options (ex_fs [5, 0]) 0"
  have "reaches life_init (life_step ex_sha) (False, ?new)"
    by (rule reaches_init) (unfold life_init_def, blast intro: ex_geometry)
  moreover have "start ex_sha (\<lambda>_. False) ?new = (True, ex_state 5 0)" by (simp add: ex_start)
  moreover have "distinct (map out_key (dl_files (ex_state 5 0)))" by (simp add: ex_state_fields ex_files_def)
  ultimately show ?thesis by (metis reaches_step life_step.starting)
qed

section \<open>With a peer\<close>

text \<open>A connected peer that has the second piece only, with five bytes on its way: half a message.\<close>

definition ex_conn :: peer_conn where
  "ex_conn = (new_conn ''1.2.3.4'' 6881 ex_torrent (replicate 20 CHR ''p''))
     \<lparr>pc_sock := Some \<lparr>sk_rx = [Chunk [0, 0]], sk_tx = [], sk_sent = []\<rparr>, pc_connected := True,
      pc_peerChoking := False, pc_bitfield := [False, True]\<rparr>"

definition ex_with_peer :: "byte \<Rightarrow> downloader" where
  "ex_with_peer b = (ex_state b 0)\<lparr>dl_peers := [(0, ex_conn)], dl_nextPeer := 1\<rparr>"

lemma ex_with_peer_fields:
  "dl_peers (ex_with_peer b) = [(0, ex_conn)]" "dl_torrent (ex_with_peer b) = ex_torrent"
  "dl_completed (ex_with_peer b) = [b = 5, False]" "dl_pending (ex_with_peer b) = []"
  "dl_options (ex_with_peer b) = ex_options" "pc_connected ex_conn"
  by (simp_all add: ex_with_peer_def ex_state_fields ex_state_restored ex_state_peers ex_conn_def)

lemma ex_with_peer_books: "books (ex_with_peer b)"
  using ex_state_restored [of b 0] by (subst books_core [of _ "ex_state b 0"]) (simp_all add: core_def ex_with_peer_def good_def)

lemma ex_with_peer_count: "peer_count (ex_with_peer b) 0 = 0"
  by (simp add: peer_count_def ex_with_peer_fields hasPiece_def ex_conn_def)

lemma ex_pieces_length: "length (dl_pieces (ex_opened b c)) = 2"
  using ex_opened_ready(3) by (simp add: ex_opened_fields ex_pieces)

lemma ex_restored_counts: "i < 2 \<Longrightarrow> ps_count (dl_pieces (ex_state 0 0) ! i) = 0"
proof -
  assume "i < 2"
  let ?d = "(ex_opened 0 0)\<lparr>dl_completedCount := 0, dl_downloaded := 0\<rparr>"
  have f: "dl_torrent ?d = ex_torrent" "dl_files ?d = ex_files" "dl_fs ?d = ex_disk [0, 0]"
    by (simp_all add: ex_opened_fields)
  have v: "\<not> verifyPiece ex_sha ?d 0" "\<not> verifyPiece ex_sha (restore_piece ex_sha 0 ?d) 1"
    using ex_verify [OF _ f, of 0] ex_verify [of 1 "restore_piece ex_sha 0 ?d" 0 0] f by simp_all
  have "[0..<2::nat] = [0, 1]" by (simp add: upt_conv_Cons numeral_2_eq_2)
  then have "dl_pieces (ex_state 0 0) = dl_pieces (restore_piece ex_sha 1 (restore_piece ex_sha 0 ?d))"
    by (simp add: ex_state_def restoreCompletedPieces_def Let_def ex_opened_fields ex_pieces del: restore_piece_fields)
  then show ?thesis using v \<open>i < 2\<close> ex_pieces_length [of 0 0] by (auto simp: less_2_cases_iff)
qed

lemma ex_with_peer_none: "\<forall>i < 2. \<not> partial_piece (ex_with_peer 0) i"
  using ex_restored_counts by (simp add: ex_with_peer_def)

lemma ex_with_peer_none':
  "\<forall>i < numPieces (dl_torrent (ex_with_peer 0)). \<not> partial_piece (ex_with_peer 0) i"
  using ex_with_peer_none by (simp only: ex_with_peer_fields ex_pieces)

text \<open>A peer that has both pieces, with nothing on its way, and the download of the second piece from it.\<close>

definition ex_seed_conn :: peer_conn where
  "ex_seed_conn = ex_conn\<lparr>pc_sock := Some \<lparr>sk_rx = [], sk_tx = [Accept 3, TxIntr], sk_sent = []\<rparr>, pc_bitfield := [True, True]\<rparr>"

definition ex_seeded :: downloader where
  "ex_seeded = (ex_state 5 0)\<lparr>dl_peers := [(0, ex_seed_conn)], dl_nextPeer := 1\<rparr>"

lemma ex_seeded_core: "core ex_seeded = core (ex_state 5 0)"
  by (simp add: ex_seeded_def core_def)

lemma ex_seeded_fields:
  "dl_peers ex_seeded = [(0, ex_seed_conn)]" "dl_torrent ex_seeded = ex_torrent" "dl_pending ex_seeded = []"
  "dl_options ex_seeded = ex_options" "dl_files ex_seeded = ex_files" "dl_fs ex_seeded = ex_disk [5, 0]"
  "dl_completed ex_seeded = [True, False]"
  by (simp_all add: ex_seeded_def ex_state_fields ex_state_peers ex_state_restored)

lemma ex_seeded_good: "good ex_sha ex_seeded"
  using ex_state_restored [of 5 0] by (simp add: good_core [OF ex_seeded_core])

lemma ex_seed_conn: "seed_conn 2 ex_seed_conn" "conn_inv ex_seed_conn"
  by (auto simp: seed_conn_def ex_seed_conn_def ex_conn_def new_conn_def hasPiece_def less_2_cases_iff one_chunk_def
      queued_def rx_queued_def tx_reliable_def conn_inv_def ex_pieces)

lemma ex_seeded_missing: "missing ex_seeded \<subseteq> {(1, 0)}"
proof -
  have bk: "books ex_seeded" using ex_seeded_good by (simp add: good_def)
  have "piece_ok ex_torrent 0 (dl_pieces ex_seeded ! 0)" "ps_count (dl_pieces ex_seeded ! 0) = ps_total (dl_pieces ex_seeded ! 0)"
    using booksD(4) [OF bk, of 0] booksD(5) [OF bk, of 0] by (simp_all add: ex_seeded_fields ex_pieces)
  then have "has_block ex_seeded 0 0" by (rule full_piece_blocks) (simp add: ex_blocks)
  then show ?thesis by (auto simp: missing_def ex_seeded_fields ex_pieces ex_blocks less_2_cases_iff)
qed

lemma ex_content: "content_of ex_sha ex_torrent [5, 5]"
proof -
  have "take 20 (drop (i * 20) (tPieces ex_torrent)) = replicate 20 CHR ''x''" if "i < 2" for i
    using that by (auto simp: ex_torrent_def less_2_cases_iff)
  moreover have "sha1_str ex_sha [5] = replicate 20 CHR ''x''" by (simp add: sha1_str_def ex_sha_def)
  moreover have "tPieceLength ex_torrent = 1" "totalLength ex_torrent = 2"
    by (simp_all add: ex_torrent_def totalLength_def isMultiFile_def empty_torrent_def)
  ultimately show ?thesis
    using ex_pieces(3) by (auto simp: content_of_def ex_pieces(1,2) less_2_cases_iff)
qed

lemma ex_second_missing: "\<not> has_block ex_seeded 1 0"
proof -
  have bk: "books ex_seeded" using ex_seeded_good by (simp add: good_def)
  obtain b where "b < blocks_of (dl_torrent ex_seeded) 1" "\<not> has_block ex_seeded 1 b"
    by (rule incomplete_block [OF bk, of 1]) (simp_all only: ex_seeded_fields ex_pieces, simp_all)
  then show ?thesis by (simp add: ex_seeded_fields(2) ex_blocks)
qed

lemma ex_faithful: "faithful [5, 5] ex_seeded"
  unfolding faithful_def ex_seeded_fields
proof (intro allI impI)
  fix p b y assume *: "p < numPieces ex_torrent" "b < blocks_of ex_torrent p" "has_block ex_seeded p b" "y < block_length ex_torrent p b"
  have p: "p < 2" using *(1) by (simp only: ex_pieces)
  then have b: "b = 0" using *(2) ex_blocks [OF p] by simp
  have "p \<noteq> 1" using *(3) b ex_second_missing by auto
  then have z: "p = 0" using p by linarith
  have "int (b * 16384 + block_length ex_torrent p b) \<le> 1"
    using block_length_bounds(3) [OF ex_geometry *(1,2)] by (simp only: z ex_pieces)
  then have "y = 0" using *(4) b by linarith
  then show "flat ex_files (ex_disk [5, 0]) ! (piece_start ex_torrent p + b * 16384 + y) =
      [5, 5] ! (piece_start ex_torrent p + b * 16384 + y)" unfolding z b ex_store(3) by simp
qed

lemma ex_seeded: "seeded ex_sha [5, 5] ex_seeded"
proof -
  have "requests_inv ex_sha (ex_state 5 0)" by (rule reachable_requests_inv [OF ex_reachable])
  then have "tracked ex_seeded" by (simp add: requests_inv_def tracked_core [OF ex_seeded_core])
  moreover have "pool_inv ex_seeded" using ex_seed_conn(2) by (simp add: pool_inv_def ex_seeded_fields ex_seeded_def)
  moreover have "disk_healthy (ex_files, ex_disk [5, 0])" by (simp add: disk_healthy_def faulty_def ex_disk_def ex_fs_def empty_fs_def)
  ultimately show ?thesis
    using ex_seeded_good ex_content ex_faithful ex_seed_conn(1)
    by (simp add: seeded_def requests_inv_def dl_inv_def stored_def ex_seeded_fields ex_pieces)
       (simp add: ex_options_def)
qed

section \<open>Connections\<close>

text \<open>A connected peer with nothing on its way, and one that has sent a message.\<close>

definition ex_idle :: peer_conn where
  "ex_idle = ex_conn\<lparr>pc_sock := Some \<lparr>sk_rx = [], sk_tx = [], sk_sent = []\<rparr>, pc_peerChoking := True\<rparr>"

definition ex_incoming :: sock where
  "ex_incoming = \<lparr>sk_rx = [Chunk (frame (createHave 0) @ [9])], sk_tx = [], sk_sent = []\<rparr>"

lemma ex_idle_polled: "polled ex_idle []"
  by (simp add: polled_def ex_idle_def ex_conn_def one_chunk_def queued_def rx_queued_def)

lemma ex_ints: "bytes_of_str (intToBytes 0) = [0, 0, 0, 0]" "bytes_of_str (intToBytes 1) = [0, 0, 0, 1]"
  "bytes_of_str (intToBytes 5) = [0, 0, 0, 5]"
  by (simp_all add: intToBytes_def bytes_of_str_def byte_of_char_def)

lemma ex_frames: "frame (createHave 0) = [0, 0, 0, 5, 4, 0, 0, 0, 0]" "frame createUnchoke = [0, 0, 0, 1, 1]"
  by (simp_all add: frame_def createHave_def createUnchoke_def be32_def ex_ints)

lemma ex_idle_applied:
  "apply_all [createHave 0, createUnchoke] ex_idle no_message =
     Ok ([createHave 0, createUnchoke\<lparr>pm_payload := [0, 0, 0, 0]\<rparr>],
         ex_idle\<lparr>pc_bitfield := [True, True], pc_peerChoking := False\<rparr>, createUnchoke\<lparr>pm_payload := [0, 0, 0, 0]\<rparr>)"
  by (simp add: apply_message_def received_def createHave_def createUnchoke_def no_message_def be32_def ex_ints
      bytesToInt_raw_def ex_idle_def ex_conn_def new_conn_def)

lemma ex_sent: "sendMessage (createHave 0) ex_idle =
    (True, ex_idle\<lparr>pc_sock := Some \<lparr>sk_rx = [], sk_tx = [], sk_sent = frame (createHave 0)\<rparr>\<rparr>)"
  by (simp add: sendMessage_def conn_send_def sendAll_def ex_idle_def ex_conn_def)

lemma ex_idle_sock:
  "pc_sock ex_idle = Some \<lparr>sk_rx = [], sk_tx = [], sk_sent = []\<rparr>"
  "sk_sent \<lparr>sk_rx = [], sk_tx = [], sk_sent = []\<rparr> = []" "pc_connected ex_idle"
  by (simp_all add: ex_idle_def ex_conn_def)

lemma ex_incoming_stream: "sk_stream ex_incoming = frame (createHave 0) @ [9]"
  by (simp add: ex_incoming_def)

definition ex_connect :: connect_env where
  "ex_connect = \<lparr>ce_socket = True, ce_pton = True, ce_connect = True, ce_select = True, ce_soerror = True,
     ce_sock = \<lparr>sk_rx = [Chunk (handshake_bytes (tInfoHash ex_torrent) (replicate 20 CHR ''q''))], sk_tx = [], sk_sent = []\<rparr>\<rparr>"

lemma ex_connected:
  "connect ex_connect (new_conn ''1.2.3.4'' 6881 ex_torrent p) =
     (True, snd (connect ex_connect (new_conn ''1.2.3.4'' 6881 ex_torrent p)))"
proof -
  let ?h = "handshake_bytes (tInfoHash ex_torrent) (replicate 20 CHR ''q'')"
  let ?c = "(new_conn ''1.2.3.4'' 6881 ex_torrent p)\<lparr>pc_sock := Some (ce_sock ex_connect), pc_connected := True\<rparr>"
  have "length ?h \<noteq> 0" by simp
  then have "?h \<noteq> []" by (metis list.size(3))
  then have "fst (performHandshake ?c)"
    by (simp add: performHandshake_def conn_send_def sendAll_def conn_recv_def recvAll_def recv_all.simps ex_connect_def
        new_conn_def handshake_bytes_ok Let_def sendInterested_def sendMessage_def sendExtensionHandshake_def
        split: prod.splits)
  then show ?thesis by (auto simp: connect_def ex_connect_def new_conn_def split: prod.splits bool.splits)
qed

section \<open>Metadata\<close>

definition ex_magnet :: magnet_link where
  "ex_magnet = \<lparr>mInfoHash = [], mInfoHashRaw = replicate 20 CHR ''x'', mDisplayName = [], mSize = 0,
     mExactTopic = [], mExactSource = [], mTrackers = []\<rparr>"

definition ex_metadata :: md_downloader where
  "ex_metadata = (md_new ex_magnet)\<lparr>md_size := 1, md_numPieces := 1, md_pieces := [[]]\<rparr>"

definition ex_metadata_sock :: sock where
  "ex_metadata_sock = \<lparr>sk_rx = [Chunk (peer_script 3 1 [(0, [createUnchoke], [5])])], sk_tx = [], sk_sent = []\<rparr>"

lemma ex_metadata_hash: "sha1_str ex_sha [5] = replicate 20 CHR ''x''"
  by (simp add: sha1_str_def ex_sha_def)

section \<open>The DHT\<close>

text \<open>One node that answers the first query with one peer.\<close>

definition ex_dht_reply :: bval where
  "ex_dht_reply = BDict [(''r'', BDict [(''values'', BList [BStr (str_of_bytes [1, 2, 3, 5, 26, 225])])]),
     (''t'', BStr ''t''), (''y'', BStr ''r'')]"

definition ex_dht :: dht_net where
  "ex_dht = \<lparr>dn_resolve = (\<lambda>_ p. Some ([1, 2, 3, 4], p)), dn_socket = True, dn_nodeId = replicate 20 CHR ''n'',
     dn_transaction = (\<lambda>_. ''t''), dn_sent = (\<lambda>_ _. True),
     dn_replies = (\<lambda>_ _. [\<lparr>dg_ip = [1, 2, 3, 4], dg_port = 6881, dg_data = bytes_of_str (encode ex_dht_reply)\<rparr>])\<rparr>"

definition ex_dht_options :: dht_options where
  "ex_dht_options = \<lparr>do_queryTimeoutMs = 600, do_maxQueries = 16, do_maxPeers = 50\<rparr>"

definition ex_node :: dht_endpoint where
  "ex_node = \<lparr>de_host = ''node'', de_port = 6881\<rparr>"

definition ex_asking :: dht_search where
  "ex_asking = \<lparr>ds_pending = [], ds_knownNodes = {rn_key (mk_node [1, 2, 3, 4] 6881)}, ds_peers = [],
     ds_knownPeers = {}, ds_asked = [rn_key (mk_node [1, 2, 3, 4] 6881)]\<rparr>"

definition ex_found :: dht_search where
  "ex_found = dht_absorb ex_dht_options ex_dht_reply ex_asking"

lemma ex_dht_reply_parsed: "parse (encode ex_dht_reply) = Ok ex_dht_reply"
  by (rule parse_encode) (simp_all add: ex_dht_reply_def encode_string_def dec_nat.simps)

lemma ex_dht_asked: "queryNode ex_dht 0 (mk_node [1, 2, 3, 4] 6881) q ''t'' = Ok (Some ex_dht_reply)"
proof -
  have "bytes_of_str (encode ex_dht_reply) \<noteq> []" by (simp add: bytes_of_str_def ex_dht_reply_def)
  moreover have "is_reply ''t'' ex_dht_reply"
    by (simp add: ex_dht_reply_def is_reply_def dictGetString_def dictGet_def)
  ultimately show ?thesis by (simp add: queryNode_def ex_dht_def mk_node_def ex_dht_reply_parsed)
qed

lemma ex_dht_net: "dn_socket ex_dht" "dn_transaction ex_dht n = ''t''"
  by (simp_all add: ex_dht_def)

lemma ex_dht_opts: "do_maxQueries ex_dht_options = 16" "do_maxPeers ex_dht_options = 50"
  by (simp_all add: ex_dht_options_def)

lemma ex_asking_eq:
  "\<lparr>ds_pending = [], ds_knownNodes = {rn_key (mk_node [1, 2, 3, 4] 6881)}, ds_peers = [],
     ds_knownPeers = {}, ds_asked = [rn_key (mk_node [1, 2, 3, 4] 6881)]\<rparr> = ex_asking"
  by (simp add: ex_asking_def)

lemma ex_dht_found: "discoverDhtSearch ex_dht (replicate 20 CHR ''h'') [ex_node] ex_dht_options = Ok ex_found"
proof -
  have r: "resolve_seeds ex_dht [ex_node] [] {} = ([mk_node [1, 2, 3, 4] 6881], {rn_key (mk_node [1, 2, 3, 4] 6881)})"
    by (simp add: resolveNode_def ex_dht_def ex_node_def)
  have "ds_pending ex_found = []"
    by (simp add: ex_found_def ex_asking_def dht_absorb_def ex_dht_reply_def dictGet_def dictGetString_def split: prod.splits)
  then show ?thesis
    using ex_dht_asked
    by (simp add: discoverDhtSearch_def Let_def r dht_loop.simps [of _ _ _ 0] dht_loop.simps [of _ _ _ "Suc 0"]
        ex_dht_net ex_dht_opts ex_found_def [symmetric] ex_asking_eq del: resolve_seeds.simps)
qed

section \<open>Runs\<close>

text \<open>No network: no name resolves and no socket opens.\<close>

definition no_tracker :: tracker_env where
  "no_tracker = \<lparr>te_udp = \<lparr>un_resolves = False, un_socket = False, un_tid = 0, un_key = 0, un_sends = (False, False),
     un_datagrams = []\<rparr>, te_curl = (\<lambda>_. NoCurl), te_junk = 0\<rparr>"

definition no_dht :: dht_net where
  "no_dht = \<lparr>dn_resolve = (\<lambda>_ _. None), dn_socket = False, dn_nodeId = replicate 20 CHR ''n'',
     dn_transaction = (\<lambda>_. ''t''), dn_sent = (\<lambda>_ _. False), dn_replies = (\<lambda>_ _. [])\<rparr>"

definition no_loop :: loop_env where
  "no_loop = \<lparr>le_now = 0, le_http = (\<lambda>_. None), le_clk = (\<lambda>_. 0), le_tracker = (\<lambda>_. no_tracker), le_dht = no_dht,
     le_stop = (\<lambda>n. n = 2), le_turns = [], le_final = (\<lambda>_. no_tracker)\<rparr>"

lemma ex_announces: "tAnnounceList (dl_torrent (ex_state b c)) = []"
  by (simp add: ex_state_fields ex_torrent_def empty_torrent_def)

lemma ex_no_trackers: "tm_contact clk env t p d u r e m (tm_new []) = Ok (no_trackers, tm_new [], [])"
  by (simp add: tm_contact_def tm_new_def tm_addAll_def dueTrackers_def due_states_def)

lemma ex_no_peers: "discoverDhtPeers no_dht h [] opts = Ok []"
  by (simp add: discoverDhtPeers_def discoverDhtSearch_def no_dht_def Let_def split: prod.splits)

text \<open>With no tracker and a stop while the DHT is searched the loop is never entered.\<close>

lemma ex_loop: "downloadLoop ex_sha no_loop (ex_state b c) = Ok ((ex_state b c)\<lparr>dl_stop := True, dl_running := False\<rparr>)"
proof -
  let ?d = "ex_state b c"
  have same: "?d\<lparr>dl_trackers := tm_new []\<rparr> = ?d"
    using ex_state_peers(5) [of b c] by (metis downloader.surjective downloader.update_convs(5))
  have "contact_trackers (le_clk no_loop) (le_tracker no_loop) ''started'' ?d = Ok (no_trackers, ?d)"
    by (simp add: contact_trackers_def ex_state_peers(5) ex_no_trackers same)
  then have "loop_start no_loop ?d = Ok (None, requestStop ?d)"
    by (simp add: loop_start_def ex_state_peers(1,4,6) ex_options_def no_trackers_def response_ok_def no_loop_def Let_def
        ex_no_peers stop_if_def requestStop_def)
  then show ?thesis by (simp add: downloadLoop_def ex_state_peers(6) requestStop_def)
qed

definition no_metadata :: md_env where
  "no_metadata = \<lparr>me_http = (\<lambda>_. None), me_tracker = (\<lambda>_. no_tracker), me_dht = no_dht,
     me_peer = (\<lambda>_. \<lparr>pe_socket = False, pe_pton = False, pe_connect = False, pe_sock = \<lparr>sk_rx = [], sk_tx = [], sk_sent = []\<rparr>\<rparr>)\<rparr>"

text \<open>A turn in which nothing comes but a request to stop.\<close>

definition ex_turn :: turn_env where
  "ex_turn = \<lparr>te_now = (\<lambda>_. 1), te_connect = (\<lambda>_. ex_connect), te_arrived = (\<lambda>_. []), te_http = (\<lambda>_. None),
     te_clk = (\<lambda>_. 0), te_tracker = (\<lambda>_. no_tracker), te_stop = True\<rparr>"

definition ex_cli :: cli_options where
  "ex_cli = default_options\<lparr>co_input := ''a.torrent'', co_savePath := ''out'', co_refreshTrackers := False\<rparr>"

definition ex_main_env :: "byte \<Rightarrow> byte \<Rightarrow> main_env" where
  "ex_main_env b c = \<lparr>en_rnd = (\<lambda>_. 0), en_file = (\<lambda>_. None), en_fs = ex_fs [b, c], en_metadata = no_metadata,
     en_loop = no_loop, en_stopped = (\<lambda>_. False), en_now = 0\<rparr>"

lemma ex_main_download:
  "main_download ex_sha (ex_main_env b c) ex_cli ex_torrent = Ok (stop ((ex_state b c)\<lparr>dl_running := False\<rparr>))"
proof -
  have "main_options ex_cli = ex_options" by (simp add: main_options_def ex_cli_def default_options_def ex_options_def)
  then show ?thesis
    using ex_start [of b c]
    by (simp add: main_download_def Let_def ex_main_env_def createDirectory_def ex_cli_def ex_dirs ex_loop stop_def split: if_splits)
qed

section \<open>A UDP tracker\<close>

text \<open>A tracker that puts its peer behind the announce response, as BEP 15 says.\<close>

definition ex_udp_connect :: connect_resp where
  "ex_udp_connect = \<lparr>cr_action = 0, cr_transaction_id = 7, cr_connection_id = 99\<rparr>"

definition ex_udp_answer :: announce_resp where
  "ex_udp_answer = \<lparr>ar_action = 1, ar_transaction_id = 7, ar_interval = 1800, ar_leechers = 0, ar_seeders = 1\<rparr>"

definition ex_udp_lost :: bytes where
  "ex_udp_lost = [10, 0, 0, 1, 26, 225]"

definition ex_udp_net :: udp_net where
  "ex_udp_net = \<lparr>un_resolves = True, un_socket = True, un_tid = 7, un_key = 3, un_sends = (True, True),
     un_datagrams = [connect_resp_bytes ex_udp_connect, announce_resp_bytes ex_udp_answer @ ex_udp_lost]\<rparr>"

lemmas ex_udp_def = ex_udp_connect_def ex_udp_answer_def ex_udp_net_def

lemma ex_udp_url: "parseUdpUrl ''udp://t:80'' = Some (''t'', 80)"
  by code_simp

lemma ex_udp_hash: "length (rawInfoHash ex_torrent) = 20"
  by (simp add: rawInfoHash_def ex_torrent_def)

definition ex_tracker :: tracker_env where
  "ex_tracker = no_tracker\<lparr>te_udp := ex_udp_net\<rparr>"

lemma ex_udp_ok:
  "response_ok (fst (contactUdpTracker ex_udp_net ''udp://t:80'' ex_torrent (replicate 20 CHR ''p'') 0 0 2))"
  using udp_exchange_accepted [OF ex_udp_url, of ex_udp_net ex_udp_connect "[]" ex_udp_answer ex_udp_lost "[]" ex_torrent
      "replicate 20 CHR ''p''" 0 0 2]
  by (simp add: ex_udp_def ex_udp_hash response_ok_def default_response_def)

lemma ex_contact:
  "\<exists>r tm'. tm_contact (\<lambda>_. 100) (\<lambda>_. ex_tracker) ex_torrent (replicate 20 CHR ''p'') 0 0 2 [] 3
      (tm_new [''udp://t:80'']) = Ok (r, tm', [''udp://t:80'']) \<and> response_ok r"
proof -
  have "dueTrackers 100 (tm_new [''udp://t:80'']) = [''udp://t:80'']"
    by (simp add: dueTrackers_def due_states_def tm_new_def tm_addAll_def tm_add_def new_tracker_def std_sort_def)
  then show ?thesis
    using ex_udp_ok by (simp add: tm_contact_def contactTracker_def ex_tracker_def Let_def)
qed

definition empty_logger :: logger where
  "empty_logger = \<lparr>g_logLevel = LogInfo, cout_lines = [], cerr_lines = []\<rparr>"

end
