(* ===== verification/Bencode_Grammar.thy ===== *)
theory Bencode_Grammar
  imports Bencode
begin

text \<open>
  A grammar of the texts \<open>bencode::parse\<close> accepts, and the proof that the parser recognises it: as an
  inductive relation between a text and the value it denotes, without positions or fuel. It is
  bencoding with what the code tolerates beyond it: a number is whatever \<open>std::stoll\<close> and
  \<open>std::stoull\<close> read (blanks, a sign, anything after the digits), and keys come in any order and
  repeatedly, the last one counting.
\<close>

section \<open>The grammar\<close>

definition dict_of :: "bdict \<Rightarrow> bdict \<Rightarrow> bdict" where
  "dict_of = fold (\<lambda>(k, v). smap_insert k v)"

inductive text_of :: "string \<Rightarrow> bval \<Rightarrow> bool"
  and texts_of :: "string \<Rightarrow> bval list \<Rightarrow> bool"
  and entries_of :: "string \<Rightarrow> bdict \<Rightarrow> bool"
where
  integer: "CHR ''e'' \<notin> set n \<Longrightarrow> stoll n = Inr i \<Longrightarrow> text_of (''i'' @ n @ ''e'') (BInt i)"
| string: "is_digit c \<Longrightarrow> CHR '':'' \<notin> set (c # n) \<Longrightarrow> stoull (c # n) = Inr (length s) \<Longrightarrow>
    text_of ((c # n) @ '':'' @ s) (BStr s)"
| list: "texts_of t vs \<Longrightarrow> text_of (''l'' @ t @ ''e'') (BList vs)"
| dict: "entries_of t es \<Longrightarrow> text_of (''d'' @ t @ ''e'') (BDict (dict_of es []))"
| no_texts: "texts_of [] []"
| more_texts: "text_of t v \<Longrightarrow> texts_of ts vs \<Longrightarrow> texts_of (t @ ts) (v # vs)"
| no_entries: "entries_of [] []"
| more_entries: "text_of t (BStr k) \<Longrightarrow> text_of u v \<Longrightarrow> entries_of ts es \<Longrightarrow> entries_of (t @ u @ ts) ((k, v) # es)"

inductive_cases texts_ofE: "texts_of t vs"
inductive_cases entries_ofE: "entries_of t es"

section \<open>The parser accepts only texts of the grammar\<close>

definition part :: "string \<Rightarrow> nat \<Rightarrow> nat \<Rightarrow> string" where
  "part data p q = take (q - p) (drop p data)"

lemma part_append:
  assumes "p \<le> q" "q \<le> r" "r \<le> length data"
  shows "part data p r = part data p q @ part data q r"
proof -
  have "take (r - p) (drop p data) = take (q - p) (drop p data) @ take (r - q) (drop (q - p) (drop p data))"
    using assms by (subst take_add [symmetric]) simp
  then show ?thesis using assms by (simp add: part_def)
qed

lemma part_char: "p < length data \<Longrightarrow> part data p (Suc p) = [data ! p]"
  by (simp add: part_def take_Suc_conv_app_nth)

lemma part_Cons: "p < q \<Longrightarrow> q \<le> length data \<Longrightarrow> part data p q = data ! p # part data (Suc p) q"
  using part_append [of p "Suc p" q data] part_char [of p data] by simp

lemma length_part: "q \<le> length data \<Longrightarrow> length (part data p q) = q - p"
  by (simp add: part_def)

lemma integer_text:
  assumes "parse_integer data pos = Ok (v, q)" "pos < length data" "data ! pos = CHR ''i''"
  shows "text_of (part data pos q) v"
proof -
  from assms(1) obtain e i where e: "find_from data CHR ''e'' (pos + 1) = Some e"
    "stoll (substr data (pos + 1) (e - (pos + 1))) = Inr i" "v = BInt i" "q = e + 1"
    by (auto simp: parse_integer_def split: option.splits sum.splits)
  note f = find_from_SomeD [OF e(1)]
  have "part data pos q = ''i'' @ part data (pos + 1) e @ ''e''"
    using part_Cons [of pos q data] part_append [of "pos + 1" e q data] part_char [of e data] f assms(2,3) e(4) by simp
  moreover have "text_of (''i'' @ part data (pos + 1) e @ ''e'') (BInt i)"
    using f(4) e(2) by (intro integer) (simp_all add: part_def substr_def)
  ultimately show ?thesis using e(3) by simp
qed

lemma string_text:
  assumes "lengths_fit data" "pos < length data" "is_digit (data ! pos)" "parse_string data pos = Ok (v, q)"
  shows "text_of (part data pos q) v"
proof -
  from assms(4) obtain colon len where c: "find_from data CHR '':'' pos = Some colon"
    "stoull (substr data pos (colon - pos)) = Inr len" "v = BStr (substr data (colon + 1) len)"
    "q = (colon + 1 + len) mod 2 ^ 64" "q \<le> length data"
    by (auto simp: parse_string_def Let_def split: option.splits sum.splits if_splits)
  note f = find_from_SomeD [OF c(1)]
  have "colon + 1 + len < 2 ^ 64" using assms(1,2) c(1,2) by (auto simp: lengths_fit_def)
  with c(4) have q: "q = colon + 1 + len" by simp
  have "data ! pos \<noteq> CHR '':''" using assms(3) by (auto simp: is_digit_def)
  with f have "pos < colon" by (cases "pos = colon") auto
  then have n: "part data pos colon = data ! pos # part data (pos + 1) colon"
    using part_Cons [of pos colon data] f(2) by simp
  have s: "part data (colon + 1) q = substr data (colon + 1) len" using q by (simp add: part_def substr_def)
  have "length (substr data (colon + 1) len) = len" using q c(5) by (simp add: substr_def)
  then have "text_of ((data ! pos # part data (pos + 1) colon) @ '':'' @ substr data (colon + 1) len) v"
    using assms(3) f(4) c(2) unfolding c(3) n [symmetric]
    by (intro string [where n = "part data (pos + 1) colon" and c = "data ! pos", folded n])
       (simp_all add: n [symmetric] part_def substr_def)
  moreover have "part data pos q = part data pos colon @ '':'' @ part data (colon + 1) q"
    using part_append [of pos colon q data] part_Cons [of colon q data] f c(5) q by simp
  ultimately show ?thesis using n s by simp
qed

lemma dict_of_Cons [simp]: "dict_of ((k, v) # es) acc = dict_of es (smap_insert k v acc)"
  by (simp add: dict_of_def)

lemma dict_of_Nil [simp]: "dict_of [] acc = acc"
  by (simp add: dict_of_def)

lemma part_end: "p < length data \<Longrightarrow> data ! p = CHR ''e'' \<Longrightarrow> part data p (Suc p) = [] @ ''e''"
  by (simp add: part_char)

lemma parse_text_all:
  assumes "lengths_fit data"
  shows "(\<forall>pos v q. parseImpl f data pos = Ok (v, q) \<longrightarrow> text_of (part data pos q) v) \<and>
    (\<forall>pos acc v q. parseList f data pos acc = Ok (v, q) \<longrightarrow>
       (\<exists>t vs. part data pos q = t @ ''e'' \<and> texts_of t vs \<and> v = BList (acc @ vs))) \<and>
    (\<forall>pos acc v q. parseDict f data pos acc = Ok (v, q) \<longrightarrow>
       (\<exists>t es. part data pos q = t @ ''e'' \<and> entries_of t es \<and> v = BDict (dict_of es acc)))"
proof (induction f)
  case (Suc f)
  then have i: "\<And>pos v q. parseImpl f data pos = Ok (v, q) \<Longrightarrow> text_of (part data pos q) v"
    and l: "\<And>pos acc v q. parseList f data pos acc = Ok (v, q) \<Longrightarrow>
      \<exists>t vs. part data pos q = t @ ''e'' \<and> texts_of t vs \<and> v = BList (acc @ vs)"
    and d: "\<And>pos acc v q. parseDict f data pos acc = Ok (v, q) \<Longrightarrow>
      \<exists>t es. part data pos q = t @ ''e'' \<and> entries_of t es \<and> v = BDict (dict_of es acc)"
    by blast+
  note prog = parse_progress_all [OF assms]
  show ?case
  proof (intro conjI allI impI)
    fix pos v q assume p: "parseImpl (Suc f) data pos = Ok (v, q)"
    then have pos: "pos < length data" by (simp split: if_splits)
    consider (num) "data ! pos = CHR ''i''" "parse_integer data pos = Ok (v, q)"
      | (str) "is_digit (data ! pos)" "parse_string data pos = Ok (v, q)"
      | (lst) "data ! pos = CHR ''l''" "parseList f data (Suc pos) [] = Ok (v, q)"
      | (dct) "data ! pos = CHR ''d''" "parseDict f data (Suc pos) [] = Ok (v, q)"
      using p by (auto simp: Let_def split: if_splits)
    then show "text_of (part data pos q) v"
    proof cases
      case num
      then show ?thesis using integer_text pos by blast
    next
      case str
      then show ?thesis using string_text [OF assms pos] by blast
    next
      case lst
      obtain t vs where t: "part data (Suc pos) q = t @ ''e''" "texts_of t vs" "v = BList vs" using l [OF lst(2)] by auto
      have "Suc pos < q \<and> q \<le> length data" using prog [of f] lst(2) by blast
      then have "part data pos q = ''l'' @ t @ ''e''" using part_Cons [of pos q data] lst(1) t(1) by simp
      with list [OF t(2)] t(3) show ?thesis by simp
    next
      case dct
      obtain t es where t: "part data (Suc pos) q = t @ ''e''" "entries_of t es" "v = BDict (dict_of es [])"
        using d [OF dct(2)] by auto
      have "Suc pos < q \<and> q \<le> length data" using prog [of f] dct(2) by blast
      then have "part data pos q = ''d'' @ t @ ''e''" using part_Cons [of pos q data] dct(1) t(1) by simp
      with dict [OF t(2)] t(3) show ?thesis by simp
    qed
  next
    fix pos acc v q assume p: "parseList (Suc f) data pos acc = Ok (v, q)"
    show "\<exists>t vs. part data pos q = t @ ''e'' \<and> texts_of t vs \<and> v = BList (acc @ vs)"
    proof (cases "pos < length data \<and> data ! pos \<noteq> CHR ''e''")
      case True
      with p obtain v1 p1 where r: "parseImpl f data pos = Ok (v1, p1)" "parseList f data p1 (acc @ [v1]) = Ok (v, q)"
        by auto
      obtain t vs where t: "part data p1 q = t @ ''e''" "texts_of t vs" "v = BList ((acc @ [v1]) @ vs)"
        using l [OF r(2)] by blast
      have "pos < p1 \<and> p1 \<le> length data \<and> p1 < q \<and> q \<le> length data" using prog [of f] r by blast
      then have "part data pos q = (part data pos p1 @ t) @ ''e''" using t(1) part_append [of pos p1 q data] by simp
      with more_texts [OF i [OF r(1)] t(2)] t(3) show ?thesis by force
    next
      case False
      with p have "v = BList (acc @ [])" "part data pos q = [] @ ''e''" by (auto simp: part_end split: if_splits)
      with no_texts show ?thesis by blast
    qed
  next
    fix pos acc v q assume p: "parseDict (Suc f) data pos acc = Ok (v, q)"
    show "\<exists>t es. part data pos q = t @ ''e'' \<and> entries_of t es \<and> v = BDict (dict_of es acc)"
    proof (cases "pos < length data \<and> data ! pos \<noteq> CHR ''e''")
      case True
      with p obtain k p1 w p2 where r: "parseImpl f data pos = Ok (BStr k, p1)" "parseImpl f data p1 = Ok (w, p2)"
        "parseDict f data p2 (smap_insert k w acc) = Ok (v, q)" by auto
      obtain t es where t: "part data p2 q = t @ ''e''" "entries_of t es" "v = BDict (dict_of es (smap_insert k w acc))"
        using d [OF r(3)] by blast
      have "pos < p1 \<and> p1 \<le> length data \<and> p1 < p2 \<and> p2 \<le> length data \<and> p2 < q \<and> q \<le> length data"
        using prog [of f] r by blast
      then have "part data pos q = (part data pos p1 @ part data p1 p2 @ t) @ ''e''"
        using t(1) part_append [of pos p1 q data] part_append [of p1 p2 q data] by simp
      moreover have "entries_of (part data pos p1 @ part data p1 p2 @ t) ((k, w) # es)"
        by (rule more_entries [OF i [OF r(1)] i [OF r(2)] t(2)])
      moreover have "v = BDict (dict_of ((k, w) # es) acc)" using t(3) by simp
      ultimately show ?thesis by blast
    next
      case False
      with p have "v = BDict (dict_of [] acc)" "part data pos q = [] @ ''e''" by (auto simp: part_end split: if_splits)
      with no_entries show ?thesis by blast
    qed
  qed
qed simp

section \<open>The parser accepts every text of the grammar\<close>

lemma text_first:
  "text_of t v \<Longrightarrow> \<exists>c r. t = c # r \<and> c \<noteq> CHR ''e'' \<and> r \<noteq> []"
  by (induction rule: text_of.cases) (auto simp: is_digit_def)

lemma parse_integer_text:
  assumes "CHR ''e'' \<notin> set n" "stoll n = Inr i"
  shows "parse_integer (pre @ (''i'' @ n @ ''e'') @ post) (length pre) = Ok (BInt i, length pre + length n + 2)"
proof -
  have "find_from (pre @ (''i'' @ n @ ''e'') @ post) CHR ''e'' (length pre + 1) = Some (length pre + 1 + length n)"
    using find_from_append_hit [OF assms(1), of "pre @ ''i''" post] by simp
  moreover have "substr (pre @ (''i'' @ n @ ''e'') @ post) (length pre + 1) (length n) = n" by (simp add: substr_def)
  ultimately show ?thesis using assms(2) by (simp add: parse_integer_def)
qed

lemma parse_string_text:
  assumes "CHR '':'' \<notin> set n" "stoull n = Inr (length s)" "length (pre @ n @ '':'' @ s) < 2 ^ 64"
  shows "parse_string (pre @ (n @ '':'' @ s) @ post) (length pre) = Ok (BStr s, length (pre @ n @ '':'' @ s))"
proof -
  let ?d = "pre @ (n @ '':'' @ s) @ post"
  have "find_from ?d CHR '':'' (length pre) = Some (length pre + length n)"
    using find_from_append_hit [OF assms(1), of pre "s @ post"] by simp
  moreover have "substr ?d (length pre) (length n) = n" "substr ?d (length pre + length n + 1) (length s) = s"
    by (simp_all add: substr_def)
  moreover have "(length pre + length n + 1 + length s) mod 2 ^ 64 = length pre + length n + 1 + length s"
    using assms(3) by simp
  ultimately show ?thesis using assms(2) by (simp add: parse_string_def Let_def)
qed

lemma parse_text_complete:
  shows "text_of t v \<Longrightarrow> length (pre @ t) < 2 ^ 64 \<Longrightarrow> 2 * length t \<le> f \<Longrightarrow>
      parseImpl f (pre @ t @ post) (length pre) = Ok (v, length pre + length t)"
    and "texts_of t vs \<Longrightarrow> length (pre @ t) < 2 ^ 64 \<Longrightarrow> 2 * length t < f \<Longrightarrow>
      parseList f (pre @ t @ CHR ''e'' # post) (length pre) acc = Ok (BList (acc @ vs), length pre + length t + 1)"
    and "entries_of t es \<Longrightarrow> length (pre @ t) < 2 ^ 64 \<Longrightarrow> 2 * length t < f \<Longrightarrow>
      parseDict f (pre @ t @ CHR ''e'' # post) (length pre) dacc = Ok (BDict (dict_of es dacc), length pre + length t + 1)"
proof (induction t v and t vs and t es arbitrary: pre post f and pre post f acc and pre post f dacc
    rule: text_of_texts_of_entries_of.inducts)
  case (integer n i)
  then obtain g where "f = Suc g" by (cases f) auto
  then show ?case using parse_integer_text [OF integer(1,2), of pre post] by simp
next
  case (string c n s)
  then obtain g where f: "f = Suc g" by (cases f) auto
  have "c \<noteq> CHR ''i''" using string(1) by (auto simp: is_digit_def)
  then show ?case using parse_string_text [OF string(2,3), of pre post] string(1,4) by (simp add: f Let_def)
next
  case (list t vs)
  then obtain g where f: "f = Suc g" by (cases f) auto
  have "parseList g ((pre @ ''l'') @ t @ CHR ''e'' # post) (length (pre @ ''l'')) []
      = Ok (BList ([] @ vs), length (pre @ ''l'') + length t + 1)"
    using list(3,4) f by (intro list(2)) auto
  then show ?case by (simp add: f is_digit_def)
next
  case (dict t es)
  then obtain g where f: "f = Suc g" by (cases f) auto
  have "parseDict g ((pre @ ''d'') @ t @ CHR ''e'' # post) (length (pre @ ''d'')) []
      = Ok (BDict (dict_of es []), length (pre @ ''d'') + length t + 1)"
    using dict(3,4) f by (intro dict(2)) auto
  then show ?case by (simp add: f is_digit_def)
next
  case no_texts
  then show ?case by (cases f) auto
next
  case (more_texts t v ts vs)
  then obtain g where f: "f = Suc g" by (cases f) auto
  obtain c r where c: "t = c # r" "c \<noteq> CHR ''e''" "r \<noteq> []" using text_first [OF more_texts(1)] by blast
  have "parseImpl g (pre @ t @ (ts @ CHR ''e'' # post)) (length pre) = Ok (v, length pre + length t)"
    using more_texts(5,6) f by (intro more_texts(3)) auto
  moreover have "parseList g ((pre @ t) @ ts @ CHR ''e'' # post) (length (pre @ t)) (acc @ [v])
      = Ok (BList ((acc @ [v]) @ vs), length (pre @ t) + length ts + 1)"
    using more_texts(5,6) f c by (intro more_texts(4)) auto
  ultimately show ?case using c by (simp add: f)
next
  case no_entries
  then show ?case by (cases f) auto
next
  case (more_entries t k u v ts es)
  then obtain g where f: "f = Suc g" by (cases f) auto
  obtain c r where c: "t = c # r" "c \<noteq> CHR ''e''" "r \<noteq> []" using text_first [OF more_entries(1)] by blast
  have k: "parseImpl g (pre @ t @ (u @ ts @ CHR ''e'' # post)) (length pre) = Ok (BStr k, length pre + length t)"
    using more_entries(7,8) f by (intro more_entries(4)) auto
  have v: "parseImpl g ((pre @ t) @ u @ (ts @ CHR ''e'' # post)) (length (pre @ t)) = Ok (v, length (pre @ t) + length u)"
    using more_entries(7,8) f by (intro more_entries(5)) auto
  have d: "parseDict g ((pre @ t @ u) @ ts @ CHR ''e'' # post) (length (pre @ t @ u)) (smap_insert k v dacc)
      = Ok (BDict (dict_of es (smap_insert k v dacc)), length (pre @ t @ u) + length ts + 1)"
    using more_entries(7,8) f c by (intro more_entries(6)) auto
  show ?case using c k v d by (simp add: f add_ac)
qed

text \<open>
  Without a wrapping length field \<open>parseAt\<close> succeeds exactly on a text of the grammar at the position, and
  gives its value and the position behind it.
\<close>

lemma parseAt_iff:
  assumes "lengths_fit data" "length data < 2 ^ 64"
  shows "parseAt data pos = Ok (v, q) \<longleftrightarrow> pos < q \<and> q \<le> length data \<and> text_of (part data pos q) v"
proof
  assume p: "parseAt data pos = Ok (v, q)"
  then have "text_of (part data pos q) v" using parse_text_all [OF assms(1)] unfolding parseAt_def by blast
  with p parse_progress [OF assms(1)] show "pos < q \<and> q \<le> length data \<and> text_of (part data pos q) v"
    unfolding parseAt_def by blast
next
  assume r: "pos < q \<and> q \<le> length data \<and> text_of (part data pos q) v"
  then have l: "length (part data pos q) = q - pos" by (simp add: length_part)
  have data: "data = take pos data @ part data pos q @ drop q data"
    using r by (metis append_take_drop_id drop_drop le_add_diff_inverse2 less_imp_le part_def add.commute)
  have "parseImpl (parse_fuel data) (take pos data @ part data pos q @ drop q data) (length (take pos data)) =
      Ok (v, length (take pos data) + length (part data pos q))"
    using r l assms(2) by (intro parse_text_complete(1)) (auto simp: parse_fuel_def)
  then show "parseAt data pos = Ok (v, q)" using r l data by (simp add: parseAt_def)
qed

text \<open>What was parsed can be written and parsed again.\<close>

lemma parsed_wf: "parse data = Ok v \<Longrightarrow> wf_bval v"
  by (auto simp: parse_def parseAt_def dest: parseImpl_wf)

lemma parse_again: "parse data = Ok v \<Longrightarrow> length (encode v) < 2 ^ 64 \<Longrightarrow> parse (encode v) = Ok v"
  by (rule parse_encode [OF parsed_wf])

end
