(* ===== verification/Spec2Isabelle.thy ===== *)
theory Spec2Isabelle
  imports Examples Bencode_Grammar
begin

text \<open>
  Gush is a BitTorrent client in C++17 (\<open>src/src\<close>, \<open>src/include\<close>). This library models it from the
  command line to the bytes on disk, and proves what makes its parts correct.

  \<^bold>\<open>How the program works.\<close> \<open>main.cpp\<close> reads the command line and gets a \<open>TorrentInfo\<close>: from a file
  (\<open>torrent.cpp\<close>, over \<open>bencode.cpp\<close>) or, for a magnet link (\<open>magnet.cpp\<close>), from metadata that
  \<open>metadata.cpp\<close> fetches from peers it finds through trackers and the DHT. It then runs one
  \<open>Downloader\<close> (\<open>downloader.cpp\<close>). \<open>start\<close> opens the output files and verifies what is on disk already;
  the thread's \<open>downloadLoop\<close> asks the \<open>TrackerManager\<close> (\<open>tracker_manager.cpp\<close>, over \<open>tracker.cpp\<close>) and
  the DHT (\<open>dht.cpp\<close>) for peers, and in each turn connects to peers, handles their messages
  (\<open>peer.cpp\<close>), writes the blocks that come, verifies complete pieces, and requests more blocks. A
  stop is a flag that the loop looks at.

  \<^bold>\<open>Theories, in the order of the imports.\<close>
  \<^item> \<open>Prelude\<close>: results that are \<open>Ok\<close>, \<open>Throw\<close> (a C++ exception) or \<open>Hang\<close> (does not return), bytes and
    characters, \<open>std::stoi\<close> and its kind, sorted maps, truncating division, and \<open>std::sort\<close> as a
    function of which the locale \<open>sorting\<close> states what the standard promises. \<open>Posix_FS\<close>: files and
    directories, and writes that fail, stop short or are lost, each at its own time. \<open>Transition\<close>: \<open>reaches\<close>, and the locale \<open>invariant_system\<close> of step relations
    with an invariant.
  \<^item> \<open>Utils\<close> (\<open>utils.cpp\<close>): hex and URL coding, numbers on the wire, sizes as text, directories, and the
    sanitising of file names. \<open>Bencode\<close>: the parser with its 64-bit positions, the encoder, their round
    trip, and the input on which the parser never returns. \<open>Bencode_Grammar\<close>: the texts it accepts, as a grammar. \<open>Magnet\<close>, \<open>Torrent\<close>: links and torrent files.
  \<^item> \<open>Output_Files\<close> (the file part of \<open>downloader.cpp\<close>): opening, resizing, and writing and reading ranges
    that cross files; the locale \<open>byte_store\<close> says what the rest relies on, and the files provide it.
  \<^item> \<open>Udp_Packets\<close>: the packed structures of the UDP tracker protocol, laid out and read back.
    \<open>Tracker\<close>, \<open>Tracker_List\<close>, \<open>Tracker_Manager\<close>, \<open>Dht\<close>: announces, lists of trackers, backoff and order,
    the bounded search of the DHT.
  \<^item> \<open>Socket\<close>, \<open>Peer\<close>: \<open>sendAll\<close> and \<open>recvAll\<close> over a script of what the system calls give; one connection,
    its messages, and its invariant; that segmentation does not matter. \<open>Metadata\<close>: the download of
    an info dictionary; what is accepted has the link's hash, and an honest peer suffices.
  \<^item> \<open>Downloader\<close>: the state of \<open>Downloader\<close> and all its operations up to \<open>downloadLoop\<close>. \<open>Pieces\<close>: the
    geometry of pieces and blocks and the invariant \<open>books\<close> of the counts. \<open>Bookkeeping\<close>: every operation
    keeps the books and keeps completed pieces verified on disk (\<open>good\<close>). \<open>Peer_Pool\<close>: every operation
    keeps one connection per endpoint, each with the invariant of \<open>Peer\<close>. \<open>Downloader_Inv\<close>: \<open>start\<close>
    establishes both, the operations of the thread are the steps of \<open>dl_step\<close>, \<open>downloadLoop\<close> is a path of
    steps, and \<open>life_step\<close> adds what the caller does: peers and trackers given before the start, stops, starts
    that fail, and further starts.
    \<open>Policy\<close>: which piece is chosen, how many requests are in flight and when they are given up.
    \<open>Robustness\<close>: no exception leaves the thread, and the message loop ends: the relation \<open>loop_runs\<close> is the loop
    without fuel, and the model's loop with fuel gives its result.
  \<^item> \<open>In_Flight\<close>: every operation keeps the blocks marked as requested in the list of requests.
    \<open>Archive\<close>: the abstract machine of the pieces on disk, and the simulation of it by every operation.
    \<open>Seed_Content\<close>, \<open>Honest_Seed\<close>, \<open>Seed_Turns\<close>: what is on disk when the blocks that come are right, what
    the answers of an honest peer do to the downloader, and that turns with such a peer complete it.
  \<^item> \<open>Cli\<close> (\<open>main.cpp\<close>): the command line, both ways to a torrent, the program as a whole, and
    what it prints.
  \<^item> \<open>Examples\<close>: concrete inputs, among them a complete run of \<open>main_download\<close> on a torrent of two pieces.

  \<^bold>\<open>How code becomes definitions.\<close> Definitions have the names of the C++ functions. Classes are records,
  with a prefix for their fields; a method takes the object's state last and returns it changed.
  Exceptions and endless loops are the results \<open>Throw\<close> and \<open>Hang\<close>. Bytes are \<open>8 word\<close>, ports \<open>16 word\<close>, the
  integers of the peer protocol \<open>32 word\<close>; other integers are \<open>int\<close> or \<open>nat\<close>, with wrap-around written
  out where the code can meet it (\<open>to_signed\<close>, \<open>to_unsigned\<close>, \<open>mod 2 ^ 64\<close>). \<open>std::map\<close> is a sorted association
  list. Time is the argument \<open>now\<close>, in nanoseconds; what reads the clock more than once takes a function,
  and each operation of a turn of the download loop has a reading of its own (\<open>te_now\<close>).

  \<^bold>\<open>What is outside.\<close> SHA-1 (OpenSSL) is a parameter \<open>SHA1\<close> of which nothing is assumed. libcurl, name
  resolution and the sockets are environments: functions and scripts that say what each call
  gives, arbitrary in all theorems. So no theorem assumes that the network behaves, except where a
  hypothesis says what a particular peer sends; nor that a write succeeds, except where a file is
  said not to be \<open>faulty\<close>.

  \<^bold>\<open>Which downloads the theorems are about.\<close> \<open>dl_reachable\<close> has two conditions. The output files of a started
  download must be different: the code opens two names that \<open>sanitizePath\<close> maps to one path as two streams on
  one file, which cannot hold both contents. And a second \<open>start\<close> may only follow a \<open>stop\<close> with no request in
  flight, since \<open>stop\<close> frees the peers and keeps requests that point to them; \<open>main\<close> starts once.

  \<^bold>\<open>What the theorems below show.\<close> The download (C1 to C16): in every reachable state the counts are
  right, a piece that counts as downloaded has its hash on disk now, \<open>downloadedBytes_\<close> is bounded by
  the size and reaches it exactly at the end; what the loop does to the disk is a sequence of steps that
  add right pieces and change nothing else; with an honest seed it ends with the content in the
  files; no requested block is forgotten; the loop never throws, and ends after a stop; resuming marks
  the verified pieces; selection, limits, timeouts, unsolicited and corrupt data. Then connections,
  metadata, magnet links, torrents and their files, sockets, trackers, the DHT, paths, bencoding, and
  the exit status of the program.
  Some theorems state faults of the code as it is.

  \<^bold>\<open>Bounds and fuel.\<close> \<open>parse_fuel\<close> (\<open>Bencode\<close>) is larger than the number of calls the parser can make
  without coming back to a position, so \<open>Hang\<close> stands for endless parsing only
  (\<open>parser_returns\<close>). \<open>message_loop\<close> gets one turn more than the weight of the socket's script
  (\<open>message_loop_terminates\<close>). The loop of a download runs over a list of turns and is \<open>Hang\<close> when it
  would need more. All other recursion terminates by its measure.

  \<^bold>\<open>Not modelled.\<close> Data races and memory: the mutex, the atomics, destruction, and that \<open>stop\<close> in the main
  thread closes the sockets while the last turn of the loop is still running (a failing socket,
  which the scripts have). The log lines of the trackers, the metadata search and the download. Two streams on one file, and reads
  that fail. The depth of the C++ stack in the recursive parser. Overflow of the scores in \<open>selectNextPiece\<close>, which
  needs pieces above 32 GiB (the theorems about the download assume \<open>geometry\<close>: pieces below 4 GiB).
  Floating-point speeds are rationals. \<open>std::sort\<close> with a comparison that is no strict weak order is
  undefined in C++ and some permutation here.
\<close>

section \<open>Inputs of the witnesses\<close>

definition two_files :: "output_file list" where
  "two_files = [\<lparr>out_path = ''a'', out_start = 0, out_length = 2, out_open = True\<rparr>,
                \<lparr>out_path = ''b'', out_start = 2, out_length = 2, out_open = True\<rparr>]"

definition two_files_fs :: fs where
  "two_files_fs = set_file (set_file empty_fs ''a'' [0, 0]) ''b'' [0, 0]"


section \<open>The download\<close>

text \<open>C1. In every reachable state of a downloader that works, its books are right (block and piece
  counts, \<open>downloadedBytes_\<close>, requests only for blocks of the torrent), the completed pieces are verified on
  disk, and there is one connection per endpoint, each with the invariant of \<open>Peer\<close>. Reachable (\<open>life_step\<close>)
  means: created for a valid torrent with pieces below 4 GiB and less than 2^32 of them; then any
  operations of the caller (peers added, trackers refreshed, stops, starts that fail); then a \<open>start\<close> that
  launched the thread with pairwise different output files; then any operations of the thread, a
  stop, and further starts if no request was in flight at the stop. Peers, trackers and the clock are
  arbitrary, and writes to any file may fail or be lost at any time.\<close>
theorem reachable_download_consistent:
  assumes "dl_reachable SHA1 dl"
  shows "books dl \<and> disk_inv SHA1 dl \<and> pool_inv dl"
  using reachable_dl_inv [OF assms] by (simp add: dl_inv_def good_def)

theorem reachable_download_consistent_witness:
  "books (ex_state 5 0) \<and> disk_inv ex_sha (ex_state 5 0) \<and> pool_inv (ex_state 5 0)"
  by (rule reachable_download_consistent [OF ex_reachable])

text \<open>C2. In every reachable state (those of C1, so the output files are different ones) a piece counts as
  downloaded only if the bytes now on disk have the hash the torrent gives, whatever peers send and
  whichever writes fail, stop short or are lost after they were reported done: no later write damages it.\<close>
theorem completed_piece_verified:
  assumes "dl_reachable SHA1 dl" "i < numPieces (dl_torrent dl)" "dl_hasPiece dl i"
  shows "verifyPiece SHA1 dl i"
  by (rule inv_verified [OF reachable_dl_inv [OF assms(1)] assms(2,3)])

theorem completed_piece_verified_witness: "verifyPiece ex_sha (ex_state 5 0) 0"
  by (rule completed_piece_verified [OF ex_reachable])
     (simp_all add: ex_state_fields ex_pieces dl_hasPiece_def ex_state_restored)

text \<open>C3. In every reachable state (those of C1) \<open>downloadedBytes_\<close> is between 0 and the size of the torrent,
  and it is the size of the torrent when the download is complete.\<close>
theorem downloaded_bytes_bounds:
  assumes "dl_reachable SHA1 dl"
  shows "0 \<le> dl_downloaded dl \<and> dl_downloaded dl \<le> totalLength (dl_torrent dl) \<and>
    (isComplete dl \<longrightarrow> dl_downloaded dl = totalLength (dl_torrent dl))"
  using inv_progress [OF reachable_dl_inv [OF assms]] inv_complete(2) [OF reachable_dl_inv [OF assms]] by blast

theorem downloaded_bytes_bounds_witness:
  "0 \<le> dl_downloaded (ex_state 5 0) \<and> dl_downloaded (ex_state 5 0) \<le> 2"
  using downloaded_bytes_bounds [OF ex_reachable]
  by (simp add: ex_state_fields) (simp add: ex_torrent_def totalLength_def isMultiFile_def empty_torrent_def)

text \<open>C4. When \<open>main\<close> finds its download complete, also when existing files made it complete without a
  loop, or a stop cut the verification of existing files short, every piece on disk has its
  hash. The output files must be different ones.\<close>
theorem finished_download_verified:
  assumes "main_download SHA1 env opts t = Ok dl" "isComplete dl" "geometry t" "0 < numPieces t"
    "distinct (map out_key (dl_files dl))" "i < numPieces (dl_torrent dl)"
  shows "verifyPiece SHA1 dl i"
  using main_download_complete [OF assms(1-5)] assms(2,6) isComplete_iff [of dl]
  by (simp add: good_def disk_inv_def)

theorem finished_download_verified_witness:
  "verifyPiece ex_sha (stop ((ex_state 5 5)\<lparr>dl_running := False\<rparr>)) 1"
proof (rule finished_download_verified [OF ex_main_download])
  show "isComplete (stop ((ex_state 5 5)\<lparr>dl_running := False\<rparr>))"
    using ex_state_complete [of 5 5] by (simp add: isComplete_def stop_def)
qed (simp_all add: ex_geometry ex_pieces stop_def ex_state_fields ex_files_def)

text \<open>C5. The download loop refines an archive of pieces. In the abstract machine a step adds one piece with
  its right length and hash, and nothing is changed or taken away. From a reachable state (those of C1,
  so the output files are different ones), whatever the turns of the loop meet (hostile peers, writes
  that fail, stop short or are lost at any time, stops), what it does to the pieces on disk is a
  sequence of such steps, its run is a sequence of the downloader's operations, and every piece it ends with is right.\<close>
theorem download_loop_refines_archive:
  assumes "dl_reachable SHA1 dl" "downloadLoop SHA1 env dl = Ok dl'"
  shows "dl_reachable SHA1 dl' \<and> (archive_step SHA1 (dl_torrent dl))\<^sup>*\<^sup>* (archive dl) (archive dl') \<and>
    archive dl \<subseteq>\<^sub>m archive dl' \<and> archive_ok SHA1 (dl_torrent dl) (archive dl')"
  using loop_archive [OF assms] by blast

theorem download_loop_refines_archive_witness:
  "archive_ok ex_sha ex_torrent (archive ((ex_state 5 0)\<lparr>dl_stop := True, dl_running := False\<rparr>))"
  using download_loop_refines_archive [OF ex_reachable ex_loop] by (simp add: ex_state_fields)

text \<open>C6. A download with an honest seed finishes. Let the only peer have every piece, let it not choke, and
  let it answer in every turn what was requested in the turn before, with the blocks of a content that
  has the torrent's hashes; let the disk be healthy; and let each turn come from its requests to its
  clean-up of old requests within 15 seconds. Then each turn of the loop's work returns, and
  after one turn more than there are missing blocks the download is complete, and the output
  files, end to end, are the content.\<close>
theorem honest_seed_completes:
  assumes "seeded SHA1 B dl" "\<forall>env \<in> set envs. te_now env 3 - te_now env 2 \<le> 15 * 1000000000"
    "card (missing dl) < length envs"
  shows "\<exists>dl'. seed_turns SHA1 B envs dl = Ok dl' \<and> isComplete dl' \<and> flat (dl_files dl') (dl_fs dl') = B"
  by (rule seed_completes [OF assms(1,3,2)])

theorem honest_seed_completes_witness:
  "\<exists>dl'. seed_turns ex_sha [5, 5] [ex_turn, ex_turn] ex_seeded = Ok dl' \<and> isComplete dl' \<and>
    flat (dl_files dl') (dl_fs dl') = [5, 5]"
proof (rule honest_seed_completes [OF ex_seeded])
  have "card (missing ex_seeded) \<le> card {(1 :: nat, 0 :: nat)}" by (intro card_mono ex_seeded_missing) simp
  then show "card (missing ex_seeded) < length [ex_turn, ex_turn]" by simp
qed (simp add: ex_turn_def)

text \<open>C7. No block is forgotten: in every reachable state (those of C1) a block that is marked as requested and has not
  come is in flight, whichever peers choked, were dropped or timed out (a mark left over would keep the
  block from being requested for ever); and after the clean-up of a turn it was requested within the
  last 15 seconds (counted in whole milliseconds).\<close>
theorem requested_blocks_in_flight:
  assumes "dl_reachable SHA1 dl" "p < numPieces (dl_torrent dl)" "i < blocks_of (dl_torrent dl) p"
  shows "(ps_requested (dl_pieces dl ! p) ! i \<and> \<not> ps_received (dl_pieces dl ! p) ! i \<longrightarrow> in_flight dl p i \<noteq> []) \<and>
    (let dl' = cleanupTimedOutRequests now dl in
     ps_requested (dl_pieces dl' ! p) ! i \<and> \<not> ps_received (dl_pieces dl' ! p) ! i \<longrightarrow>
       (\<exists>r \<in> set (in_flight dl' p i). now - rq_time r < 15001 * 1000000))"
proof -
  have t: "dl_torrent (cleanupTimedOutRequests now dl) = dl_torrent dl"
    using keeps_cleanupTimedOutRequests [of dl now] by (simp add: keeps_def)
  show ?thesis
    using reachable_tracked [OF assms] cleaned_request_recent [OF assms(1) refl, of p now i, unfolded t, OF assms(2,3)]
    by (auto simp: wanted_def in_flight_def Let_def)
qed

theorem requested_blocks_in_flight_witness:
  "\<not> (ps_requested (dl_pieces (ex_state 5 0) ! 1) ! 0 \<and> \<not> ps_received (dl_pieces (ex_state 5 0) ! 1) ! 0)"
proof -
  have "in_flight (ex_state 5 0) 1 0 = []" by (simp add: in_flight_def ex_state_peers)
  then show ?thesis
    using requested_blocks_in_flight [OF ex_reachable, of 1 0] by (simp add: ex_state_fields ex_pieces ex_blocks)
qed

text \<open>C8. A stop requested during a turn makes it the last one: what peers and trackers would do in later
  turns has no influence on the loop.\<close>
theorem stop_ends_loop:
  assumes "te_stop e"
  shows "downloadLoop SHA1 (env\<lparr>le_turns := before @ e # after\<rparr>) dl =
    downloadLoop SHA1 (env\<lparr>le_turns := before @ [e]\<rparr>) dl"
proof -
  have "loop_start (env\<lparr>le_turns := ts\<rparr>) dl = loop_start env dl" for ts
    by (cases env) (simp only: loop_start_def loop_env.simps)
  moreover have "le_turns (env\<lparr>le_turns := ts\<rparr>) = ts" "le_final (env\<lparr>le_turns := ts\<rparr>) = le_final env" for ts by simp_all
  ultimately show ?thesis using download_turns_stop [OF assms, of SHA1 before after] by (simp only: downloadLoop_def)
qed

theorem stop_ends_loop_witness:
  "downloadLoop ex_sha (no_loop\<lparr>le_turns := [] @ ex_turn # [ex_turn, ex_turn]\<rparr>) (ex_state 5 0) =
    downloadLoop ex_sha (no_loop\<lparr>le_turns := [] @ [ex_turn]\<rparr>) (ex_state 5 0)"
  by (rule stop_ends_loop) (simp add: ex_turn_def)

text \<open>C9. No exception leaves the download loop, in whose thread it would abort the program: parse errors
  of trackers, DHT nodes and peers are all caught.\<close>
theorem download_loop_never_throws: "downloadLoop SHA1 env dl \<noteq> Throw e"
  by (rule downloadLoop_no_throw)

text \<open>C10. Resuming marks exactly the pieces whose hash on disk is right, whatever the flags said before,
  and leaves books that agree with them.\<close>
theorem resume_marks_verified_pieces:
  assumes "geometry (dl_torrent dl)" "length (dl_completed dl) = numPieces (dl_torrent dl)"
    "length (dl_pieces dl) = numPieces (dl_torrent dl)"
    "\<forall>i < numPieces (dl_torrent dl). ps_total (dl_pieces dl ! i) = calculateBlocksForPiece (dl_torrent dl) i"
    "\<forall>r \<in> set (dl_pending dl). request_ok (dl_torrent dl) r"
    "store_ok (dl_files dl) (dl_fs dl)" "sum_list (map out_length (dl_files dl)) = totalLength (dl_torrent dl)"
    "\<forall>i < numPieces (dl_torrent dl). \<not> stopped i"
  shows "books (restoreCompletedPieces SHA1 stopped dl) \<and>
    (\<forall>i < numPieces (dl_torrent dl). dl_completed (restoreCompletedPieces SHA1 stopped dl) ! i = verifyPiece SHA1 dl i)"
  using restoreCompletedPieces_good [OF assms] by (simp add: good_def)

theorem resume_marks_verified_pieces_witness:
  "books (ex_state 5 0) \<and> dl_completed (ex_state 5 0) ! 1 = verifyPiece ex_sha (ex_opened 5 0) 1"
proof -
  have "books (ex_state 5 0) \<and> (\<forall>i < numPieces (dl_torrent (ex_opened 5 0)).
      dl_completed (ex_state 5 0) ! i = verifyPiece ex_sha (ex_opened 5 0) i)"
    unfolding ex_state_def
    by (rule resume_marks_verified_pieces; rule ex_opened_ready ex_opened_pending ex_opened_not_stopped)
  then show ?thesis by (simp add: ex_opened_fields ex_pieces)
qed

text \<open>C11. The message loop ends. \<open>loop_runs\<close> is the loop of \<open>processPeerMessages\<close> without fuel, as a relation whose
  derivations are the finite runs: receive, and handle what came, until nothing complete is there or
  the peer is gone. For a connected peer, whatever bytes arrived, there is such a run, its result is
  the only one, and it is what \<open>process_peer\<close> continues with, so that the fuel in the model is
  enough. The result is \<open>Hang\<close> only if after finitely many turns of the loop a single receive does not return.\<close>
theorem message_loop_terminates:
  assumes "conn_of dl pid = Some c" "pc_connected c"
  shows "\<exists>r. (\<forall>r'. loop_runs SHA1 now pid no_message (set_conn pid (arrive arrived c) dl) r' = (r' = r)) \<and>
    (r = Hang \<longrightarrow> (\<exists>m' dl' c'. (loop_turn SHA1 now pid)\<^sup>*\<^sup>* (no_message, set_conn pid (arrive arrived c) dl) (m', dl') \<and>
       conn_of dl' pid = Some c' \<and> receiveMessageNonBlocking c' m' = Hang)) \<and>
    process_peer SHA1 now arrived pid dl = obind r (\<lambda>dl1. case conn_of dl1 pid of
      None \<Rightarrow> Ok ([], dl1)
    | Some c2 \<Rightarrow> (case takeDiscoveredPeers c2 of (ps, c3) \<Rightarrow> Ok (ps, set_conn pid c3 dl1)))"
proof -
  obtain r where r: "loop_runs SHA1 now pid no_message (set_conn pid (arrive arrived c) dl) r"
    "process_peer SHA1 now arrived pid dl = obind r (\<lambda>dl1. case conn_of dl1 pid of
      None \<Rightarrow> Ok ([], dl1)
    | Some c2 \<Rightarrow> (case takeDiscoveredPeers c2 of (ps, c3) \<Rightarrow> Ok (ps, set_conn pid c3 dl1)))"
    using process_peer_runs [OF assms, of SHA1 now arrived] by blast
  then show ?thesis using loop_runs_unique [OF r(1)] loop_runs_Hang [OF r(1)] by (intro exI [of _ r]) blast
qed

theorem message_loop_terminates_witness:
  "\<exists>r. loop_runs ex_sha 0 0 no_message (set_conn 0 (arrive [0, 5] ex_conn) (ex_with_peer 0)) r"
proof -
  have "conn_of (ex_with_peer 0) 0 = Some ex_conn" by (simp add: conn_of_def ex_with_peer_fields)
  from message_loop_terminates [OF this ex_with_peer_fields(6)] show ?thesis by blast
qed

text \<open>C12. \<open>selectNextPiece\<close> takes the partial piece with the best score if there is a partial piece, and
  otherwise a piece that the fewest connected peers have; it finds none only when all pieces are
  complete.\<close>
theorem select_piece_is_best:
  assumes "books dl" "int (length (dl_peers dl)) < 2 ^ 31 - 1"
  shows "case selectNextPiece dl of
      None \<Rightarrow> \<forall>i < numPieces (dl_torrent dl). dl_completed dl ! i
    | Some p \<Rightarrow> p < numPieces (dl_torrent dl) \<and> \<not> dl_completed dl ! p \<and>
        (if \<exists>i < numPieces (dl_torrent dl). partial_piece dl i
         then partial_piece dl p \<and>
           (\<forall>i < numPieces (dl_torrent dl). partial_piece dl i \<longrightarrow> piece_score dl i \<le> piece_score dl p)
         else \<forall>i < numPieces (dl_torrent dl). \<not> dl_completed dl ! i \<longrightarrow> peer_count dl p \<le> peer_count dl i)"
  using assms by (rule selectNextPiece_spec)

theorem select_piece_is_best_witness:
  "selectNextPiece (ex_state 5 0) \<noteq> None"
  using select_piece_is_best [of "ex_state 5 0"] ex_state_restored [of 5 0] ex_state_peers [of 5 0]
  by (auto simp: good_def ex_state_fields ex_pieces dest!: spec [of _ 1] split: option.splits)

text \<open>C13. When no piece is partial and some incomplete piece is at no connected peer, rarest-first picks an
  incomplete piece that no connected peer has, and every connected peer is then asked for the first
  piece it has that is needed, however common.\<close>
theorem unavailable_piece_defeats_rarest_first:
  assumes "books dl" "int (length (dl_peers dl)) < 2 ^ 31 - 1"
    "\<forall>i < numPieces (dl_torrent dl). \<not> partial_piece dl i"
    "q < numPieces (dl_torrent dl)" "\<not> dl_completed dl ! q" "peer_count dl q = 0"
    "(pid, c) \<in> set (dl_peers dl)" "pc_connected c"
  shows "\<exists>p < numPieces (dl_torrent dl). selectNextPiece dl = Some p \<and> \<not> dl_completed dl ! p \<and> peer_count dl p = 0 \<and>
    chosen_piece dl c = hd (needed_pieces dl c)"
  using assms by (rule rarest_unavailable)

theorem unavailable_piece_defeats_rarest_first_witness:
  "\<exists>p < numPieces (dl_torrent (ex_with_peer 0)). selectNextPiece (ex_with_peer 0) = Some p \<and>
     \<not> dl_completed (ex_with_peer 0) ! p \<and> peer_count (ex_with_peer 0) p = 0 \<and>
     chosen_piece (ex_with_peer 0) ex_conn = hd (needed_pieces (ex_with_peer 0) ex_conn)"
  by (rule unavailable_piece_defeats_rarest_first [OF ex_with_peer_books _ ex_with_peer_none', of 0 0])
     (simp_all add: ex_with_peer_fields ex_pieces ex_with_peer_count)

text \<open>C14. Requesting never takes a peer beyond \<open>maxRequestsPerPeer\<close> requests in flight.\<close>
theorem request_limit:
  assumes "\<forall>q. requests_of dl q \<le> op_maxRequests (dl_options dl)"
  shows "requests_of (requestPieces now dl) q \<le> op_maxRequests (dl_options dl)"
  using assms by (rule requestPieces_limit)

theorem request_limit_witness: "requests_of (requestPieces 0 (ex_with_peer 0)) 0 \<le> 5"
  using request_limit [of "ex_with_peer 0" 0 0] by (simp add: requests_of_def ex_with_peer_fields ex_options_def)

text \<open>C15. A block that was not requested from its sender changes nothing: no byte is written, no count moves.\<close>
theorem unsolicited_block_ignored:
  assumes "\<not> list_ex (\<lambda>r. rq_peer r = pid \<and> rq_piece r = unat (bytesToInt_raw (take 4 payload)) \<and>
      rq_offset r = unat (bytesToInt_raw (take 4 (drop 4 payload)))) (dl_pending dl)"
  shows "handle_block SHA1 now pid payload dl = dl"
  by (rule unsolicited_block) (use assms in \<open>auto simp: list_ex_iff\<close>)

theorem unsolicited_block_ignored_witness:
  "handle_block ex_sha 0 0 [0, 0, 0, 1, 0, 0, 0, 0, 5] (ex_state 5 0) = ex_state 5 0"
  by (rule unsolicited_block_ignored) (simp add: ex_state_peers)

text \<open>C16. A piece whose hash is wrong loses all its blocks, all its requests, those in flight included,
  and its bytes in the count. Nothing else is touched: the blocks and the requests of all other pieces,
  the completed pieces and their number, and the disk stay as they were.\<close>
theorem corrupt_piece_reset:
  assumes "\<not> verifyPiece SHA1 dl p" "p < length (dl_pieces dl)"
  shows "ps_count (dl_pieces (finish_piece SHA1 p dl) ! p) = 0 \<and>
    True \<notin> set (ps_received (dl_pieces (finish_piece SHA1 p dl) ! p)) \<and>
    True \<notin> set (ps_requested (dl_pieces (finish_piece SHA1 p dl) ! p)) \<and>
    (\<forall>r \<in> set (dl_pending (finish_piece SHA1 p dl)). rq_piece r \<noteq> p) \<and>
    dl_downloaded (finish_piece SHA1 p dl) = max 0 (dl_downloaded dl - pieceSize (dl_torrent dl) p) \<and>
    length (dl_pieces (finish_piece SHA1 p dl)) = length (dl_pieces dl) \<and>
    (\<forall>q. q \<noteq> p \<longrightarrow> dl_pieces (finish_piece SHA1 p dl) ! q = dl_pieces dl ! q) \<and>
    dl_pending (finish_piece SHA1 p dl) = filter (\<lambda>r. rq_piece r \<noteq> p) (dl_pending dl) \<and>
    dl_completed (finish_piece SHA1 p dl) = dl_completed dl \<and>
    dl_completedCount (finish_piece SHA1 p dl) = dl_completedCount dl \<and>
    dl_fs (finish_piece SHA1 p dl) = dl_fs dl"
  using finish_piece_refused [OF assms] by blast

theorem corrupt_piece_reset_witness:
  "dl_completed (finish_piece ex_sha 1 (ex_state 5 0)) = [True, False]"
proof -
  have "\<not> verifyPiece ex_sha (ex_state 5 0) 1" "1 < length (dl_pieces (ex_state 5 0))"
    using ex_state_verify [of 1 5 0] ex_state_restored [of 5 0] booksD(3) [of "ex_state 5 0"]
    by (simp_all add: good_def ex_state_fields ex_pieces)
  from corrupt_piece_reset [OF this] show ?thesis by (simp add: ex_state_restored)
qed

section \<open>Peer connections\<close>

text \<open>C17. However TCP cuts a peer's messages into segments, polling after each segment delivers the
  same messages in the same order and leaves the same connection (its socket apart) as applying
  them one by one.\<close>
theorem polling_ignores_segmentation:
  assumes "polled c []" "\<forall>m \<in> set ms. wf_message m" "concat segments = wire ms"
    "apply_all ms c m0 = Ok (out, c', m')"
  shows "\<exists>s l. drain_segments segments c m0 = Ok (out, c'\<lparr>pc_sock := Some s\<rparr>, m'\<lparr>pm_length := l\<rparr>)"
  by (rule drain_segments_wire [of _ "[]" ms]) (use assms in simp_all)

theorem polling_ignores_segmentation_witness:
  "\<exists>r. drain_segments [[0, 0], [0, 5, 4, 0], [0, 0, 0, 0, 0], [0, 1, 1]] ex_idle no_message =
     Ok ([createHave 0, createUnchoke\<lparr>pm_payload := [0, 0, 0, 0]\<rparr>], r)"
proof -
  have "\<exists>s l. drain_segments [[0, 0], [0, 5, 4, 0], [0, 0, 0, 0, 0], [0, 1, 1]] ex_idle no_message =
    Ok ([createHave 0, createUnchoke\<lparr>pm_payload := [0, 0, 0, 0]\<rparr>],
      (ex_idle\<lparr>pc_bitfield := [True, True], pc_peerChoking := False\<rparr>)\<lparr>pc_sock := Some s\<rparr>,
      (createUnchoke\<lparr>pm_payload := [0, 0, 0, 0]\<rparr>)\<lparr>pm_length := l\<rparr>)"
    by (rule polling_ignores_segmentation [OF ex_idle_polled _ _ ex_idle_applied])
       (simp_all add: created_wf ex_frames)
  then show ?thesis by blast
qed

text \<open>C18. What one side sends with \<open>sendMessage\<close> the other side reads back with \<open>receiveMessage\<close>: the
  message whose payload is not empty arrives as it was sent, its effect is applied, and the
  bytes after it stay in the stream.\<close>
theorem sent_message_received:
  assumes "sendMessage m a = (True, a')" "pc_sock a = Some sa" "sk_sent sa = []" "wf_message m" "pm_payload m \<noteq> []"
    "pc_connected b" "pc_sock b = Some sb" "sk_stream sb = sk_sent (the (pc_sock a')) @ rest"
  shows "\<exists>s. sk_stream s = rest \<and> receiveMessage b m0 =
    obind (apply_message m (b\<lparr>pc_sock := Some s\<rparr>)) (\<lambda>b'. Ok (True, b', m))"
proof -
  obtain s' where "pc_sock a' = Some s'" "sk_sent s' = frame m"
    by (rule sendMessage_ok [OF assms(1)]) (use assms(2,3) that in auto)
  then have "sk_stream sb = frame m @ rest" using assms(8) by simp
  then obtain s where "sk_stream s = rest" "receiveMessage b m0 =
      obind (apply_message (received m0 m) (b\<lparr>pc_sock := Some s\<rparr>)) (\<lambda>b'. Ok (True, b', received m0 m))"
    by (rule receive_frame [OF assms(6,7,4)])
  moreover have "received m0 m = m" using assms(5) by (simp add: received_def)
  ultimately show ?thesis by auto
qed

theorem sent_message_received_witness:
  "\<exists>s. sk_stream s = [9] \<and> receiveMessage (ex_idle\<lparr>pc_sock := Some ex_incoming\<rparr>) no_message =
    obind (apply_message (createHave 0) (ex_idle\<lparr>pc_sock := Some s\<rparr>)) (\<lambda>b'. Ok (True, b', createHave 0))"
proof -
  have "pm_payload (createHave 0) \<noteq> []" using ex_frames(1) by (simp add: createHave_def frame_def be32_def ex_ints)
  from sent_message_received [OF ex_sent ex_idle_sock(1) ex_idle_sock(2) created_wf(5) this, of
      "ex_idle\<lparr>pc_sock := Some ex_incoming\<rparr>" ex_incoming "[9]" no_message]
  show ?thesis by (simp add: ex_incoming_stream ex_idle_sock)
qed

text \<open>C19. After a bitfield message a peer has exactly the pieces of the torrent whose bit is set, most
  significant bit first; spare bits and missing bytes mean nothing.\<close>
theorem bitfield_is_pieces:
  "hasPiece (updateBitfield data c) k \<longleftrightarrow>
     k < numPieces (pc_torrent c) \<and> k div 8 < length data \<and> bit (data ! (k div 8)) (7 - k mod 8)"
  by (rule hasPiece_updateBitfield)

text \<open>C20. Every sequence of a connection's operations (\<open>conn_step\<close>: connecting, sending any message,
  choking, unchoking, showing interest, setting the two flags, receiving and polling, reading
  blocks, taking the discovered peers, disconnecting), whatever the peer sends, keeps a connected peer's socket, a bitfield that is empty or has one flag per piece, and at most 200 peers from peer
  exchange, each with its own endpoint, a port and not the peer itself.\<close>
theorem connection_consistent:
  assumes "reaches conn_initial conn_step c"
  shows "(pc_connected c \<longrightarrow> pc_sock c \<noteq> None) \<and>
    pc_bitfield c \<in> {[]} \<union> {bf. length bf = numPieces (pc_torrent c)} \<and>
    length (pc_discovered c) \<le> 200 \<and> distinct (map endpoint (pc_discovered c)) \<and>
    (\<forall>p \<in> set (pc_discovered c). pr_port p \<noteq> 0 \<and> endpoint p \<noteq> (pc_ip c, pc_port c))"
  using connection.reachable_inv [OF assms] by (simp add: conn_inv_def max_pex_def)

theorem connection_consistent_witness:
  "length (pc_discovered (disconnect (new_conn ''1.2.3.4'' 6881 ex_torrent ''p''))) \<le> 200"
proof -
  have "reaches conn_initial conn_step (new_conn ''1.2.3.4'' 6881 ex_torrent ''p'')"
    by (rule reaches_init) (auto simp: conn_initial_def)
  then have "reaches conn_initial conn_step (disconnect (new_conn ''1.2.3.4'' 6881 ex_torrent ''p''))"
    by (rule reaches_step) (rule conn_closing)
  from connection_consistent [OF this] show ?thesis by blast
qed

text \<open>C21. \<open>connect\<close> succeeds only with a peer that answers the whole handshake with the torrent's info
  hash; the peer then starts with no pieces, but also with the choking state it had before.\<close>
theorem connected_peer_has_torrent:
  assumes "connect env c = (True, c')" "\<not> pc_connected c" "length (tInfoHash (pc_torrent c)) = 20"
  shows "68 \<le> length (sk_stream (ce_sock env)) \<and>
    take 20 (drop 28 (sk_stream (ce_sock env))) = bytes_of_str (tInfoHash (pc_torrent c)) \<and>
    pc_connected c' \<and> (\<forall>i. \<not> hasPiece c' i) \<and> pc_peerChoking c' = pc_peerChoking c"
proof -
  obtain h where h: "h = take 68 (sk_stream (ce_sock env))" "length h = 68"
    "handshake_ok h (tInfoHash (pc_torrent c))" "pc_connected c'"
    "pc_bitfield c' = replicate (numPieces (pc_torrent c)) False" "pc_peerChoking c' = pc_peerChoking c"
    using connect_ok [OF assms(1,2)] by metis
  have "take 20 (drop 28 h) = take 20 (drop 28 (sk_stream (ce_sock env)))"
    by (simp add: h(1) drop_take)
  then show ?thesis using h assms(3) by (simp add: handshake_ok_def cstr20_full hasPiece_def)
qed

theorem connected_peer_has_torrent_witness:
  "\<exists>c. connect ex_connect (new_conn ''1.2.3.4'' 6881 ex_torrent (replicate 20 CHR ''p'')) = (True, c) \<and> (\<forall>i. \<not> hasPiece c i)"
  using connected_peer_has_torrent [OF ex_connected] ex_connected by (auto simp: new_conn_def ex_torrent_def)

section \<open>Metadata of magnet links\<close>

text \<open>C22. The metadata a magnet link is turned into is empty or has the link's info hash, whatever
  trackers, DHT nodes and peers answer.\<close>
theorem metadata_has_link_hash:
  "case downloadMetadata SHA1 env m of
     Ok md \<Rightarrow> md = [] \<or> sha1_str SHA1 (bytes_of_str md) = mInfoHashRaw m
   | _ \<Rightarrow> True"
proof (cases "md_start SHA1 env (md_new m)")
  case (Ok r)
  obtain ok d where "r = (ok, d)" by (cases r)
  with Ok md_start_sound [of "md_new m" SHA1 env ok d] show ?thesis
    by (auto simp: downloadMetadata_def md_getTorrentData_def md_sound_def md_new_def)
qed (simp_all add: downloadMetadata_def)

text \<open>C23. Once the handshakes are done and the size is known, a peer that answers every metadata request, in
  order and with pieces that make up metadata with the link's hash, gets the download of the
  metadata done. Its answers carry the id the peer announced itself, which is what this client
  expects (by BEP 10 they would carry the client's id, and such a peer is not served by this theorem);
  fewer than 4096 unrelated messages come before each answer, no answer is over the size limit of
  messages, and every send to the peer succeeds.\<close>
theorem honest_peer_completes_metadata:
  assumes "sk_tx s = []" "sk_stream s = peer_script (word_of_int extId) tot rs @ r"
    "\<forall>x \<in> set rs. fair_reply (word_of_int extId) tot x" "- (2 ^ 63) \<le> tot" "tot < 2 ^ 63"
    "map fst rs = [0..<nat (md_numPieces d)]" "length (md_pieces d) = nat (md_numPieces d)"
    "concat (map (\<lambda>(_, _, data). data) rs) = info" "int (length info) = md_size d" "length info < 2 ^ 31"
    "sha1_str SHA1 info = mInfoHashRaw (md_magnet d)"
  shows "\<exists>d' s'. requestMetadata SHA1 extId d s = Ok (True, d', s') \<and> md_complete d' \<and> md_metadata d' = str_of_bytes info"
  using assms by (rule requestMetadata_completes)

theorem honest_peer_completes_metadata_witness:
  "\<exists>d' s'. requestMetadata ex_sha 3 ex_metadata ex_metadata_sock = Ok (True, d', s') \<and> md_complete d' \<and>
     md_metadata d' = str_of_bytes [5]"
proof (rule honest_peer_completes_metadata [where rs = "[(0, [createUnchoke], [5])]" and tot = 1 and r = "[]"])
  have "pm_id createUnchoke \<noteq> Extended" by (simp add: createUnchoke_def)
  then show "\<forall>x \<in> set [(0, [createUnchoke], [5])]. fair_reply (word_of_int 3) 1 x"
    by (simp add: fair_reply_def unrelated_def created_wf reply_payload_def reply_dict_def max_message_def
        encode_string_def dec_int_def dec_nat.simps)
  show "sha1_str ex_sha [5] = mInfoHashRaw (md_magnet ex_metadata)"
    by (simp add: ex_metadata_hash ex_metadata_def md_new_def ex_magnet_def)
qed (simp_all add: ex_metadata_sock_def ex_metadata_def)

text \<open>C24. Parsing a generated magnet link gives back the hash, the name and the trackers, whatever
  characters they have.\<close>
theorem magnet_link_roundtrip:
  assumes "length raw = 20"
  shows "parseMagnetLink (generateMagnetLink raw dn ts) =
    \<lparr>mInfoHash = toHex raw, mInfoHashRaw = raw, mDisplayName = dn, mSize = 0, mExactTopic = [],
     mExactSource = [], mTrackers = ts\<rparr>"
  using assms by (rule parse_generated_link)

theorem magnet_link_roundtrip_witness:
  "mTrackers (parseMagnetLink (generateMagnetLink (replicate 20 CHR ''h'') ''a&b'' [''http://t/?x=1''])) = [''http://t/?x=1'']"
  by (subst magnet_link_roundtrip) simp_all

text \<open>C25. \<open>base32ToRaw\<close>, which shifts through a buffer of 32 bits, writes exactly the bits of the symbols
  one after the other.\<close>
theorem base32_is_bits:
  assumes "list_all is_base32_char s" "length s mod 8 = 0"
  shows "concat (map byte_bits (base32ToRaw s)) = concat (map symbol_bits s)"
  using assms by (rule base32ToRaw_bits)

theorem base32_is_bits_witness:
  "concat (map byte_bits (base32ToRaw ''MFRGGZDF'')) = concat (map symbol_bits ''MFRGGZDF'')"
  by (rule base32_is_bits) (simp_all add: is_base32_char_def)

section \<open>Torrents and their files\<close>

text \<open>C26. A torrent that \<open>main\<close> downloads, from a file or from a magnet link, has a name, a positive piece
  length, whole hashes, non-empty paths, no negative length, a total that fits in 64 bits if it
  has several files, and as many pieces as its total length needs.\<close>
theorem downloaded_torrent_valid:
  "case main_torrent SHA1 env input of
     Ok (Some t) \<Rightarrow> tName t \<noteq> [] \<and> 0 < tPieceLength t \<and> 20 dvd length (tPieces t) \<and>
       list_all (\<lambda>e. fe_path e \<noteq> [] \<and> 0 \<le> fe_length e) (tFiles t) \<and> 0 \<le> totalLength t \<and>
       (if isMultiFile t then totalLength t < 2 ^ 63 else True) \<and>
       numPieces t = expectedPieces (totalLength t) (tPieceLength t)
   | _ \<Rightarrow> True"
proof (cases "main_torrent SHA1 env input")
  case (Ok r)
  then show ?thesis
    by (cases r) (auto simp: valid_torrent_def list_all_iff dest!: main_torrent_valid)
qed simp_all

text \<open>C27. When \<open>openOutputFiles\<close> succeeds on a valid torrent and different paths, every file has its
  length, the files lie end to end and hold the whole torrent, and the files of a torrent with
  several files are below the directory of the download.\<close>
theorem opened_files_hold_torrent:
  assumes "openOutputFiles t sp ow w = (True, ofs, w')" "valid_torrent t" "distinct (map out_key ofs)"
  shows "layout 0 ofs \<and> (\<forall>f \<in> set ofs. length (file_bytes w' (out_path f)) = nat (out_length f)) \<and>
    sum_list (map out_length ofs) = totalLength t \<and>
    (isMultiFile t \<longrightarrow> (\<forall>f \<in> set ofs. \<exists>rel. out_path f = sp @ ''/'' @ rel \<and>
       (\<forall>c \<in> set (split_on (CHR ''/'') rel). safe_component c)))"
  using openOutputFiles_ok [OF assms] openOutputFiles_paths [OF assms(1)]
  by (auto simp: store_ok_def sized_def)

theorem opened_files_hold_torrent_witness:
  "layout 0 ex_files \<and> sum_list (map out_length ex_files) = totalLength ex_torrent"
  using opened_files_hold_torrent [OF ex_open] ex_geometry by (auto simp: ex_files_def geometry_def)

section \<open>Sockets\<close>

text \<open>C28. \<open>recvAll\<close> reads the stream: in whatever pieces the data comes and however often a call is
  interrupted, it succeeds exactly when enough bytes come before a failure, it fills the buffer
  with the first of them, and it leaves the others.\<close>
theorem recvAll_reads_stream:
  "case recvAll n s of ((ok, b), s') \<Rightarrow>
     ok = (n \<le> length (sk_stream s)) \<and> b = take n (sk_stream s) \<and>
     (if ok then sk_stream s' = drop n (sk_stream s) else True) \<and> sk_sent s' = sk_sent s"
  by (rule recvAll_cases [of n s]) auto

section \<open>Trackers\<close>

text \<open>C29. In every state of a tracker manager each URL is there once and no URL is empty, and
  \<open>dueTrackers\<close> lists exactly the trackers whose backoff is over, each once, the preferred one first.\<close>
theorem tracker_manager_consistent:
  assumes "tm_reachable tm"
  shows "distinct (map ts_url (tm_trackers tm)) \<and> [] \<notin> ts_url ` set (tm_trackers tm) \<and>
    distinct (dueTrackers now tm) \<and>
    set (dueTrackers now tm) = ts_url ` {st \<in> set (tm_trackers tm). ts_nextAllowed st \<le> now} \<and>
    (tm_preferred tm \<in> set (dueTrackers now tm) \<longrightarrow> hd (dueTrackers now tm) = tm_preferred tm)"
  using trackers.reachable_inv [OF assms] distinct_dueTrackers set_dueTrackers preferred_first
  by (auto simp: tm_inv_def)

theorem tracker_manager_consistent_witness:
  "distinct (dueTrackers 7 (reportFailure 0 ''http://t'' (tm_new [''http://t'', ''udp://u'', ''http://t''])))"
proof -
  have "tm_reachable (tm_new [''http://t'', ''udp://u'', ''http://t''])"
    by (rule reaches_init) (auto simp: tm_initial_def)
  then have "tm_reachable (reportFailure 0 ''http://t'' (tm_new [''http://t'', ''udp://u'', ''http://t'']))"
    by (rule reaches_step) (rule tm_failing)
  from tracker_manager_consistent [OF this] show ?thesis by blast
qed

text \<open>C30. After a failure a tracker waits between 60 seconds (not the documented 30) and 30 minutes,
  and each further failure doubles the wait up to that limit.\<close>
theorem failed_tracker_waits:
  assumes "tm_reachable tm" "st \<in> set (tm_trackers (reportFailure now url tm))" "ts_url st = url"
  shows "ts_nextAllowed st = now + 1000000000 * backoffSeconds (ts_failures st) \<and>
    60 \<le> backoffSeconds (ts_failures st) \<and> backoffSeconds (ts_failures st) \<le> 1800 \<and>
    backoffSeconds (ts_failures st + 1) = min (2 * backoffSeconds (ts_failures st)) 1800"
  using reportFailure_backs_off [OF trackers.reachable_inv [OF assms(1)] assms(2,3)] backoff_bounds backoff_doubles
  by (auto simp: seconds_def)

theorem failed_tracker_waits_witness:
  "60 \<le> backoffSeconds (ts_failures (hd (tm_trackers (reportFailure 0 ''u'' (tm_new [''u''])))))"
proof -
  have "tm_reachable (tm_new [''u''])" by (rule reaches_init) (auto simp: tm_initial_def)
  moreover have "tm_trackers (tm_new [''u'']) = [new_tracker ''u'']"
    by (simp add: tm_new_def tm_addAll_def tm_add_def)
  ultimately show ?thesis
    using failed_tracker_waits [of "tm_new [''u'']" "hd (tm_trackers (reportFailure 0 ''u'' (tm_new [''u''])))" 0 "''u''"]
    by (simp add: reportFailure_def new_tracker_def)
qed

text \<open>C31. A cycle of contacts asks at most \<open>maxAttempts\<close> trackers, in the order of \<open>dueTrackers\<close>; when
  one answers, it is the last one asked and it becomes the preferred one.\<close>
theorem contact_cycle:
  assumes "tm_contact clk env t pid dn up left event m tm = Ok (resp, tm', asked)"
  shows "(\<exists>k \<le> m. asked = take k (dueTrackers (clk 1) tm)) \<and>
    (response_ok resp \<longrightarrow> asked \<noteq> [] \<and> tm_preferred tm' = last asked)"
  using contact_loop_asked [OF assms [unfolded tm_contact_def]] contact_loop_success [OF assms [unfolded tm_contact_def]]
  by (auto simp: no_trackers_def response_ok_def)

theorem contact_cycle_witness:
  "\<exists>r tm'. tm_contact (\<lambda>_. 100) (\<lambda>_. ex_tracker) ex_torrent (replicate 20 CHR ''p'') 0 0 2 [] 3
      (tm_new [''udp://t:80'']) = Ok (r, tm', [''udp://t:80'']) \<and> tm_preferred tm' = ''udp://t:80''"
proof -
  obtain r tm' where c: "tm_contact (\<lambda>_. 100) (\<lambda>_. ex_tracker) ex_torrent (replicate 20 CHR ''p'') 0 0 2 [] 3
      (tm_new [''udp://t:80'']) = Ok (r, tm', [''udp://t:80''])" "response_ok r" using ex_contact by blast
  with contact_cycle [OF c(1)] show ?thesis by auto
qed

text \<open>C32. A UDP announce to a tracker that answers both requests with the right action and transaction: the tracker reads
  back the connect request and an announce with the connection id it gave, the hash, the peer id and the
  counts; the interval and the numbers are the tracker's; the peers are those packed into the third datagram,
  those without a port excepted, and what follows the 20 bytes of the announce response in its own
  datagram, where BEP 15 puts the peers, is lost.\<close>
theorem udp_announce_exchange:
  assumes "parseUdpUrl url = Some hp" "un_resolves net" "un_socket net" "un_sends net = (True, True)"
    "un_datagrams net = (connect_resp_bytes cr @ junk) # (announce_resp_bytes ar @ lost) #
       map (\<lambda>es. concat (map compact_entry es)) batches"
    "cr_action cr = 0" "cr_transaction_id cr = un_tid net" "ar_action ar = 1" "ar_transaction_id ar = un_tid net"
    "length (rawInfoHash t) = 20" "length peerId = 20" "\<forall>es \<in> set batches. length es \<le> 200"
    "contactUdpTracker net url t peerId downloaded uploaded remaining = (r, sent)"
  shows "map read_connect_req (take 1 sent) =
      [\<lparr>cq_connection_id = 0x41727101980, cq_action = 0, cq_transaction_id = un_tid net\<rparr>] \<and>
    map read_announce_req (drop 1 sent) =
      [\<lparr>aq_connection_id = cr_connection_id cr, aq_action = 1, aq_transaction_id = un_tid net,
        aq_info_hash = bytes_of_str (rawInfoHash t), aq_peer_id = bytes_of_str peerId,
        aq_downloaded = word_of_int downloaded, aq_left = word_of_int remaining,
        aq_uploaded = word_of_int uploaded, aq_event = 0, aq_ip = 0, aq_key = un_key net,
        aq_num_want = 200, aq_port = 6881\<rparr>] \<and>
    response_ok r \<and> trInterval r = sint (ar_interval ar) \<and>
    trIncomplete r = uint (ar_leechers ar) \<and> trComplete r = uint (ar_seeders ar) \<and>
    trPeers r = (case batches of [] \<Rightarrow> [] | es # _ \<Rightarrow> filter (\<lambda>p. pr_port p \<noteq> 0) (map entry_peer es))"
  using assms(13) assms(10,11)
  by (auto simp: udp_exchange_accepted [OF assms(1-11)] next_peers_batches [OF assms(12)] read_connect_req_bytes
      read_announce_req_bytes announce_request_def connect_request_def CONNECTION_ID_def response_ok_def
      default_response_def)

theorem udp_announce_exchange_witness:
  "trPeers (fst (contactUdpTracker ex_udp_net ''udp://t:80'' ex_torrent (replicate 20 CHR ''p'') 0 0 2)) = []"
proof -
  obtain r sent where "contactUdpTracker ex_udp_net ''udp://t:80'' ex_torrent (replicate 20 CHR ''p'') 0 0 2 = (r, sent)"
    by (metis surj_pair)
  with udp_announce_exchange [OF ex_udp_url _ _ _ _ _ _ _ _ _ _ _ this, of ex_udp_connect "[]" ex_udp_answer ex_udp_lost "[]"]
  show ?thesis by (simp add: ex_udp_def ex_udp_hash)
qed

text \<open>C33. A search of the DHT asks each node at most once and at most \<open>maxQueries\<close> nodes, and finds at
  most \<open>maxPeers\<close> peers, with different endpoints and a port, whatever the nodes reply.\<close>
theorem dht_search_bounded:
  assumes "discoverDhtSearch net h boot opts = Ok s"
  shows "discoverDhtPeers net h boot opts = Ok (ds_peers s) \<and>
    distinct (ds_asked s) \<and> length (ds_asked s) \<le> do_maxQueries opts \<and>
    length (ds_peers s) \<le> do_maxPeers opts \<and> distinct (map peer_key (ds_peers s)) \<and>
    (\<forall>p \<in> set (ds_peers s). pr_port p \<noteq> 0)"
  using discover_inv [OF assms] assms
  by (auto simp: discoverDhtPeers_def search_inv_def nodes_inv_def peers_inv_def)

theorem dht_search_bounded_witness:
  "length (ds_peers ex_found) \<le> 50 \<and> length (ds_asked ex_found) \<le> 16"
  using dht_search_bounded [OF ex_dht_found] by (simp add: ex_dht_opts)

section \<open>Paths and files\<close>

text \<open>C34. Whatever path a torrent gives for a file, \<open>sanitizePath\<close> turns it into a relative path
  that stays below the directory it is appended to: no component is empty, a dot or two dots,
  and walking the path from any directory only descends.\<close>
theorem sanitized_path_contained:
  "list_all safe_component (split_on (CHR ''/'') (sanitizePath path)) \<and>
   walk here (split_on (CHR ''/'') (sanitizePath path)) = here @ split_on (CHR ''/'') (sanitizePath path)"
  by (auto simp: list_all_iff intro: walk_safe sanitizePath_safe)

text \<open>C35. A range written to healthy output files laid end to end is read back unchanged, also when
  it crosses file boundaries.\<close>
theorem written_range_is_read:
  assumes "store_ok ofs w" "\<forall>f \<in> set ofs. \<not> faulty w (out_key f)" "a + length d \<le> length (flat ofs w)"
  shows "read_range ofs (int a) (length d) (write_range ofs (int a) d w) = Some d"
  using disk.write_blocks_read [of "(ofs, w)" a "[d]"] assms
  by (simp add: disk_ok_def disk_healthy_def disk_size_def disk_read_def disk_write_def)

theorem written_range_is_read_witness:
  "read_range two_files 1 2 (write_range two_files 1 [7, 8] two_files_fs) = Some [7, 8]"
  using written_range_is_read [of two_files two_files_fs 1 "[7, 8]"]
  by (simp add: store_ok_def sized_def path_key_def file_bytes_set_file two_files_def two_files_fs_def
      empty_fs_def faulty_def numeral_2_eq_2)

section \<open>Bencoding\<close>

text \<open>C36. Parsing the encoding of a value with 64-bit integers and sorted dictionaries gives the
  value back.\<close>
theorem parse_encode_roundtrip:
  assumes "wf_bval v" "length (encode v) < 2 ^ 64"
  shows "parse (encode v) = Ok v"
  using assms by (rule parse_encode)

theorem parse_encode_roundtrip_witness:
  "parse (encode (BDict [(''a'', BList [BInt (- 5)])])) = Ok (BDict [(''a'', BList [BInt (- 5)])])"
  by (rule parse_encode_roundtrip) (simp_all add: dec_int_def dec_nat.simps encode_string_def)





section \<open>The command line\<close>

text \<open>C39. How a run ends is what it says. \<open>-h\<close> prints the usage text and exits with 0. A command line that is read
  without an error but names no torrent prints the usage text too, and exits with 1. A wrong option prints
  one line on \<open>std::cerr\<close> that begins with Error, and nothing else, and exits with 1. Any other run
  without a download exits with 1 and has printed a message on \<open>std::cerr\<close>. A run with a download exits with 0,
  whether or not the download completed, and has printed no error before it (what the metadata search
  logs is not part of the output here).\<close>
theorem exit_status_explained:
  assumes "main SHA1 env argv = Exit n d"
  shows "let out = main_output SHA1 env program argv w in
    case d of
      Some dl \<Rightarrow> n = 0 \<and> cerr_lines out = cerr_lines w
    | None \<Rightarrow>
        (case parse_options argv default_options [] of
           Help \<Rightarrow> n = 0 \<and> out = w\<lparr>cout_lines := cout_lines w @ printUsage program\<rparr>
         | Parsed (_, []) \<Rightarrow> n = 1 \<and> out = w\<lparr>cout_lines := cout_lines w @ printUsage program\<rparr>
         | ArgError e \<Rightarrow> n = 1 \<and> out = w\<lparr>cerr_lines := cerr_lines w @ [e]\<rparr> \<and> (\<exists>m. e = ''Error: '' @ m)
         | _ \<Rightarrow> n = 1 \<and> length (cerr_lines w) < length (cerr_lines out))"
proof (cases d)
  case None
  with assms show ?thesis
    using main_output_error [of SHA1 env argv n program w] unfolding Let_def say_def complain_def by simp
next
  case (Some dl)
  with assms show ?thesis using cerr_main_output(2) [of SHA1 env argv n dl program w] by simp
qed

theorem exit_status_explained_witness:
  "\<exists>m. cerr_lines (main_output ex_sha (ex_main_env 0 0) ''gush'' [''--max-peers''] empty_logger) = [''Error: '' @ m]"
proof -
  have p: "parse_options [''--max-peers''] default_options [] = ArgError ''Error: --max-peers requires a number''"
    by (simp add: option_arg_def)
  then have "parseArgs [''--max-peers''] = ArgError ''Error: --max-peers requires a number''"
    by (simp add: parseArgs_def)
  then have "main ex_sha (ex_main_env 0 0) [''--max-peers''] = Exit 1 None" by (simp add: main_def)
  from exit_status_explained [OF this, of "''gush''" empty_logger] show ?thesis
    unfolding p Let_def by (auto simp: empty_logger_def)
qed

end
